(* ===== verification/Prelude.thy ===== *)
theory Prelude
  imports Main "HOL-Library.Word" "HOL-Library.Sublist"
begin

text \<open>
  Shared vocabulary of the development: the machine integers of the crate, its I/O errors as
  values, the error monad that models the question-mark operator, little-endian byte strings, the
  ordered maps and sets of the standard library, and the generic lemmas the component theories
  rest on.
\<close>

unbundle bit_operations_syntax

named_theorems result_simps \<open>characterisations of successful and failed results\<close>
named_theorems btree_simps \<open>laws of the ordered maps and sets\<close>

section \<open>Machine integers and bytes\<close>

type_synonym u8 = "8 word"
type_synonym u32 = "32 word"
type_synonym u64 = "64 word"
type_synonym bytes = "u8 list"

text \<open>\<^verbatim>\<open>checked_add\<close> and \<^verbatim>\<open>saturating_add\<close> of the unsigned integers.\<close>

definition checked_add :: "'a::len word \<Rightarrow> 'a word \<Rightarrow> 'a word option" where
  "checked_add x y = (if unat x + unat y < 2 ^ LENGTH('a) then Some (x + y) else None)"

definition saturating_add :: "'a::len word \<Rightarrow> 'a word \<Rightarrow> 'a word" where
  "saturating_add x y = (if unat x + unat y < 2 ^ LENGTH('a) then x + y else - 1)"

text \<open>\<^verbatim>\<open>u32::try_from\<close> on a \<^verbatim>\<open>usize\<close>: \<open>None\<close> where the value does not fit.\<close>

definition u32_try_from :: "nat \<Rightarrow> u32 option" where
  "u32_try_from n = (if n < 2 ^ 32 then Some (of_nat n) else None)"

definition u64_try_from :: "nat \<Rightarrow> u64 option" where
  "u64_try_from n = (if n < 2 ^ 64 then Some (of_nat n) else None)"

text \<open>\<^verbatim>\<open>to_le_bytes\<close> and \<^verbatim>\<open>from_le_bytes\<close>; the width in bytes is the first argument.\<close>

primrec to_le_bytes :: "nat \<Rightarrow> 'a::len word \<Rightarrow> bytes" where
  "to_le_bytes 0 w = []"
| "to_le_bytes (Suc n) w = ucast w # to_le_bytes n (drop_bit 8 w)"

primrec from_le_bytes :: "bytes \<Rightarrow> 'a::len word" where
  "from_le_bytes [] = 0"
| "from_le_bytes (b # bs) = ucast b OR push_bit 8 (from_le_bytes bs)"

section \<open>Errors as values\<close>

text \<open>
  \<^verbatim>\<open>std::io::Error\<close>: the kinds the crate builds or inspects, with the message. \<open>OsError\<close>
  is an error that the operating system reports for a system call.
\<close>

datatype error_kind =
    InvalidInput
  | InvalidData
  | NotFound
  | AlreadyExists
  | WouldBlock
  | OsError

datatype io_error = IoError (kind_of: error_kind) (message_of: string)

type_synonym 'a io_result = "io_error + 'a"

definition invalid_input :: "string \<Rightarrow> io_error" where
  "invalid_input msg = IoError InvalidInput msg"

definition invalid_data :: "string \<Rightarrow> io_error" where
  "invalid_data msg = IoError InvalidData msg"

lemma kind_of_invalid [simp]:
  "kind_of (invalid_input msg) = InvalidInput"
  "kind_of (invalid_data msg) = InvalidData"
  by (simp_all add: invalid_input_def invalid_data_def)

text \<open>The question-mark operator on a pure result.\<close>

fun rbind :: "'e + 'a \<Rightarrow> ('a \<Rightarrow> 'e + 'b) \<Rightarrow> 'e + 'b" where
  "rbind (Inl e) f = Inl e"
| "rbind (Inr x) f = f x"

text \<open>\<^verbatim>\<open>ok_or_else\<close> and \<^verbatim>\<open>map_err\<close>.\<close>

fun ok_or :: "'a option \<Rightarrow> 'e \<Rightarrow> 'e + 'a" where
  "ok_or None e = Inl e"
| "ok_or (Some x) e = Inr x"

fun map_err :: "('e \<Rightarrow> 'f) \<Rightarrow> 'e + 'a \<Rightarrow> 'f + 'a" where
  "map_err f (Inl e) = Inl (f e)"
| "map_err f (Inr x) = Inr x"

text \<open>A loop that threads an accumulator through fallible steps.\<close>

fun fold_result :: "('acc \<Rightarrow> 'v \<Rightarrow> 'e + 'acc) \<Rightarrow> 'acc \<Rightarrow> 'v list \<Rightarrow> 'e + 'acc" where
  "fold_result f acc [] = Inr acc"
| "fold_result f acc (v # vs) = rbind (f acc v) (\<lambda>acc. fold_result f acc vs)"

lemma rbind_cong [fundef_cong]:
  "m = m' \<Longrightarrow> (\<And>x. m' = Inr x \<Longrightarrow> f x = f' x) \<Longrightarrow> rbind m f = rbind m' f'"
  by (cases m') auto

lemma rbind_eq_Inr [result_simps]:
  "rbind m f = Inr y \<longleftrightarrow> (\<exists>x. m = Inr x \<and> f x = Inr y)"
  by (cases m) auto

lemma rbind_eq_Inl [result_simps]:
  "rbind m f = Inl e \<longleftrightarrow> m = Inl e \<or> (\<exists>x. m = Inr x \<and> f x = Inl e)"
  by (cases m) auto

lemma ok_or_eq [result_simps]:
  "ok_or m e = Inr x \<longleftrightarrow> m = Some x"
  "ok_or m e = Inl e' \<longleftrightarrow> m = None \<and> e' = e"
  by (cases m; auto)+

lemma rbind_Inr [simp]: "rbind m Inr = m"
  by (cases m) auto

lemma rbind_assoc: "rbind (rbind m f) g = rbind m (\<lambda>x. rbind (f x) g)"
  by (cases m) auto

lemma fold_result_append: "fold_result f acc (xs @ ys) = rbind (fold_result f acc xs) (\<lambda>acc. fold_result f acc ys)"
  by (induction xs arbitrary: acc) (simp_all add: rbind_assoc)

lemma fold_result_total: "(\<And>acc v. f acc v = Inr (g acc v)) \<Longrightarrow> fold_result f acc vs = Inr (foldl g acc vs)"
  by (induction vs arbitrary: acc) simp_all

lemma map_err_eq [result_simps]:
  "map_err f m = Inr x \<longleftrightarrow> m = Inr x"
  "map_err f m = Inl e \<longleftrightarrow> (\<exists>e'. m = Inl e' \<and> e = f e')"
  by (cases m; auto)+

lemma if_result_eq [result_simps]:
  "(if b then Inl e else m) = Inr x \<longleftrightarrow> \<not> b \<and> m = Inr x"
  "(if b then m else Inl e) = Inr x \<longleftrightarrow> b \<and> m = Inr x"
  by auto

text \<open>
  Computations with a mutable state. An error keeps the state that the computation reached, as a
  Rust function that returns early keeps what it already wrote through its \<^verbatim>\<open>&mut\<close> arguments.
\<close>

type_synonym ('s, 'a) io = "'s \<Rightarrow> 'a io_result \<times> 's"

definition sret :: "'a \<Rightarrow> ('s, 'a) io" where
  "sret x s = (Inr x, s)"

definition serr :: "io_error \<Rightarrow> ('s, 'a) io" where
  "serr e s = (Inl e, s)"

definition slift :: "'a io_result \<Rightarrow> ('s, 'a) io" where
  "slift r s = (r, s)"

definition smodify :: "('s \<Rightarrow> 's) \<Rightarrow> ('s, unit) io" where
  "smodify f s = (Inr (), f s)"

definition sget :: "('s \<Rightarrow> 'a) \<Rightarrow> ('s, 'a) io" where
  "sget f s = (Inr (f s), s)"

definition sbind :: "('s, 'a) io \<Rightarrow> ('a \<Rightarrow> ('s, 'b) io) \<Rightarrow> ('s, 'b) io" where
  "sbind m f s = (case m s of (Inl e, s') \<Rightarrow> (Inl e, s') | (Inr x, s') \<Rightarrow> f x s')"

lemmas io_defs = sret_def serr_def slift_def smodify_def sget_def

lemma sbind_simps [simp]:
  "m s = (Inr x, s') \<Longrightarrow> sbind m f s = f x s'"
  "m s = (Inl e, s') \<Longrightarrow> sbind m f s = (Inl e, s')"
  by (simp_all add: sbind_def)

lemma sbind_io [simp]:
  "sbind (sret x) f s = f x s"
  "sbind (serr e) f s = (Inl e, s)"
  "sbind (smodify g) k s = k () (g s)"
  "sbind (sget h) f s = f (h s) s"
  "sbind (slift (Inr x)) f s = f x s"
  "sbind (slift (Inl e)) f s = (Inl e, s)"
  by (simp_all add: sbind_def io_defs)

lemma sbind_eq_Inr [result_simps]:
  "sbind m f s = (Inr y, s'') \<longleftrightarrow> (\<exists>x s'. m s = (Inr x, s') \<and> f x s' = (Inr y, s''))"
  by (auto simp: sbind_def split: prod.splits sum.splits)

lemma sbind_cong [fundef_cong]:
  "s = t \<Longrightarrow> m t = m' t \<Longrightarrow> (\<And>x s'. m' t = (Inr x, s') \<Longrightarrow> f x s' = f' x s') \<Longrightarrow> sbind m f s = sbind m' f' t"
  by (auto simp: sbind_def split: prod.splits sum.splits)

section \<open>Lemmas on words and little-endian bytes\<close>

lemma u64_bound: "unat (w :: u64) < 2 ^ 64"
  by (rule less_le_trans [OF unsigned_less]) simp

lemma u32_bound: "unat (w :: u32) < 2 ^ 32"
  by (rule less_le_trans [OF unsigned_less]) simp

lemmas u64_bound_num [simp] = u64_bound [simplified]
lemmas u32_bound_num [simp] = u32_bound [simplified]

lemma unat_of_nat_u32: "n < 2 ^ 32 \<Longrightarrow> unat (of_nat n :: u32) = n"
  by (simp add: unat_of_nat take_bit_nat_eq_self)

lemma unat_of_nat_u64: "n < 2 ^ 64 \<Longrightarrow> unat (of_nat n :: u64) = n"
  by (simp add: unat_of_nat take_bit_nat_eq_self)

lemma unat_ucast_u32 [simp]: "unat (ucast (w :: u32) :: u64) = unat w"
  by (simp add: unsigned_ucast_eq take_bit_nat_eq_self less_trans [OF u32_bound])

lemma unat_checked_add: "checked_add x y = Some z \<Longrightarrow> unat z = unat x + unat y"
  by (auto simp: checked_add_def unat_word_ariths split: if_splits)

lemma checked_add_of_nat:
  fixes x :: "'a::len word"
  assumes "unat x + n < 2 ^ LENGTH('a)"
  shows "checked_add x (of_nat n) = Some (x + of_nat n)"
  using assms by (simp add: checked_add_def unat_of_nat take_bit_nat_eq_self)

lemma unat_saturating_add:
  fixes x :: "'a::len word"
  shows "unat (saturating_add x y) = min (unat x + unat y) (2 ^ LENGTH('a) - 1)"
proof (cases "unat x + unat y < 2 ^ LENGTH('a)")
  case True
  then have "min (unat x + unat y) (2 ^ LENGTH('a) - 1) = unat x + unat y" by linarith
  with True show ?thesis by (simp add: saturating_add_def unat_word_ariths)
next
  case False
  then show ?thesis by (simp add: saturating_add_def unsigned_minus_1_eq_mask mask_eq_exp_minus_1)
qed

lemma u32_try_from_eq [result_simps]:
  "u32_try_from n = Some w \<longleftrightarrow> n < 2 ^ 32 \<and> w = of_nat n"
  "u32_try_from n = None \<longleftrightarrow> 2 ^ 32 \<le> n"
  by (auto simp: u32_try_from_def)

lemma length_to_le_bytes [simp]: "length (to_le_bytes n w) = n"
  by (induction n arbitrary: w) auto

lemma from_to_le_bytes:
  "from_le_bytes (to_le_bytes n w) = take_bit (8 * n) (w :: 'a::len word)"
proof (induction n arbitrary: w)
  case 0
  show ?case by simp
next
  case (Suc n)
  show ?case
  proof (rule bit_word_eqI)
    fix k assume "k < LENGTH('a)"
    then show "bit (from_le_bytes (to_le_bytes (Suc n) w) :: 'a word) k =
        bit (take_bit (8 * Suc n) w) k"
      by (cases "k < 8") (auto simp: Suc.IH bit_simps)
  qed
qed

lemma from_to_le_bytes_u32 [simp]: "from_le_bytes (to_le_bytes 4 w) = (w :: u32)"
  using take_bit_word_eq_self [of 32 w] by (simp add: from_to_le_bytes)

lemma from_to_le_bytes_u64 [simp]: "from_le_bytes (to_le_bytes 8 w) = (w :: u64)"
  using take_bit_word_eq_self [of 64 w] by (simp add: from_to_le_bytes)

lemma bit_from_le_bytes: "bit (from_le_bytes bs :: 'a::len word) k \<Longrightarrow> k < 8 * length bs"
proof (induction bs arbitrary: k)
  case Nil
  then show ?case by simp
next
  case (Cons b bs)
  show ?case
  proof (cases "k < 8")
    case False
    with Cons.prems have "bit (from_le_bytes bs :: 'a word) (k - 8)"
      by (auto simp: bit_simps dest: bit_imp_le_length)
    with False show ?thesis using Cons.IH by fastforce
  qed simp
qed

lemma to_from_le_bytes:
  assumes "8 * length bs \<le> LENGTH('a::len)"
  shows "to_le_bytes (length bs) (from_le_bytes bs :: 'a word) = bs"
  using assms
proof (induction bs)
  case Nil
  show ?case by simp
next
  case (Cons b bs)
  have low: "ucast (ucast b OR push_bit 8 (from_le_bytes bs) :: 'a word) = b"
    using Cons.prems by (intro bit_word_eqI) (auto simp: bit_simps)
  have high: "drop_bit 8 (ucast b OR push_bit 8 (from_le_bytes bs) :: 'a word) = from_le_bytes bs"
    using Cons.prems
    by (intro bit_word_eqI) (fastforce simp: bit_simps dest: bit_from_le_bytes bit_imp_le_length)
  have "to_le_bytes (length (b # bs)) (from_le_bytes (b # bs) :: 'a word) =
      b # to_le_bytes (length bs) (from_le_bytes bs :: 'a word)"
    using low high by (simp only: list.size from_le_bytes.simps to_le_bytes.simps add_0_right add_Suc_right)
  with Cons show ?case by simp
qed

section \<open>Ordered maps and sets\<close>

text \<open>
  A \<^verbatim>\<open>BTreeMap\<close> is the association list of its entries in ascending key order, which is the
  order its iterators yield; \<open>bt_wf\<close> is the representation invariant. A \<^verbatim>\<open>BTreeSet\<close> is the
  ascending list of its members.
\<close>

type_synonym ('k, 'v) btmap = "('k \<times> 'v) list"
type_synonym 'k btset = "'k list"

abbreviation bt_wf :: "('k::linorder, 'v) btmap \<Rightarrow> bool" where
  "bt_wf m \<equiv> sorted_wrt (<) (map fst m)"

abbreviation bts_wf :: "'k::linorder btset \<Rightarrow> bool" where
  "bts_wf s \<equiv> sorted_wrt (<) s"

abbreviation bt_get :: "('k, 'v) btmap \<Rightarrow> 'k \<Rightarrow> 'v option" where
  "bt_get m k \<equiv> map_of m k"

fun bt_insert :: "'k::linorder \<Rightarrow> 'v \<Rightarrow> ('k, 'v) btmap \<Rightarrow> ('k, 'v) btmap" where
  "bt_insert k v [] = [(k, v)]"
| "bt_insert k v (e # m) =
     (if k < fst e then (k, v) # e # m
      else if fst e < k then e # bt_insert k v m
      else (k, v) # m)"

definition bt_remove :: "'k \<Rightarrow> ('k, 'v) btmap \<Rightarrow> ('k, 'v) btmap" where
  "bt_remove k m = filter (\<lambda>e. fst e \<noteq> k) m"

definition bt_retain :: "('k \<Rightarrow> 'v \<Rightarrow> bool) \<Rightarrow> ('k, 'v) btmap \<Rightarrow> ('k, 'v) btmap" where
  "bt_retain P m = filter (\<lambda>e. P (fst e) (snd e)) m"

definition bt_extend :: "('k::linorder, 'v) btmap \<Rightarrow> ('k, 'v) btmap \<Rightarrow> ('k, 'v) btmap" where
  "bt_extend m m' = fold (\<lambda>e. bt_insert (fst e) (snd e)) m' m"

definition bts_insert :: "'k::linorder \<Rightarrow> 'k btset \<Rightarrow> 'k btset" where
  "bts_insert k s = (if k \<in> set s then s else insort k s)"

lemma set_fst_bt_insert [btree_simps]: "fst ` set (bt_insert k v m) = insert k (fst ` set m)"
  by (induction m) force+

lemma bt_wf_insert [btree_simps]: "bt_wf m \<Longrightarrow> bt_wf (bt_insert k v m)"
proof (induction m)
  case Nil
  show ?case by simp
next
  case (Cons e m)
  then show ?case using set_fst_bt_insert [of k v m] by (auto 0 3)
qed

lemma bt_wf_distinct [btree_simps]: "bt_wf m \<Longrightarrow> distinct (map fst m)"
  by (simp add: strict_sorted_iff)

lemma bt_get_insert [btree_simps]: "bt_get (bt_insert k v m) = (bt_get m)(k \<mapsto> v)"
  by (induction m) (auto simp: fun_eq_iff)

lemma bt_get_filter: "distinct (map fst m) \<Longrightarrow>
  bt_get (filter P m) k = (case bt_get m k of None \<Rightarrow> None | Some v \<Rightarrow> if P (k, v) then Some v else None)"
  by (induction m) (force split: option.splits dest: map_of_SomeD)+

lemma bt_get_remove [btree_simps]: "bt_get (bt_remove k m) = (bt_get m)(k := None)"
  by (induction m) (auto simp: bt_remove_def fun_eq_iff)

lemma bt_get_retain [btree_simps]: "bt_wf m \<Longrightarrow>
  bt_get (bt_retain P m) k = (case bt_get m k of None \<Rightarrow> None | Some v \<Rightarrow> if P k v then Some v else None)"
  by (simp add: bt_retain_def bt_get_filter strict_sorted_iff split: option.splits)

lemma bt_wf_filter: "bt_wf m \<Longrightarrow> bt_wf (filter P m)"
  by (simp add: sorted_wrt_map sorted_wrt_filter)

lemma bt_wf_remove [btree_simps]: "bt_wf m \<Longrightarrow> bt_wf (bt_remove k m)"
  unfolding bt_remove_def by (rule bt_wf_filter)

lemma bt_wf_retain [btree_simps]: "bt_wf m \<Longrightarrow> bt_wf (bt_retain P m)"
  unfolding bt_retain_def by (rule bt_wf_filter)

lemma bt_wf_extend [btree_simps]: "bt_wf m \<Longrightarrow> bt_wf (bt_extend m m')"
  unfolding bt_extend_def by (induction m' arbitrary: m) (auto simp: bt_wf_insert)

lemma bt_get_extend [btree_simps]: "bt_wf m' \<Longrightarrow> bt_get (bt_extend m m') = bt_get m ++ bt_get m'"
proof -
  have "bt_get (fold (\<lambda>e. bt_insert (fst e) (snd e)) m' m) = bt_get m ++ map_of (rev m')" for m
    by (induction m' arbitrary: m) (auto simp: btree_simps map_add_def fun_eq_iff split: option.splits)
  moreover assume "bt_wf m'"
  then have "map_of (rev m') = map_of m'"
    by (subst map_of_inject_set) (auto simp: strict_sorted_iff rev_map [symmetric])
  ultimately show ?thesis by (simp add: bt_extend_def)
qed

text \<open>Two maps with the same lookups are the same list: the representation is canonical.\<close>

lemma bt_ext:
  assumes "bt_wf m" and "bt_wf m'" and "\<And>k. bt_get m k = bt_get m' k"
  shows "m = m'"
proof -
  have dist: "distinct (map fst m)" "distinct (map fst m')"
    using assms(1,2) by (auto simp: strict_sorted_iff)
  have eq: "set m = set m'"
    using assms(3) map_of_inject_set [OF dist] by (simp add: fun_eq_iff)
  show ?thesis
    using assms(1,2) dist eq
    by (intro map_sorted_distinct_set_unique [where f = fst])
      (auto simp: strict_sorted_iff distinct_map)
qed

lemma bt_insert_snoc: "(\<And>x. x \<in> fst ` set m \<Longrightarrow> x < k) \<Longrightarrow> bt_insert k v m = m @ [(k, v)]"
  by (induction m) force+

lemma bts_insert_snoc: "(\<And>x. x \<in> set s \<Longrightarrow> x < k) \<Longrightarrow> bts_insert k s = s @ [k]"
proof -
  assume less: "\<And>x. x \<in> set s \<Longrightarrow> x < k"
  then have "insort k s = s @ [k]" by (induction s) force+
  with less show ?thesis by (auto simp: bts_insert_def)
qed

lemma bts_insert_set [btree_simps]: "set (bts_insert k s) = insert k (set s)"
  by (auto simp: bts_insert_def set_insort_key)

lemma bts_wf_insert [btree_simps]: "bts_wf s \<Longrightarrow> bts_wf (bts_insert k s)"
  by (auto simp: bts_insert_def strict_sorted_iff sorted_insort distinct_insort)

end
