(* ===== verification/Bytes.thy ===== *)
theory Bytes
  imports Prelude
begin

text \<open>
  The payload type of \<^verbatim>\<open>src/bytes.rs\<close>: a reference-counted byte buffer. The allocations behind the
  \<^verbatim>\<open>Arc\<close> handles are an explicit store of cells with their counts, so that sharing is visible. The
  result of the theory is that a handle reads the bytes it was made from as long as it lives,
  whatever happens to other handles; this is why all other theories have byte lists for payloads.
\<close>

section \<open>Model\<close>

text \<open>\<^verbatim>\<open>Arc<[u8]>\<close>: the index of a cell. The cell is free when its count is 0; no index is used twice.\<close>

record ArcCell =
  ac_data :: bytes
  ac_count :: nat

type_synonym ArcStore = "ArcCell list"
type_synonym Arc = nat

definition arc_from :: "bytes \<Rightarrow> ArcStore \<Rightarrow> Arc \<times> ArcStore" where
  "arc_from bs h = (length h, h @ [\<lparr>ac_data = bs, ac_count = 1\<rparr>])"

definition arc_deref :: "ArcStore \<Rightarrow> Arc \<Rightarrow> bytes option" where
  "arc_deref h a = (if a < length h \<and> 0 < ac_count (h ! a) then Some (ac_data (h ! a)) else None)"

definition arc_update :: "(nat \<Rightarrow> nat) \<Rightarrow> Arc \<Rightarrow> ArcStore \<Rightarrow> ArcStore" where
  "arc_update g a h = (if a < length h then h[a := ac_count_update g (h ! a)] else h)"

datatype Bytes = Bytes (inner: Arc)

definition Bytes_new :: "bytes \<Rightarrow> ArcStore \<Rightarrow> Bytes \<times> ArcStore" where
  "Bytes_new bs h = map_prod Bytes id (arc_from bs h)"

definition from_arc :: "Arc \<Rightarrow> Bytes" where
  "from_arc bs = Bytes bs"

definition as_slice :: "ArcStore \<Rightarrow> Bytes \<Rightarrow> bytes option" where
  "as_slice h b = arc_deref h (inner b)"

definition as_arc :: "Bytes \<Rightarrow> Arc" where
  "as_arc b = inner b"

definition Bytes_len :: "ArcStore \<Rightarrow> Bytes \<Rightarrow> nat option" where
  "Bytes_len h b = map_option length (arc_deref h (inner b))"

definition Bytes_is_empty :: "ArcStore \<Rightarrow> Bytes \<Rightarrow> bool option" where
  "Bytes_is_empty h b = map_option (\<lambda>bs. bs = []) (arc_deref h (inner b))"

definition into_arc :: "Bytes \<Rightarrow> Arc" where
  "into_arc b = inner b"

text \<open>The conversions; the last two of the code move the handle, \<^verbatim>\<open>From<&[u8]>\<close> copies the bytes.\<close>

definition Bytes_from_vec :: "bytes \<Rightarrow> ArcStore \<Rightarrow> Bytes \<times> ArcStore" where
  "Bytes_from_vec bs = Bytes_new bs"

definition Bytes_from_slice :: "bytes \<Rightarrow> ArcStore \<Rightarrow> Bytes \<times> ArcStore" where
  "Bytes_from_slice bs h = map_prod Bytes id (arc_from bs h)"

definition Bytes_from_arc :: "Arc \<Rightarrow> Bytes" where
  "Bytes_from_arc a = from_arc a"

definition Arc_from_Bytes :: "Bytes \<Rightarrow> Arc" where
  "Arc_from_Bytes b = into_arc b"

text \<open>The derived \<^verbatim>\<open>Default\<close>, \<^verbatim>\<open>Clone\<close> and \<^verbatim>\<open>PartialEq\<close>, and what dropping a handle does.\<close>

definition Bytes_default :: "ArcStore \<Rightarrow> Bytes \<times> ArcStore" where
  "Bytes_default h = map_prod Bytes id (arc_from [] h)"

definition Bytes_clone :: "Bytes \<Rightarrow> ArcStore \<Rightarrow> Bytes \<times> ArcStore" where
  "Bytes_clone b h = (Bytes (inner b), arc_update Suc (inner b) h)"

definition Bytes_eq :: "ArcStore \<Rightarrow> Bytes \<Rightarrow> Bytes \<Rightarrow> bool" where
  "Bytes_eq h b c \<longleftrightarrow> arc_deref h (inner b) = arc_deref h (inner c)"

definition Bytes_drop :: "Bytes \<Rightarrow> ArcStore \<Rightarrow> ArcStore" where
  "Bytes_drop b h = arc_update (\<lambda>n. n - 1) (inner b) h"

section \<open>Handles in use\<close>

text \<open>
  The store with the handles that live, each with the bytes that it was made from. A safe program
  makes handles, clones them, converts them to \<^verbatim>\<open>Arc\<close> and back, and drops them, in any order.
\<close>

type_synonym holders = "ArcStore \<times> (Bytes \<times> bytes) list"

inductive bytes_step :: "holders \<Rightarrow> holders \<Rightarrow> bool" where
  made: "Bytes_new bs h = (b, h') \<Longrightarrow> bytes_step (h, hs) (h', (b, bs) # hs)"
| copied: "Bytes_from_slice bs h = (b, h') \<Longrightarrow> bytes_step (h, hs) (h', (b, bs) # hs)"
| defaulted: "Bytes_default h = (b, h') \<Longrightarrow> bytes_step (h, hs) (h', (b, []) # hs)"
| cloned: "(b, bs) \<in> set hs \<Longrightarrow> Bytes_clone b h = (c, h') \<Longrightarrow> bytes_step (h, hs) (h', (c, bs) # hs)"
| moved: "bytes_step (h, xs @ (b, bs) # ys) (h, xs @ (Bytes_from_arc (Arc_from_Bytes b), bs) # ys)"
| dropped: "bytes_step (h, xs @ (b, bs) # ys) (Bytes_drop b h, xs @ ys)"

text \<open>The invariant: the count of a cell is the number of its handles, which agree on its bytes.\<close>

definition handles :: "(Bytes \<times> bytes) list \<Rightarrow> Arc \<Rightarrow> nat" where
  "handles hs a = length (filter (\<lambda>(b, _). inner b = a) hs)"

definition counted :: "holders \<Rightarrow> bool" where
  "counted hp \<longleftrightarrow> (case hp of (h, hs) \<Rightarrow>
     (\<forall>a < length h. ac_count (h ! a) = handles hs a) \<and>
     (\<forall>(b, bs) \<in> set hs. inner b < length h \<and> ac_data (h ! inner b) = bs))"

lemma handles_simps [simp]:
  "handles [] a = 0" "handles ((b, bs) # hs) a = of_bool (inner b = a) + handles hs a"
  "handles (xs @ ys) a = handles xs a + handles ys a"
  by (simp_all add: handles_def)

lemma handles_member: "(b, bs) \<in> set hs \<Longrightarrow> 0 < handles hs (inner b)"
  by (auto simp: handles_def length_greater_0_conv filter_empty_conv)

lemma handles_free: "\<forall>(b, _) \<in> set hs. inner b < n \<Longrightarrow> handles hs n = 0"
  by (auto simp: handles_def filter_empty_conv)

lemma counted_new: "counted (h, hs) \<Longrightarrow> arc_from bs h = (a, h') \<Longrightarrow> counted (h', (Bytes a, bs) # hs)"
  using handles_free [of hs "length h"]
  by (fastforce simp: counted_def arc_from_def nth_append less_Suc_eq)

lemma counted_update:
  assumes "counted (h, hs)" and "inner b < length h"
    and "\<And>a. handles hs' a = (if a = inner b then g (handles hs a) else handles hs a)"
    and "\<And>c cs. (c, cs) \<in> set hs' \<Longrightarrow> (c, cs) \<in> set hs"
  shows "counted (arc_update g (inner b) h, hs')"
  using assms by (fastforce simp: counted_def arc_update_def nth_list_update)

lemma counted_step: "bytes_step hp hp' \<Longrightarrow> counted hp \<Longrightarrow> counted hp'"
proof (induction rule: bytes_step.induct)
  case (made bs h b h' hs)
  then show ?case using counted_new by (auto simp: Bytes_new_def map_prod_def split: prod.splits)
next
  case (copied bs h b h' hs)
  then show ?case using counted_new by (auto simp: Bytes_from_slice_def map_prod_def split: prod.splits)
next
  case (defaulted h b h' hs)
  then show ?case using counted_new by (auto simp: Bytes_default_def map_prod_def split: prod.splits)
next
  case (cloned b bs hs h c h')
  have low: "inner b < length h" using cloned.prems cloned.hyps(1) by (auto simp: counted_def)
  have "counted (arc_update Suc (inner b) h, (b, bs) # hs)"
    by (rule counted_update [OF cloned.prems low]) (use cloned.hyps(1) in auto)
  then show ?case using cloned.hyps(2) by (auto simp: Bytes_clone_def)
next
  case (moved h xs b bs ys)
  then show ?case by (simp add: Bytes_from_arc_def Arc_from_Bytes_def from_arc_def into_arc_def)
next
  case (dropped h xs b bs ys)
  have low: "inner b < length h" using dropped by (auto simp: counted_def)
  show ?case unfolding Bytes_drop_def by (rule counted_update [OF dropped low]) auto
qed

lemma counted_reachable: "bytes_step\<^sup>*\<^sup>* ([], []) hp \<Longrightarrow> counted hp"
  by (induction rule: rtranclp_induct) (auto simp: counted_def [of "([], [])"] intro: counted_step)

text \<open>
  Payloads are values: whatever was done with other handles, a handle reads the bytes that it was
  made from, and two handles are equal when these bytes are. A cell is free exactly when the last
  handle of it was dropped.
\<close>

lemma bytes_are_values:
  assumes "bytes_step\<^sup>*\<^sup>* ([], []) (h, hs)" and "(b, bs) \<in> set hs"
  shows "as_slice h b = Some bs" and "Bytes_len h b = Some (length bs)" and "Bytes_is_empty h b = Some (bs = [])"
    and "(c, cs) \<in> set hs \<Longrightarrow> Bytes_eq h b c \<longleftrightarrow> bs = cs"
proof -
  have read: "arc_deref h (inner b) = Some bs" if "(b, bs) \<in> set hs" for b bs
    using counted_reachable [OF assms(1)] that handles_member [OF that] by (auto simp: counted_def arc_deref_def)
  note this [OF assms(2)]
  then show "as_slice h b = Some bs" "Bytes_len h b = Some (length bs)" "Bytes_is_empty h b = Some (bs = [])"
    by (simp_all add: as_slice_def Bytes_len_def Bytes_is_empty_def)
  show "Bytes_eq h b c \<longleftrightarrow> bs = cs" if "(c, cs) \<in> set hs"
    using read [OF assms(2)] read [OF that] by (simp add: Bytes_eq_def)
qed

lemma bytes_freed:
  assumes "bytes_step\<^sup>*\<^sup>* ([], []) (h, hs)" and "a < length h"
  shows "arc_deref h a = None \<longleftrightarrow> (\<forall>(b, _) \<in> set hs. as_arc b \<noteq> a)"
  using counted_reachable [OF assms(1)] assms(2)
  by (auto simp: counted_def arc_deref_def as_arc_def handles_def filter_empty_conv)

text \<open>Cloning shares the buffer, and the conversions from and to \<^verbatim>\<open>Arc\<close> keep it.\<close>

lemma bytes_shared:
  "Bytes_clone b h = (c, h') \<Longrightarrow> as_arc c = as_arc b \<and> length h' = length h" "into_arc (from_arc a) = a" "from_arc (into_arc b) = b"
  by (auto simp: Bytes_clone_def as_arc_def arc_update_def into_arc_def from_arc_def)

end
