(* ===== verification/Crc32c.thy ===== *)
theory Crc32c
  imports Prelude
begin

text \<open>
  The CRC-32C accumulator of \<^verbatim>\<open>src/crc32c.rs\<close>: the table construction, the slice-by-16 update
  loop and the byte loop that follows it, and the proof that they compute the bit-at-a-time
  checksum, for every way of cutting the input into chunks.
\<close>

section \<open>Model\<close>

definition POLYNOMIAL :: u32 where
  "POLYNOMIAL = 0x82F63B78"

definition SLICE :: nat where
  "SLICE = 16"

text \<open>One turn of the inner \<^verbatim>\<open>while bit < 8\<close> loop, and \<open>n\<close> turns of it.\<close>

definition crc_bit :: "u32 \<Rightarrow> u32" where
  "crc_bit crc = (if crc AND 1 = 0 then drop_bit 1 crc else drop_bit 1 crc XOR POLYNOMIAL)"

primrec crc_bits :: "nat \<Rightarrow> u32 \<Rightarrow> u32" where
  "crc_bits 0 crc = crc"
| "crc_bits (Suc n) crc = crc_bits n (crc_bit crc)"

definition table0 :: "u32 list" where
  "table0 = map (\<lambda>i. crc_bits 8 (of_nat i)) [0..<256]"

text \<open>The second loop of \<^verbatim>\<open>make_table\<close>: row \<open>slice\<close> from row \<open>slice - 1\<close> and row 0.\<close>

definition next_row :: "u32 list \<Rightarrow> u32 list \<Rightarrow> u32 list" where
  "next_row t0 prev_row =
     map (\<lambda>i. let prev = prev_row ! i in drop_bit 8 prev XOR t0 ! unat (prev AND 0xFF)) [0..<256]"

primrec make_rows :: "nat \<Rightarrow> u32 list list \<Rightarrow> u32 list list" where
  "make_rows 0 table = table"
| "make_rows (Suc n) table = make_rows n (table @ [next_row (table ! 0) (last table)])"

definition make_table :: "u32 list list" where
  "make_table = make_rows (SLICE - 1) [table0]"

definition TABLE :: "u32 list list" where
  "TABLE = make_table"

text \<open>\<^verbatim>\<open>struct Crc32c\<close> and its operations.\<close>

record Crc32c_acc =
  crc_state :: u32

definition crc_new :: Crc32c_acc where
  "crc_new = \<lparr>crc_state = 0xFFFFFFFF\<rparr>"

definition slice_step :: "bytes \<Rightarrow> nat \<Rightarrow> u32 \<Rightarrow> u32" where
  "slice_step data i crc =
     (let w0 = from_le_bytes (take 4 (drop i data)) XOR crc;
          w1 = from_le_bytes (take 4 (drop (i + 4) data)) :: u32;
          w2 = from_le_bytes (take 4 (drop (i + 8) data)) :: u32;
          w3 = from_le_bytes (take 4 (drop (i + 12) data)) :: u32
      in TABLE ! 15 ! unat (w0 AND 0xFF)
           XOR TABLE ! 14 ! unat (drop_bit 8 w0 AND 0xFF)
           XOR TABLE ! 13 ! unat (drop_bit 16 w0 AND 0xFF)
           XOR TABLE ! 12 ! unat (drop_bit 24 w0)
           XOR TABLE ! 11 ! unat (w1 AND 0xFF)
           XOR TABLE ! 10 ! unat (drop_bit 8 w1 AND 0xFF)
           XOR TABLE ! 9 ! unat (drop_bit 16 w1 AND 0xFF)
           XOR TABLE ! 8 ! unat (drop_bit 24 w1)
           XOR TABLE ! 7 ! unat (w2 AND 0xFF)
           XOR TABLE ! 6 ! unat (drop_bit 8 w2 AND 0xFF)
           XOR TABLE ! 5 ! unat (drop_bit 16 w2 AND 0xFF)
           XOR TABLE ! 4 ! unat (drop_bit 24 w2)
           XOR TABLE ! 3 ! unat (w3 AND 0xFF)
           XOR TABLE ! 2 ! unat (drop_bit 8 w3 AND 0xFF)
           XOR TABLE ! 1 ! unat (drop_bit 16 w3 AND 0xFF)
           XOR TABLE ! 0 ! unat (drop_bit 24 w3))"

function slice_loop :: "bytes \<Rightarrow> nat \<Rightarrow> u32 \<Rightarrow> nat \<times> u32" where
  "slice_loop data i crc =
     (if i + SLICE \<le> length data then slice_loop data (i + SLICE) (slice_step data i crc)
      else (i, crc))"
  by pat_completeness auto
termination
  by (relation "measure (\<lambda>(data, i, crc). length data - i)") (auto simp: SLICE_def)

function byte_loop :: "bytes \<Rightarrow> nat \<Rightarrow> u32 \<Rightarrow> u32" where
  "byte_loop data i crc =
     (if i < length data
      then byte_loop data (i + 1)
             (drop_bit 8 crc XOR TABLE ! 0 ! unat ((crc XOR ucast (data ! i)) AND 0xFF))
      else crc)"
  by pat_completeness auto
termination
  by (relation "measure (\<lambda>(data, i, crc). length data - i)") auto

declare slice_loop.simps [simp del] byte_loop.simps [simp del]

definition crc_update :: "Crc32c_acc \<Rightarrow> bytes \<Rightarrow> Crc32c_acc" where
  "crc_update acc data =
     (let (i, crc) = slice_loop data 0 (crc_state acc)
      in acc\<lparr>crc_state := byte_loop data i crc\<rparr>)"

definition crc_value :: "Crc32c_acc \<Rightarrow> u32" where
  "crc_value acc = NOT (crc_state acc)"

definition crc32c :: "bytes \<Rightarrow> u32" where
  "crc32c data = crc_value (crc_update crc_new data)"

text \<open>The reference of the crate's own tests: one bit at a time, no table.\<close>

definition bitwise_byte :: "u8 \<Rightarrow> u32 \<Rightarrow> u32" where
  "bitwise_byte b crc = crc_bits 8 (crc XOR ucast b)"

definition crc32c_byte_at_a_time :: "bytes \<Rightarrow> u32" where
  "crc32c_byte_at_a_time data = NOT (fold bitwise_byte data 0xFFFFFFFF)"

section \<open>Linearity of the bit step\<close>

lemma and_one_eq_0: "(x AND 1 = 0) = (\<not> bit x 0)" for x :: u32
  by (simp add: and_one_eq bit_0 odd_iff_mod_2_eq_one)

lemma crc_bit_xor: "crc_bit (x XOR y) = crc_bit x XOR crc_bit y"
proof -
  have alt: "crc_bit z = drop_bit 1 z XOR (if bit z 0 then POLYNOMIAL else 0)" for z
    by (simp add: crc_bit_def and_one_eq_0)
  show ?thesis
    unfolding alt by (auto simp: bit_xor_iff ac_simps)
qed

lemma crc_bits_xor: "crc_bits n (x XOR y) = crc_bits n x XOR crc_bits n y"
  by (induction n arbitrary: x y) (simp_all add: crc_bit_xor)

lemma crc_bits_0 [simp]: "crc_bits n 0 = 0"
  by (induction n) (simp_all add: crc_bit_def)

lemma crc_bits_add: "crc_bits (m + n) x = crc_bits n (crc_bits m x)"
  by (induction m arbitrary: x) simp_all

lemma crc_bits_low_zero: "(\<And>k. k < n \<Longrightarrow> \<not> bit x k) \<Longrightarrow> crc_bits n x = drop_bit n x"
proof (induction n arbitrary: x)
  case 0
  show ?case by simp
next
  case (Suc n)
  have "crc_bit x = drop_bit 1 x"
    using Suc.prems [of 0] by (simp add: crc_bit_def and_one_eq_0)
  moreover have "crc_bits n (drop_bit 1 x) = drop_bit n (drop_bit 1 x)"
    using Suc.prems by (intro Suc.IH) (simp add: bit_drop_bit_eq)
  ultimately show ?case by simp
qed

lemma crc_bits_split:
  "crc_bits (8 + n) x = crc_bits (8 + n) (x AND 0xFF) XOR crc_bits n (drop_bit 8 x)"
proof -
  have "x = (x AND 0xFF) XOR push_bit 8 (drop_bit 8 x)"
    by (rule bit_word_eqI) (auto simp: bit_simps mask_eq_decr_exp [of 8, simplified, symmetric])
  moreover have "crc_bits 8 (push_bit 8 (drop_bit 8 x)) = drop_bit 8 x"
    by (subst crc_bits_low_zero)
      (auto simp: bit_simps intro!: bit_word_eqI, use bit_imp_le_length in force)
  ultimately show ?thesis
    by (metis crc_bits_add crc_bits_xor)
qed

section \<open>The tables\<close>

definition row :: "nat \<Rightarrow> u32 list" where
  "row k = map (\<lambda>i. crc_bits (8 * Suc k) (of_nat i)) [0..<256]"

lemma row_nth: "unat w < 256 \<Longrightarrow> row k ! unat w = crc_bits (8 * Suc k) w"
  by (simp add: row_def)

lemma unat_and_255: "unat (w AND 0xFF :: u32) < 256"
proof -
  have "w AND 0xFF \<le> 0xFF" by (rule word_and_le1)
  then show ?thesis by (simp add: word_le_nat_alt)
qed

lemma next_row_row: "next_row (row 0) (row k) = row (Suc k)"
proof (rule nth_equalityI)
  fix i assume "i < length (next_row (row 0) (row k))"
  then have i: "i < 256" by (simp add: next_row_def)
  let ?prev = "crc_bits (8 * Suc k) (of_nat i)"
  have "row k ! i = ?prev" using i by (simp add: row_def)
  then have "next_row (row 0) (row k) ! i = drop_bit 8 ?prev XOR crc_bits 8 (?prev AND 0xFF)"
    using i row_nth [OF unat_and_255, of 0 ?prev] by (simp add: next_row_def Let_def)
  also have "\<dots> = crc_bits 8 ?prev"
    using crc_bits_split [of 0 ?prev] by (simp add: ac_simps)
  also have "\<dots> = row (Suc k) ! i"
    using i crc_bits_add [of "8 * Suc k" 8 "of_nat i"] by (simp add: row_def ac_simps)
  finally show "next_row (row 0) (row k) ! i = row (Suc k) ! i" .
qed (simp add: next_row_def row_def)

lemma make_rows_row: "make_rows n (map row [0..<Suc m]) = map row [0..<Suc (m + n)]"
proof (induction n arbitrary: m)
  case 0
  show ?case by simp
next
  case (Suc n)
  have "map row [0..<Suc m] ! 0 = row 0" "last (map row [0..<Suc m]) = row m"
    by (simp_all add: nth_append)
  then have "make_rows (Suc n) (map row [0..<Suc m]) = make_rows n (map row [0..<Suc (Suc m)])"
    by (simp add: next_row_row)
  also have "\<dots> = map row [0..<Suc (m + Suc n)]" using Suc.IH [of "Suc m"] by simp
  finally show ?case .
qed

lemma TABLE_row_aux: "k < 16 \<Longrightarrow> map row [0..<Suc 15] ! k = row k"
  using nth_map [of k "[0..<Suc 15]" row] by (simp del: upt_Suc map_upt_Suc)

lemma TABLE_row: "k < 16 \<Longrightarrow> TABLE ! k = row k"
proof -
  assume "k < 16"
  moreover have "TABLE = map row [0..<Suc 15]"
    using make_rows_row [of 15 0] by (simp add: TABLE_def make_table_def table0_def row_def SLICE_def)
  ultimately show ?thesis by (metis TABLE_row_aux)
qed

lemma TABLE_nth: "k < 16 \<Longrightarrow> unat w < 256 \<Longrightarrow> TABLE ! k ! unat w = crc_bits (8 * Suc k) w"
  by (simp only: TABLE_row row_nth)

section \<open>Byte loop and slice loop compute the bitwise checksum\<close>

lemma fold_bitwise_le:
  "length bs \<le> 4 \<Longrightarrow> fold bitwise_byte bs c = crc_bits (8 * length bs) (from_le_bytes bs XOR c)"
proof (induction bs arbitrary: c)
  case Nil
  show ?case by simp
next
  case (Cons b bs)
  let ?F = "from_le_bytes bs :: u32"
  have bound: "bit ?F k \<Longrightarrow> k < 24" for k
    using Cons.prems by (fastforce dest: bit_from_le_bytes)
  have shift: "crc_bits 8 (push_bit 8 ?F) = ?F"
    by (subst crc_bits_low_zero) (auto simp: bit_simps intro!: bit_word_eqI dest: bound)
  have "ucast b OR push_bit 8 ?F = ucast b XOR push_bit 8 ?F"
    by (rule bit_word_eqI) (auto simp: bit_simps dest: bit_imp_le_length)
  then have "crc_bits (8 * length (b # bs)) (from_le_bytes (b # bs) XOR c) =
      crc_bits (8 * length bs) (crc_bits 8 ((c XOR ucast b) XOR push_bit 8 ?F))"
    by (simp add: crc_bits_add ac_simps)
  also have "\<dots> = crc_bits (8 * length bs) (?F XOR bitwise_byte b c)"
    by (simp only: crc_bits_xor [of 8] shift bitwise_byte_def ac_simps)
  finally show ?case using Cons by simp
qed

lemma unat_drop_24: "unat (drop_bit 24 (w :: u32)) < 256"
proof -
  have "unat w div 2 ^ 24 < 256"
    by (rule less_mult_imp_div_less) simp
  then show ?thesis unfolding unat_drop_bit_eq by (simp only: drop_bit_eq_div)
qed

lemma crc_bits_word:
  assumes "n = 8 * (k + 4)" and "k < 13"
  shows "crc_bits n w = TABLE ! (k + 3) ! unat (w AND 0xFF)
      XOR TABLE ! (k + 2) ! unat (drop_bit 8 w AND 0xFF)
      XOR TABLE ! (k + 1) ! unat (drop_bit 16 w AND 0xFF)
      XOR TABLE ! k ! unat (drop_bit 24 w)"
proof -
  have split: "crc_bits (8 * Suc m) x = TABLE ! m ! unat (x AND 0xFF) XOR crc_bits (8 * m) (drop_bit 8 x)"
    if "m < 16" for m x
    using that crc_bits_split [of "8 * m" x] TABLE_nth [OF that unat_and_255, of x] by simp
  have "n = 8 * Suc (k + 3)" using assms(1) by simp
  then show ?thesis
    using assms(2) split [of "k + 3" w] split [of "k + 2" "drop_bit 8 w"]
      split [of "k + 1" "drop_bit 16 w"] TABLE_nth [OF _ unat_drop_24, of k w]
    by (simp add: ac_simps)
qed

lemma crc_bits_words:
  fixes w :: u32
  shows "crc_bits 128 w = TABLE ! 15 ! unat (w AND 0xFF) XOR TABLE ! 14 ! unat (drop_bit 8 w AND 0xFF)
      XOR TABLE ! 13 ! unat (drop_bit 16 w AND 0xFF) XOR TABLE ! 12 ! unat (drop_bit 24 w)"
    and "crc_bits 96 w = TABLE ! 11 ! unat (w AND 0xFF) XOR TABLE ! 10 ! unat (drop_bit 8 w AND 0xFF)
      XOR TABLE ! 9 ! unat (drop_bit 16 w AND 0xFF) XOR TABLE ! 8 ! unat (drop_bit 24 w)"
    and "crc_bits 64 w = TABLE ! 7 ! unat (w AND 0xFF) XOR TABLE ! 6 ! unat (drop_bit 8 w AND 0xFF)
      XOR TABLE ! 5 ! unat (drop_bit 16 w AND 0xFF) XOR TABLE ! 4 ! unat (drop_bit 24 w)"
    and "crc_bits 32 w = TABLE ! 3 ! unat (w AND 0xFF) XOR TABLE ! 2 ! unat (drop_bit 8 w AND 0xFF)
      XOR TABLE ! 1 ! unat (drop_bit 16 w AND 0xFF) XOR TABLE ! 0 ! unat (drop_bit 24 w)"
  using crc_bits_word [of 128 12 w] crc_bits_word [of 96 8 w]
    crc_bits_word [of 64 4 w] crc_bits_word [of 32 0 w]
  by (simp_all add: numeral_2_eq_2)

lemma slice_step_fold:
  assumes "i + 16 \<le> length data"
  shows "slice_step data i crc = fold bitwise_byte (take 16 (drop i data)) crc"
proof -
  define d where "d j = take 4 (drop (i + j) data)" for j
  define w :: "nat \<Rightarrow> u32" where "w j = from_le_bytes (d j)" for j
  have len: "length (d 0) = 4" "length (d 4) = 4" "length (d 8) = 4" "length (d 12) = 4"
    using assms by (simp_all add: d_def)
  have "take (a + b) xs = take a xs @ take b (drop a xs)" for a b and xs :: bytes
    by (rule take_add)
  from this [of 4 12] this [of 4 8] this [of 4 4]
  have parts: "take 16 (drop i data) = d 0 @ d 4 @ d 8 @ d 12"
    by (simp add: d_def add.commute)
  have "fold bitwise_byte (take 16 (drop i data)) crc =
      crc_bits 128 (w 0 XOR crc) XOR crc_bits 96 (w 4) XOR crc_bits 64 (w 8) XOR crc_bits 32 (w 12)"
    using crc_bits_add [of 32 32] crc_bits_add [of 64 32] crc_bits_add [of 96 32]
    by (simp add: parts fold_bitwise_le len w_def crc_bits_xor ac_simps)
  also have "\<dots> = slice_step data i crc"
    unfolding slice_step_def Let_def w_def d_def
    by (simp only: crc_bits_words xor.assoc add_0_right)
  finally show ?thesis ..
qed

lemma table_step_bitwise:
  "drop_bit 8 crc XOR TABLE ! 0 ! unat ((crc XOR ucast b) AND 0xFF) = bitwise_byte b crc"
proof -
  have "drop_bit 8 (ucast b :: u32) = 0"
    by (rule bit_word_eqI) (auto simp: bit_simps dest: bit_imp_le_length)
  then show ?thesis
    using crc_bits_split [of 0 "crc XOR ucast b"] TABLE_nth [OF _ unat_and_255, of 0 "crc XOR ucast b"]
    by (simp add: bitwise_byte_def ac_simps)
qed

lemma byte_loop_fold: "byte_loop data i crc = fold bitwise_byte (drop i data) crc"
proof (induction data i crc rule: byte_loop.induct)
  case (1 data i crc)
  then show ?case
    by (subst byte_loop.simps) (simp add: table_step_bitwise Cons_nth_drop_Suc [symmetric])
qed

lemma slice_loop_fold:
  "slice_loop data i crc = (j, c) \<Longrightarrow>
     fold bitwise_byte (drop i data) crc = fold bitwise_byte (drop j data) c"
proof (induction data i crc rule: slice_loop.induct)
  case (1 data i crc)
  show ?case
  proof (cases "i + SLICE \<le> length data")
    case True
    have "fold bitwise_byte (drop i data) crc =
        fold bitwise_byte (drop 16 (drop i data)) (slice_step data i crc)"
      using True by (simp only: slice_step_fold SLICE_def fold_append [symmetric, THEN fun_cong, unfolded o_apply]
          append_take_drop_id)
    then show ?thesis
      using 1 True by (simp add: slice_loop.simps [of data i crc] SLICE_def add.commute)
  next
    case False
    then show ?thesis using "1.prems" by (simp add: slice_loop.simps [of data i crc])
  qed
qed

lemma crc_update_fold: "crc_state (crc_update acc data) = fold bitwise_byte data (crc_state acc)"
proof -
  obtain j c where jc: "slice_loop data 0 (crc_state acc) = (j, c)" by fastforce
  then show ?thesis
    using slice_loop_fold [OF jc] by (simp add: crc_update_def byte_loop_fold)
qed

lemma crc32c_fold: "crc32c data = NOT (fold bitwise_byte data 0xFFFFFFFF)"
  by (simp add: crc32c_def crc_value_def crc_update_fold crc_new_def)

lemma crc32c_chunks:
  "crc_state (fold (\<lambda>chunk acc. crc_update acc chunk) chunks acc) = fold bitwise_byte (concat chunks) (crc_state acc)"
  by (induction chunks arbitrary: acc) (simp_all add: crc_update_fold)

text \<open>The check value of the CRC catalogue, which the crate's tests use: the ASCII digits 1 to 9.\<close>

lemma crc_bits_8: "crc_bits 8 x = crc_bit (crc_bit (crc_bit (crc_bit (crc_bit (crc_bit (crc_bit (crc_bit x)))))))"
  by (simp add: eval_nat_numeral)

lemma crc32c_check_value: "crc32c [0x31, 0x32, 0x33, 0x34, 0x35, 0x36, 0x37, 0x38, 0x39] = 0xE3069283"
  unfolding crc32c_fold
  by (simp add: bitwise_byte_def crc_bits_8 crc_bit_def POLYNOMIAL_def)

section \<open>Properties\<close>

text \<open>
  C20. The table-driven slice-by-16 checksum is the bit-at-a-time CRC-32C: for every input,
  \<^verbatim>\<open>crc32c\<close> returns what the reference loop of the crate's tests returns.
\<close>

theorem crc32c_eq_byte_at_a_time: "crc32c data = crc32c_byte_at_a_time data"
  by (simp add: crc32c_fold crc32c_byte_at_a_time_def)

text \<open>
  C21. Streaming: feeding any list of chunks to one accumulator gives the checksum of their
  concatenation, wherever the chunk borders fall against the 16-byte blocks of the fast path.
\<close>

theorem crc_streaming:
  "crc_value (fold (\<lambda>chunk acc. crc_update acc chunk) chunks crc_new) = crc32c (concat chunks)"
  by (simp add: crc32c_fold crc_value_def crc32c_chunks crc_new_def)

end
