(* ===== verification/Noraft.thy ===== *)
theory Noraft
  imports Prelude
begin

text \<open>
  The interface of the \<^verbatim>\<open>noraft\<close> crate as \<^verbatim>\<open>sukari\<close> uses it. The crate is a dependency: its
  transparent data types are written out from the fields and variants that \<^verbatim>\<open>src/codec.rs\<close>
  builds and matches, and the operations of its opaque types \<^verbatim>\<open>LogEntries\<close> and \<^verbatim>\<open>Log\<close> are the
  fields of a record that every definition of the model takes as an argument. What the model's
  theorems rely on is the predicate \<open>noraft_laws\<close>, whose conjuncts are the documented behaviour
  of those operations; \<open>list_noraft\<close> is an implementation that satisfies it.
\<close>

section \<open>Transparent data\<close>

type_synonym NodeId = u64
type_synonym Term = u64
type_synonym LogIndex = u64

record LogPosition =
  pos_term :: Term
  pos_index :: LogIndex

record ClusterConfig =
  voters :: "NodeId btset"
  new_voters :: "NodeId btset"
  non_voters :: "NodeId btset"

datatype LogEntry =
    TermEntry Term
  | ClusterConfigEntry ClusterConfig
  | CommandEntry

definition LogPosition_ZERO :: LogPosition where
  "LogPosition_ZERO = \<lparr>pos_term = 0, pos_index = 0\<rparr>"

definition ClusterConfig_new :: ClusterConfig where
  "ClusterConfig_new = \<lparr>voters = [], new_voters = [], non_voters = []\<rparr>"

section \<open>Operations of the opaque types\<close>

text \<open>
  \<open>'le\<close> is \<^verbatim>\<open>LogEntries\<close> and \<open>'lg\<close> is \<^verbatim>\<open>Log\<close>. A method that takes \<^verbatim>\<open>&mut self\<close> returns the
  new value; \<^verbatim>\<open>append_suffix\<close> returns its boolean and the new log.
\<close>

record ('le, 'lg) noraft =
  entries_new :: "LogPosition \<Rightarrow> 'le"
  entries_push :: "'le \<Rightarrow> LogEntry \<Rightarrow> 'le"
  entries_prev_position :: "'le \<Rightarrow> LogPosition"
  entries_last_position :: "'le \<Rightarrow> LogPosition"
  entries_len :: "'le \<Rightarrow> nat"
  entries_iter :: "'le \<Rightarrow> LogEntry list"
  entries_iter_with_positions :: "'le \<Rightarrow> (LogPosition \<times> LogEntry) list"
  entries_get_entry :: "'le \<Rightarrow> LogIndex \<Rightarrow> LogEntry option"
  entries_since :: "'le \<Rightarrow> LogPosition \<Rightarrow> 'le option"
  log_new :: "ClusterConfig \<Rightarrow> 'le \<Rightarrow> 'lg"
  log_entries :: "'lg \<Rightarrow> 'le"
  log_append_suffix :: "'lg \<Rightarrow> 'le \<Rightarrow> bool \<times> 'lg"

section \<open>Documented behaviour\<close>

text \<open>
  A log entry sits at the index after its predecessor; a term entry starts its own term and every
  other entry continues the term before it.
\<close>

fun next_position :: "LogPosition \<Rightarrow> LogEntry \<Rightarrow> LogPosition" where
  "next_position p (TermEntry t) = \<lparr>pos_term = t, pos_index = pos_index p + 1\<rparr>"
| "next_position p x = \<lparr>pos_term = pos_term p, pos_index = pos_index p + 1\<rparr>"

fun with_positions :: "LogPosition \<Rightarrow> LogEntry list \<Rightarrow> (LogPosition \<times> LogEntry) list" where
  "with_positions p [] = []"
| "with_positions p (x # xs) = (next_position p x, x) # with_positions (next_position p x) xs"

text \<open>The positions a sequence of entries contains: its anchor and the position of each entry.\<close>

definition contained :: "LogPosition \<Rightarrow> LogEntry list \<Rightarrow> LogPosition \<Rightarrow> bool" where
  "contained prev xs p \<longleftrightarrow> p = prev \<or> p \<in> fst ` set (with_positions prev xs)"

definition offset_in :: "LogPosition \<Rightarrow> LogPosition \<Rightarrow> nat" where
  "offset_in prev p = unat (pos_index p) - unat (pos_index prev)"

text \<open>The entries that pushing \<open>xs\<close> onto an empty sequence anchored at \<open>p\<close> builds.\<close>

definition entries_of :: "('le, 'lg) noraft \<Rightarrow> LogPosition \<Rightarrow> LogEntry list \<Rightarrow> 'le" where
  "entries_of N p xs = foldl (entries_push N) (entries_new N p) xs"

text \<open>Sequences of entries: the index space is 64 bits wide and a sequence lies inside it.\<close>

definition entries_laws :: "('le, 'lg) noraft \<Rightarrow> bool" where
  "entries_laws N \<longleftrightarrow>
     (\<forall>p. entries_prev_position N (entries_new N p) = p \<and> entries_iter N (entries_new N p) = []) \<and>
     (\<forall>e x. unat (pos_index (entries_prev_position N e)) + length (entries_iter N e) + 1 < 2 ^ 64 \<longrightarrow>
        entries_prev_position N (entries_push N e x) = entries_prev_position N e \<and>
        entries_iter N (entries_push N e x) = entries_iter N e @ [x]) \<and>
     (\<forall>e. unat (pos_index (entries_prev_position N e)) + length (entries_iter N e) < 2 ^ 64) \<and>
     (\<forall>e e'. entries_prev_position N e = entries_prev_position N e' \<longrightarrow>
        entries_iter N e = entries_iter N e' \<longrightarrow> e = e')"

text \<open>What the observers return, in terms of the anchor and the entries.\<close>

definition observer_laws :: "('le, 'lg) noraft \<Rightarrow> bool" where
  "observer_laws N \<longleftrightarrow>
     (\<forall>e. entries_len N e = length (entries_iter N e)) \<and>
     (\<forall>e. entries_iter_with_positions N e =
        with_positions (entries_prev_position N e) (entries_iter N e)) \<and>
     (\<forall>e. pos_index (entries_last_position N e) =
        pos_index (entries_prev_position N e) + of_nat (length (entries_iter N e))) \<and>
     (\<forall>e i. entries_get_entry N e i =
        map_of (map (\<lambda>(p, x). (pos_index p, x)) (entries_iter_with_positions N e)) i)"

text \<open>
  \<^verbatim>\<open>since\<close> cuts a sequence at a position it contains; \<^verbatim>\<open>append_suffix\<close> replaces what follows the
  anchor of the suffix, if the log contains the anchor.
\<close>

definition log_laws :: "('le, 'lg) noraft \<Rightarrow> bool" where
  "log_laws N \<longleftrightarrow>
     (\<forall>e p. entries_since N e p =
        (if contained (entries_prev_position N e) (entries_iter N e) p
         then Some (entries_of N p (drop (offset_in (entries_prev_position N e) p) (entries_iter N e)))
         else None)) \<and>
     (\<forall>c e. log_entries N (log_new N c e) = e) \<and>
     (\<forall>c e s. contained (entries_prev_position N e) (entries_iter N e) (entries_prev_position N s) \<longrightarrow>
        log_append_suffix N (log_new N c e) s =
          (True, log_new N c (entries_of N (entries_prev_position N e)
             (take (offset_in (entries_prev_position N e) (entries_prev_position N s)) (entries_iter N e)
                @ entries_iter N s)))) \<and>
     (\<forall>c e s. \<not> contained (entries_prev_position N e) (entries_iter N e) (entries_prev_position N s) \<longrightarrow>
        log_append_suffix N (log_new N c e) s = (False, log_new N c e))"

definition noraft_laws :: "('le, 'lg) noraft \<Rightarrow> bool" where
  "noraft_laws N \<longleftrightarrow> entries_laws N \<and> observer_laws N \<and> log_laws N"

section \<open>Consequences of the laws\<close>

lemma LogPosition_ZERO_sel [simp]: "pos_term LogPosition_ZERO = 0" "pos_index LogPosition_ZERO = 0"
  by (simp_all add: LogPosition_ZERO_def)

lemma pos_index_next_position [simp]: "pos_index (next_position p x) = pos_index p + 1"
  by (cases x) simp_all

lemma length_with_positions [simp]: "length (with_positions p xs) = length xs"
  by (induction xs arbitrary: p) simp_all

lemma with_positions_append:
  "with_positions p (xs @ ys) =
     with_positions p xs @ with_positions (if xs = [] then p else fst (last (with_positions p xs))) ys"
proof (induction xs arbitrary: p)
  case Nil
  show ?case by simp
next
  case (Cons x xs)
  have "with_positions q xs = [] \<longleftrightarrow> xs = []" for q
    by (cases xs) simp_all
  then show ?case using Cons by simp
qed

lemma with_positions_nth:
  "i < length xs \<Longrightarrow> pos_index (fst (with_positions p xs ! i)) = pos_index p + of_nat (Suc i) \<and>
     snd (with_positions p xs ! i) = xs ! i"
proof (induction xs arbitrary: p i)
  case Nil
  then show ?case by simp
next
  case (Cons x xs)
  then show ?case by (cases i) (simp_all add: algebra_simps)
qed

lemma with_positions_unat:
  assumes "i < length xs" and "unat (pos_index p) + length xs < 2 ^ 64"
  shows "unat (pos_index (fst (with_positions p xs ! i))) = unat (pos_index p) + Suc i"
  using assms with_positions_nth [of i xs p]
  by (simp add: unat_word_ariths unat_of_nat take_bit_nat_eq_self)

text \<open>The entries of a sequence that fits have pairwise distinct indexes.\<close>

lemma with_positions_index_inj:
  assumes "unat (pos_index p) + length xs < 2 ^ 64"
  shows "distinct (map (\<lambda>(q, x). pos_index q) (with_positions p xs))"
  using with_positions_unat [OF _ assms]
  by (auto simp: distinct_conv_nth case_prod_beta) (metis Suc_inject add_left_cancel)

text \<open>The entry at an index, by arithmetic on the anchor.\<close>

definition entry_at :: "LogPosition \<Rightarrow> LogEntry list \<Rightarrow> LogIndex \<Rightarrow> LogEntry option" where
  "entry_at p xs i =
     (if unat (pos_index p) < unat i \<and> unat i \<le> unat (pos_index p) + length xs
      then Some (xs ! (unat i - Suc (unat (pos_index p)))) else None)"

lemma entry_at_Cons:
  assumes "unat (pos_index p) + length (x # xs) < 2 ^ 64"
  shows "entry_at p (x # xs) i =
    (if i = pos_index (next_position p x) then Some x else entry_at (next_position p x) xs i)"
proof -
  have "unat (pos_index p + 1) = Suc (unat (pos_index p))"
    using assms by (simp add: unat_word_ariths)
  moreover have "i = pos_index p + 1 \<longleftrightarrow> unat i = unat (pos_index p + 1)"
    by (rule word_unat_eq_iff)
  ultimately show ?thesis
    by (auto simp: entry_at_def nth_Cons' Suc_diff_Suc)
qed

lemma map_of_with_positions:
  "unat (pos_index p) + length xs < 2 ^ 64 \<Longrightarrow>
     map_of (map (\<lambda>(p, x). (pos_index p, x)) (with_positions p xs)) i = entry_at p xs i"
proof (induction xs arbitrary: p)
  case Nil
  then show ?case by (simp add: entry_at_def)
next
  case (Cons x xs)
  then have "unat (pos_index (next_position p x)) + length xs < 2 ^ 64"
    by (simp add: unat_word_ariths)
  from Cons.IH [OF this] show ?case
    using entry_at_Cons [OF Cons.prems] by simp
qed

lemma entry_at_splice:
  assumes "unat (pos_index q) = unat (pos_index p) + k" and "k \<le> length xs"
  shows "entry_at p (take k xs @ ys) i = (if i \<le> pos_index q then entry_at p xs i else entry_at q ys i)"
  using assms by (auto simp: entry_at_def word_le_nat_alt nth_append min_def intro!: arg_cong [of _ _ "nth ys"])

lemma entry_at_drop:
  assumes "unat (pos_index q) = unat (pos_index p) + k" and "k \<le> length xs"
  shows "entry_at q (drop k xs) i = (if pos_index q < i then entry_at p xs i else None)"
  using assms by (auto simp: entry_at_def word_less_nat_alt intro!: arg_cong [of _ _ "nth xs"])

lemma entries_of_snoc: "entries_of N p (xs @ [x]) = entries_push N (entries_of N p xs) x"
  by (simp add: entries_of_def)

lemma entries_of_prev_iter:
  assumes "entries_laws N" and "unat (pos_index p) + length xs < 2 ^ 64"
  shows "entries_prev_position N (entries_of N p xs) = p \<and> entries_iter N (entries_of N p xs) = xs"
  using assms(2)
proof (induction xs rule: rev_induct)
  case Nil
  then show ?case using assms(1) by (simp add: entries_of_def entries_laws_def)
next
  case (snoc x xs)
  then show ?case using assms(1) by (simp add: entries_of_snoc entries_laws_def)
qed

lemma entries_of_iter:
  assumes "entries_laws N"
  shows "entries_of N (entries_prev_position N e) (entries_iter N e) = e"
proof -
  have "unat (pos_index (entries_prev_position N e)) + length (entries_iter N e) < 2 ^ 64"
    using assms by (simp add: entries_laws_def)
  from entries_of_prev_iter [OF assms this] show ?thesis
    using assms by (simp add: entries_laws_def)
qed

lemmas noraft_lawsD = noraft_laws_def [THEN iffD1, THEN conjunct1]
  noraft_laws_def [THEN iffD1, THEN conjunct2, THEN conjunct1]
  noraft_laws_def [THEN iffD1, THEN conjunct2, THEN conjunct2]

lemma entries_fit: "entries_laws N \<Longrightarrow>
    unat (pos_index (entries_prev_position N e)) + length (entries_iter N e) < 2 ^ 64"
  by (simp add: entries_laws_def)

lemma get_entry_entry_at:
  assumes "noraft_laws N"
  shows "entries_get_entry N e i = entry_at (entries_prev_position N e) (entries_iter N e) i"
  using noraft_lawsD(2) [OF assms] map_of_with_positions [OF entries_fit [OF noraft_lawsD(1) [OF assms]]]
  by (simp add: observer_laws_def)

section \<open>An implementation\<close>

text \<open>
  Sequences of entries as an anchor and a list that fits into the index space after it. It shows
  that the laws can hold; no theorem about the code depends on it.
\<close>

typedef wf_entries =
  "{e :: LogPosition \<times> LogEntry list. unat (pos_index (fst e)) + length (snd e) < 2 ^ 64}"
  morphisms rep_entries abs_entries
  by (rule exI [of _ "(LogPosition_ZERO, [])"]) (simp add: LogPosition_ZERO_def)

definition mk_entries :: "LogPosition \<Rightarrow> LogEntry list \<Rightarrow> wf_entries" where
  "mk_entries p xs = abs_entries (p, if unat (pos_index p) + length xs < 2 ^ 64 then xs else [])"

definition list_noraft :: "(wf_entries, ClusterConfig \<times> wf_entries) noraft" where
  "list_noraft = \<lparr>
     entries_new = (\<lambda>p. mk_entries p []),
     entries_push = (\<lambda>e x. mk_entries (fst (rep_entries e)) (snd (rep_entries e) @ [x])),
     entries_prev_position = (\<lambda>e. fst (rep_entries e)),
     entries_last_position = (\<lambda>e. foldl next_position (fst (rep_entries e)) (snd (rep_entries e))),
     entries_len = (\<lambda>e. length (snd (rep_entries e))),
     entries_iter = (\<lambda>e. snd (rep_entries e)),
     entries_iter_with_positions = (\<lambda>e. with_positions (fst (rep_entries e)) (snd (rep_entries e))),
     entries_get_entry = (\<lambda>e i. map_of (map (\<lambda>(p, x). (pos_index p, x))
        (with_positions (fst (rep_entries e)) (snd (rep_entries e)))) i),
     entries_since = (\<lambda>e p. if contained (fst (rep_entries e)) (snd (rep_entries e)) p
        then Some (mk_entries p (drop (offset_in (fst (rep_entries e)) p) (snd (rep_entries e)))) else None),
     log_new = (\<lambda>c e. (c, e)),
     log_entries = snd,
     log_append_suffix = (\<lambda>lg s.
        let prev = fst (rep_entries (snd lg)); xs = snd (rep_entries (snd lg)) in
        if contained prev xs (fst (rep_entries s))
        then (True, (fst lg, mk_entries prev
               (take (offset_in prev (fst (rep_entries s))) xs @ snd (rep_entries s))))
        else (False, lg)) \<rparr>"

lemma list_noraft_sel [simp]:
  "entries_new list_noraft p = mk_entries p []"
  "entries_push list_noraft e x = mk_entries (fst (rep_entries e)) (snd (rep_entries e) @ [x])"
  "entries_prev_position list_noraft e = fst (rep_entries e)"
  "entries_last_position list_noraft e = foldl next_position (fst (rep_entries e)) (snd (rep_entries e))"
  "entries_len list_noraft e = length (snd (rep_entries e))"
  "entries_iter list_noraft e = snd (rep_entries e)"
  "entries_iter_with_positions list_noraft e = with_positions (fst (rep_entries e)) (snd (rep_entries e))"
  "entries_get_entry list_noraft e i = map_of (map (\<lambda>(p, x). (pos_index p, x))
     (with_positions (fst (rep_entries e)) (snd (rep_entries e)))) i"
  "entries_since list_noraft e p = (if contained (fst (rep_entries e)) (snd (rep_entries e)) p
     then Some (mk_entries p (drop (offset_in (fst (rep_entries e)) p) (snd (rep_entries e)))) else None)"
  "log_new list_noraft c e = (c, e)"
  "log_entries list_noraft lg = snd lg"
  "log_append_suffix list_noraft (c, e) s =
     (if contained (fst (rep_entries e)) (snd (rep_entries e)) (fst (rep_entries s))
      then (True, (c, mk_entries (fst (rep_entries e))
             (take (offset_in (fst (rep_entries e)) (fst (rep_entries s))) (snd (rep_entries e))
                @ snd (rep_entries s))))
      else (False, (c, e)))"
  by (simp_all add: list_noraft_def Let_def)

lemma rep_mk_entries: "unat (pos_index p) + length xs < 2 ^ 64 \<Longrightarrow> rep_entries (mk_entries p xs) = (p, xs)"
  by (simp add: mk_entries_def abs_entries_inverse)

lemma fst_rep_mk_entries [simp]: "fst (rep_entries (mk_entries p xs)) = p"
  by (simp add: mk_entries_def abs_entries_inverse)

lemma rep_mk_entries_Nil [simp]: "rep_entries (mk_entries p []) = (p, [])"
  by (simp add: rep_mk_entries)

lemma rep_entries_fit: "unat (pos_index (fst (rep_entries e))) + length (snd (rep_entries e)) < 2 ^ 64"
  using rep_entries [of e] by simp

lemma list_entries_laws: "entries_laws list_noraft"
  unfolding entries_laws_def
proof (intro conjI allI impI)
  fix e e' :: wf_entries
  assume "entries_prev_position list_noraft e = entries_prev_position list_noraft e'"
    and "entries_iter list_noraft e = entries_iter list_noraft e'"
  then show "e = e'" by (simp add: rep_entries_inject [symmetric] prod_eq_iff)
qed (simp_all add: rep_mk_entries rep_entries_fit [simplified])

lemma list_entries_of:
  "unat (pos_index p) + length xs < 2 ^ 64 \<Longrightarrow> entries_of list_noraft p xs = mk_entries p xs"
proof -
  assume fit: "unat (pos_index p) + length xs < 2 ^ 64"
  from entries_of_prev_iter [OF list_entries_laws this]
  have "rep_entries (entries_of list_noraft p xs) = (p, xs)"
    by (simp add: prod_eq_iff)
  then show ?thesis using fit by (simp add: rep_entries_inject [symmetric] rep_mk_entries)
qed

lemma foldl_next_position: "pos_index (foldl next_position p xs) = pos_index p + of_nat (length xs)"
  by (induction xs arbitrary: p) (simp_all add: algebra_simps)

lemma list_observer_laws: "observer_laws list_noraft"
  by (simp add: observer_laws_def foldl_next_position)

lemma contained_index:
  assumes "contained prev xs p" and "unat (pos_index prev) + length xs < 2 ^ 64"
  obtains k where "k \<le> length xs" and "unat (pos_index p) = unat (pos_index prev) + k"
proof (cases "p = prev")
  case True
  then show ?thesis using that [of 0] by simp
next
  case False
  then obtain i where i: "i < length xs" "p = fst (with_positions prev xs ! i)"
    using assms(1) by (auto simp: contained_def in_set_conv_nth)
  have "unat (pos_index p) = unat (pos_index prev) + Suc i"
    using i with_positions_unat [of i xs prev] assms(2) by simp
  then show ?thesis using i that [of "Suc i"] by simp
qed

lemma list_log_laws: "log_laws list_noraft"
  unfolding log_laws_def
proof (intro conjI allI impI)
  fix e p
  let ?prev = "fst (rep_entries e)" and ?xs = "snd (rep_entries e)"
  have "unat (pos_index p) + length (drop (offset_in ?prev p) ?xs) < 2 ^ 64" if con: "contained ?prev ?xs p"
  proof -
    obtain k where "k \<le> length ?xs" "unat (pos_index p) = unat (pos_index ?prev) + k"
      using contained_index [OF con rep_entries_fit] .
    then show ?thesis using rep_entries_fit [of e] by (simp add: offset_in_def)
  qed
  then show "entries_since list_noraft e p =
      (if contained (entries_prev_position list_noraft e) (entries_iter list_noraft e) p
       then Some (entries_of list_noraft p
         (drop (offset_in (entries_prev_position list_noraft e) p) (entries_iter list_noraft e)))
       else None)"
    by (simp add: list_entries_of)
next
  fix c e s
  let ?prev = "fst (rep_entries e)" and ?xs = "snd (rep_entries e)" and ?p = "fst (rep_entries s)"
  assume "contained (entries_prev_position list_noraft e) (entries_iter list_noraft e)
      (entries_prev_position list_noraft s)"
  then have con: "contained ?prev ?xs ?p" by simp
  obtain k where "k \<le> length ?xs" "unat (pos_index ?p) = unat (pos_index ?prev) + k"
    using contained_index [OF con rep_entries_fit] .
  then have "unat (pos_index ?prev) + length (take (offset_in ?prev ?p) ?xs @ snd (rep_entries s)) < 2 ^ 64"
    using rep_entries_fit [of s] by (simp add: offset_in_def)
  then show "log_append_suffix list_noraft (log_new list_noraft c e) s =
      (True, log_new list_noraft c (entries_of list_noraft (entries_prev_position list_noraft e)
         (take (offset_in (entries_prev_position list_noraft e) (entries_prev_position list_noraft s))
            (entries_iter list_noraft e) @ entries_iter list_noraft s)))"
    using con by (simp add: list_entries_of)
qed simp_all

lemma list_noraft_laws: "noraft_laws list_noraft"
  by (simp add: noraft_laws_def list_entries_laws list_observer_laws list_log_laws)

end
