(* ===== verification/NodeState.thy ===== *)
theory NodeState
  imports Noraft
begin

text \<open>
  The records of \<^verbatim>\<open>src/storage.rs\<close> and the state of one Raft node that replay builds from them:
  command payloads, log appends, snapshots and checkpoints with their validation, and the
  application of each kind of record to a node state.
\<close>

section \<open>Model\<close>

record CommandPayload =
  cp_tag :: u8
  cp_bytes :: bytes

record 'le LogAppend =
  la_entries :: 'le
  la_command_payloads :: "(LogIndex, CommandPayload) btmap"

definition LogAppend_validate :: "('le, 'lg) noraft \<Rightarrow> 'le LogAppend \<Rightarrow> unit io_result" where
  "LogAppend_validate N a =
     (if list_ex (\<lambda>(position, entry). entry = CommandEntry \<and>
             bt_get (la_command_payloads a) (pos_index position) = None)
           (entries_iter_with_positions N (la_entries a))
      then Inl (invalid_input ''missing command payload'')
      else if list_ex (\<lambda>(index, _). entries_get_entry N (la_entries a) index \<noteq> Some CommandEntry)
           (la_command_payloads a)
      then Inl (invalid_input ''command payload index does not match a command entry'')
      else Inr ())"

definition LogAppend_new ::
  "('le, 'lg) noraft \<Rightarrow> 'le \<Rightarrow> (LogIndex, CommandPayload) btmap \<Rightarrow> 'le LogAppend io_result" where
  "LogAppend_new N entries payloads =
     (let this = \<lparr>la_entries = entries, la_command_payloads = payloads\<rparr>
      in rbind (LogAppend_validate N this) (\<lambda>_. Inr this))"

record Snapshot =
  sn_last_included :: LogPosition
  sn_config :: ClusterConfig
  sn_data :: bytes

record 'le SnapshotCheckpoint =
  sc_current_term :: Term
  sc_voted_for :: "NodeId option"
  sc_snapshot :: Snapshot
  sc_suffix :: "'le LogAppend"

definition SnapshotCheckpoint_validate ::
  "('le, 'lg) noraft \<Rightarrow> 'le SnapshotCheckpoint \<Rightarrow> unit io_result" where
  "SnapshotCheckpoint_validate N c =
     rbind (LogAppend_validate N (sc_suffix c)) (\<lambda>_.
       if entries_prev_position N (la_entries (sc_suffix c)) \<noteq> sn_last_included (sc_snapshot c)
       then Inl (invalid_input ''checkpoint suffix must start at the snapshot position'')
       else Inr ())"

record ('lg) NodeState =
  ns_current_term :: Term
  ns_voted_for :: "NodeId option"
  ns_log :: 'lg
  ns_command_payloads :: "(LogIndex, CommandPayload) btmap"
  ns_snapshot :: "Snapshot option"

definition NodeState_default :: "('le, 'lg) noraft \<Rightarrow> 'lg NodeState" where
  "NodeState_default N =
     \<lparr>ns_current_term = 0, ns_voted_for = None,
      ns_log = log_new N ClusterConfig_new (entries_new N LogPosition_ZERO),
      ns_command_payloads = [], ns_snapshot = None\<rparr>"

definition retained_log_entries_after_snapshot ::
  "('le, 'lg) noraft \<Rightarrow> 'le \<Rightarrow> LogPosition \<Rightarrow> 'le io_result" where
  "retained_log_entries_after_snapshot N entries snapshot_position =
     (if pos_index snapshot_position < pos_index (entries_prev_position N entries)
      then Inl (invalid_data ''snapshot is older than the current snapshot'')
      else case entries_since N entries snapshot_position of
          Some entries' \<Rightarrow> Inr entries'
        | None \<Rightarrow>
            if pos_index (entries_last_position N entries) < pos_index snapshot_position
            then Inr (entries_new N snapshot_position)
            else Inl (invalid_data ''snapshot position conflicts with local log''))"

definition apply_current_term :: "'lg NodeState \<Rightarrow> Term \<Rightarrow> 'lg NodeState" where
  "apply_current_term s t = s\<lparr>ns_current_term := t\<rparr>"

definition apply_voted_for :: "'lg NodeState \<Rightarrow> NodeId option \<Rightarrow> 'lg NodeState" where
  "apply_voted_for s v = s\<lparr>ns_voted_for := v\<rparr>"

definition apply_append_owned ::
  "('le, 'lg) noraft \<Rightarrow> 'lg NodeState \<Rightarrow> 'le LogAppend \<Rightarrow> 'lg NodeState io_result" where
  "apply_append_owned N s a =
     rbind (LogAppend_validate N a) (\<lambda>_.
       let prev_index = pos_index (entries_prev_position N (la_entries a));
           (appended, log') = log_append_suffix N (ns_log s) (la_entries a)
       in if \<not> appended then Inl (invalid_data ''append anchor does not exist in local log'')
          else Inr (s\<lparr>ns_log := log',
             ns_command_payloads :=
               bt_extend (bt_retain (\<lambda>index _. index \<le> prev_index) (ns_command_payloads s))
                 (la_command_payloads a)\<rparr>))"

definition apply_snapshot ::
  "('le, 'lg) noraft \<Rightarrow> 'lg NodeState \<Rightarrow> Snapshot \<Rightarrow> 'lg NodeState io_result" where
  "apply_snapshot N s sn =
     rbind (retained_log_entries_after_snapshot N (log_entries N (ns_log s)) (sn_last_included sn))
       (\<lambda>entries. Inr (s\<lparr>
          ns_command_payloads :=
            bt_retain (\<lambda>index _. pos_index (sn_last_included sn) < index) (ns_command_payloads s),
          ns_log := log_new N (sn_config sn) entries,
          ns_snapshot := Some sn\<rparr>))"

definition into_state ::
  "('le, 'lg) noraft \<Rightarrow> 'le SnapshotCheckpoint \<Rightarrow> 'lg NodeState io_result" where
  "into_state N c =
     rbind (SnapshotCheckpoint_validate N c) (\<lambda>_.
       let state = NodeState_default N;
           state = apply_current_term state (sc_current_term c);
           state = apply_voted_for state (sc_voted_for c)
       in rbind (apply_snapshot N state (sc_snapshot c)) (\<lambda>state.
            apply_append_owned N state (sc_suffix c)))"

text \<open>
  \<^verbatim>\<open>initial_checkpoint\<close>; its \<^verbatim>\<open>expect\<close> on \<^verbatim>\<open>LogAppend::new\<close> never fires, because an append with no
  entries and no payloads validates (\<open>initial_checkpoint_valid\<close> below).
\<close>

definition initial_checkpoint :: "('le, 'lg) noraft \<Rightarrow> 'le SnapshotCheckpoint" where
  "initial_checkpoint N =
     \<lparr>sc_current_term = 0, sc_voted_for = None,
      sc_snapshot = \<lparr>sn_last_included = LogPosition_ZERO, sn_config = ClusterConfig_new, sn_data = []\<rparr>,
      sc_suffix = \<lparr>la_entries = entries_new N LogPosition_ZERO, la_command_payloads = []\<rparr>\<rparr>"

datatype 'le Record =
    CurrentTerm Term
  | VotedFor "NodeId option"
  | Append "'le LogAppend"
  | Checkpoint "'le SnapshotCheckpoint"

record 'le NodeRecord =
  nr_node_id :: NodeId
  nr_record :: "'le Record"

fun is_checkpoint :: "'le Record \<Rightarrow> bool" where
  "is_checkpoint (Checkpoint _) = True"
| "is_checkpoint _ = False"

fun apply_record_to_state ::
  "('le, 'lg) noraft \<Rightarrow> 'lg NodeState \<Rightarrow> 'le Record \<Rightarrow> 'lg NodeState io_result" where
  "apply_record_to_state N s (CurrentTerm t) = Inr (apply_current_term s t)"
| "apply_record_to_state N s (VotedFor v) = Inr (apply_voted_for s v)"
| "apply_record_to_state N s (Append a) = apply_append_owned N s a"
| "apply_record_to_state N s (Checkpoint c) = into_state N c"

text \<open>\<^verbatim>\<open>ReplayState\<close>: the node states under construction, keyed by node.\<close>

type_synonym 'lg ReplayState = "(NodeId, 'lg NodeState) btmap"

definition ReplayState_apply ::
  "('le, 'lg) noraft \<Rightarrow> 'lg ReplayState \<Rightarrow> 'le NodeRecord \<Rightarrow> 'lg ReplayState io_result" where
  "ReplayState_apply N replay nr =
     (let state = (case bt_get replay (nr_node_id nr) of Some s \<Rightarrow> s | None \<Rightarrow> NodeState_default N)
      in rbind (apply_record_to_state N state (nr_record nr)) (\<lambda>s.
           Inr (bt_insert (nr_node_id nr) s replay)))"

section \<open>Validation\<close>

lemma LogAppend_validate_ok:
  "LogAppend_validate N a = Inr () \<longleftrightarrow>
     (\<forall>(p, x) \<in> set (entries_iter_with_positions N (la_entries a)).
        x = CommandEntry \<longrightarrow> bt_get (la_command_payloads a) (pos_index p) \<noteq> None) \<and>
     (\<forall>i \<in> fst ` set (la_command_payloads a). entries_get_entry N (la_entries a) i = Some CommandEntry)"
  by (force simp: LogAppend_validate_def list_ex_iff)

lemma SnapshotCheckpoint_validate_ok:
  "SnapshotCheckpoint_validate N c = Inr () \<longleftrightarrow>
     LogAppend_validate N (sc_suffix c) = Inr () \<and>
     entries_prev_position N (la_entries (sc_suffix c)) = sn_last_included (sc_snapshot c)"
  by (auto simp: SnapshotCheckpoint_validate_def result_simps)

text \<open>A validated append has a payload for exactly the indexes of its command entries.\<close>

lemma all_imp_both: "(\<forall>i. P i \<longrightarrow> Q i) \<and> (\<forall>i. Q i \<longrightarrow> P i) \<longleftrightarrow> (\<forall>i. Q i = P i)"
  by blast

lemma LogAppend_valid_payloads:
  assumes "noraft_laws N"
  shows "LogAppend_validate N a = Inr () \<longleftrightarrow>
    (\<forall>i. (bt_get (la_command_payloads a) i \<noteq> None) =
       (entries_get_entry N (la_entries a) i = Some CommandEntry))"
proof -
  let ?e = "la_entries a"
  let ?ps = "with_positions (entries_prev_position N ?e) (entries_iter N ?e)"
  have iwp: "entries_iter_with_positions N ?e = ?ps"
    using noraft_lawsD(2) [OF assms] by (simp add: observer_laws_def)
  let ?m = "map (\<lambda>(p, x). (pos_index p, x)) ?ps"
  have "distinct (map fst ?m)"
    using with_positions_index_inj [OF entries_fit [OF noraft_lawsD(1) [OF assms]]]
    by (simp add: o_def case_prod_beta')
  then have "map_of ?m i = Some x \<longleftrightarrow> (i, x) \<in> set ?m" for i x
    by simp
  moreover have "entries_get_entry N ?e i = map_of ?m i" for i
    using noraft_lawsD(2) [OF assms] by (simp add: observer_laws_def)
  ultimately have get: "entries_get_entry N ?e i = Some CommandEntry \<longleftrightarrow>
      (\<exists>p. (p, CommandEntry) \<in> set ?ps \<and> pos_index p = i)" for i
    by force
  have cmd: "(\<forall>(p, x) \<in> set ?ps. x = CommandEntry \<longrightarrow> bt_get (la_command_payloads a) (pos_index p) \<noteq> None) \<longleftrightarrow>
      (\<forall>i. entries_get_entry N ?e i = Some CommandEntry \<longrightarrow> bt_get (la_command_payloads a) i \<noteq> None)"
    unfolding get by auto
  have "(\<forall>i \<in> fst ` set (la_command_payloads a). entries_get_entry N ?e i = Some CommandEntry) \<longleftrightarrow>
      (\<forall>i. bt_get (la_command_payloads a) i \<noteq> None \<longrightarrow> entries_get_entry N ?e i = Some CommandEntry)"
    unfolding map_of_eq_None_iff by auto
  then have "LogAppend_validate N a = Inr () \<longleftrightarrow>
      (\<forall>i. entries_get_entry N ?e i = Some CommandEntry \<longrightarrow> bt_get (la_command_payloads a) i \<noteq> None) \<and>
      (\<forall>i. bt_get (la_command_payloads a) i \<noteq> None \<longrightarrow> entries_get_entry N ?e i = Some CommandEntry)"
    by (simp only: LogAppend_validate_ok iwp cmd)
  also have "\<dots> \<longleftrightarrow> (\<forall>i. (bt_get (la_command_payloads a) i \<noteq> None) =
       (entries_get_entry N ?e i = Some CommandEntry))"
    by (rule all_imp_both)
  finally show ?thesis .
qed

section \<open>Node states\<close>

text \<open>
  The invariant of a node state: its log was built by \<^verbatim>\<open>Log::new\<close>, its payload map is ordered, and
  it holds a payload for exactly the indexes of the command entries of its log.
\<close>

definition state_inv :: "('le, 'lg) noraft \<Rightarrow> 'lg NodeState \<Rightarrow> bool" where
  "state_inv N s \<longleftrightarrow>
     (\<exists>c e. ns_log s = log_new N c e) \<and> bt_wf (ns_command_payloads s) \<and>
     (\<forall>i. (bt_get (ns_command_payloads s) i \<noteq> None) =
        (entries_get_entry N (log_entries N (ns_log s)) i = Some CommandEntry))"

text \<open>The maps inside a record are ordered maps.\<close>

fun record_maps_wf :: "'le Record \<Rightarrow> bool" where
  "record_maps_wf (Append a) = bt_wf (la_command_payloads a)"
| "record_maps_wf (Checkpoint c) = bt_wf (la_command_payloads (sc_suffix c))"
| "record_maps_wf _ = True"

lemma log_entries_new: "noraft_laws N \<Longrightarrow> log_entries N (log_new N c e) = e"
  by (simp add: noraft_laws_def log_laws_def)

lemma entries_new_prev_iter:
  "noraft_laws N \<Longrightarrow> entries_prev_position N (entries_new N p) = p \<and> entries_iter N (entries_new N p) = []"
  by (simp add: noraft_laws_def entries_laws_def)

lemma state_inv_default: "noraft_laws N \<Longrightarrow> state_inv N (NodeState_default N)"
  by (auto simp: state_inv_def NodeState_default_def log_entries_new get_entry_entry_at
      entries_new_prev_iter entry_at_def)

lemma append_suffix_cases:
  assumes laws: "noraft_laws N" and app: "log_append_suffix N (log_new N c e) s = (True, lg)"
  obtains k where "k \<le> length (entries_iter N e)"
    and "unat (pos_index (entries_prev_position N s)) = unat (pos_index (entries_prev_position N e)) + k"
    and "lg = log_new N c (entries_of N (entries_prev_position N e) (take k (entries_iter N e) @ entries_iter N s))"
proof -
  let ?p = "entries_prev_position N e" and ?q = "entries_prev_position N s"
  have con: "contained ?p (entries_iter N e) ?q"
    using app noraft_lawsD(3) [OF laws] by (intro ccontr [of "contained _ _ _"]) (simp add: log_laws_def)
  obtain k where k: "k \<le> length (entries_iter N e)" "unat (pos_index ?q) = unat (pos_index ?p) + k"
    using contained_index [OF con entries_fit [OF noraft_lawsD(1) [OF laws]]] .
  then have "offset_in ?p ?q = k" by (simp add: offset_in_def)
  then have "lg = log_new N c (entries_of N ?p (take k (entries_iter N e) @ entries_iter N s))"
    using app con noraft_lawsD(3) [OF laws] by (auto simp: log_laws_def)
  with k that show ?thesis by blast
qed

lemma apply_append_inv:
  assumes laws: "noraft_laws N" and inv: "state_inv N s" and wf: "bt_wf (la_command_payloads a)"
    and app: "apply_append_owned N s a = Inr s'"
  shows "state_inv N s'"
proof -
  let ?q = "entries_prev_position N (la_entries a)" and ?ys = "entries_iter N (la_entries a)"
  let ?kept = "bt_retain (\<lambda>index _. index \<le> pos_index ?q) (ns_command_payloads s)"
  obtain c e where log: "ns_log s = log_new N c e" using inv by (auto simp: state_inv_def)
  obtain lg where lg: "log_append_suffix N (ns_log s) (la_entries a) = (True, lg)"
    and valid: "LogAppend_validate N a = Inr ()"
    and s': "s' = s\<lparr>ns_log := lg, ns_command_payloads := bt_extend ?kept (la_command_payloads a)\<rparr>"
    using app by (auto simp: apply_append_owned_def result_simps Let_def split: prod.splits if_splits)
  obtain k where k: "k \<le> length (entries_iter N e)"
    "unat (pos_index ?q) = unat (pos_index (entries_prev_position N e)) + k"
    "lg = log_new N c (entries_of N (entries_prev_position N e) (take k (entries_iter N e) @ ?ys))"
    using append_suffix_cases [OF laws lg [unfolded log]] .
  have fit: "unat (pos_index (entries_prev_position N e)) + length (take k (entries_iter N e) @ ?ys) < 2 ^ 64"
    using k entries_fit [OF noraft_lawsD(1) [OF laws], of "la_entries a"] by simp
  have new: "entries_get_entry N (log_entries N lg) i =
      (if i \<le> pos_index ?q then entries_get_entry N e i else entries_get_entry N (la_entries a) i)" for i
    using entries_of_prev_iter [OF noraft_lawsD(1) [OF laws] fit] entry_at_splice [OF k(2,1)]
    by (simp add: k(3) log_entries_new [OF laws] get_entry_entry_at [OF laws])
  have low: "entries_get_entry N (la_entries a) i = None" if "i \<le> pos_index ?q" for i
    using that by (simp add: get_entry_entry_at [OF laws] entry_at_def word_le_nat_alt)
  have old: "(bt_get (ns_command_payloads s) i \<noteq> None) = (entries_get_entry N e i = Some CommandEntry)"
    and wfs: "bt_wf (ns_command_payloads s)" for i
    using inv by (auto simp: state_inv_def log log_entries_new [OF laws])
  have get: "bt_get (bt_extend ?kept (la_command_payloads a)) i \<noteq> None \<longleftrightarrow>
      bt_get (la_command_payloads a) i \<noteq> None \<or> (i \<le> pos_index ?q \<and> bt_get (ns_command_payloads s) i \<noteq> None)" for i
    using wf wfs by (auto simp: btree_simps map_add_def split: option.splits if_splits)
  show ?thesis
    unfolding state_inv_def
  proof (intro conjI allI)
    show "\<exists>c e. ns_log s' = log_new N c e" using k(3) s' by auto
    show "bt_wf (ns_command_payloads s')" using wfs s' by (simp add: btree_simps)
    show "(bt_get (ns_command_payloads s') i \<noteq> None) =
        (entries_get_entry N (log_entries N (ns_log s')) i = Some CommandEntry)" for i
      using get [of i] old [of i] new [of i] low [of i] valid [unfolded LogAppend_valid_payloads [OF laws]] s'
      by auto
  qed
qed

text \<open>The entries that a snapshot retains are those behind its position.\<close>

lemma retained_get_entry:
  assumes laws: "noraft_laws N" and ret: "retained_log_entries_after_snapshot N e p = Inr e'"
  shows "entries_get_entry N e' i = (if pos_index p < i then entries_get_entry N e i else None)"
proof (cases "contained (entries_prev_position N e) (entries_iter N e) p")
  case True
  obtain k where k: "k \<le> length (entries_iter N e)"
    "unat (pos_index p) = unat (pos_index (entries_prev_position N e)) + k"
    using contained_index [OF True entries_fit [OF noraft_lawsD(1) [OF laws]]] .
  have "e' = entries_of N p (drop k (entries_iter N e))"
    using ret True k noraft_lawsD(3) [OF laws]
    by (auto simp: retained_log_entries_after_snapshot_def log_laws_def offset_in_def split: if_splits)
  moreover have "unat (pos_index p) + length (drop k (entries_iter N e)) < 2 ^ 64"
    using k entries_fit [OF noraft_lawsD(1) [OF laws], of e] by simp
  ultimately show ?thesis
    using entries_of_prev_iter [OF noraft_lawsD(1) [OF laws]] entry_at_drop [OF k(2,1)]
    by (simp add: get_entry_entry_at [OF laws])
next
  case False
  have "entries_since N e p = None" using False noraft_lawsD(3) [OF laws] by (simp add: log_laws_def)
  then have "e' = entries_new N p" and last: "pos_index (entries_last_position N e) < pos_index p"
    using ret by (auto simp: retained_log_entries_after_snapshot_def split: if_splits)
  moreover have "unat (pos_index (entries_last_position N e)) =
      unat (pos_index (entries_prev_position N e)) + length (entries_iter N e)"
    using noraft_lawsD(2) [OF laws] entries_fit [OF noraft_lawsD(1) [OF laws], of e]
    by (simp add: observer_laws_def unat_word_ariths unat_of_nat take_bit_nat_eq_self)
  ultimately show ?thesis
    by (auto simp: get_entry_entry_at [OF laws] entries_new_prev_iter [OF laws] entry_at_def word_less_nat_alt)
qed

lemma apply_snapshot_inv:
  assumes laws: "noraft_laws N" and inv: "state_inv N s" and app: "apply_snapshot N s sn = Inr s'"
  shows "state_inv N s'"
proof -
  let ?p = "sn_last_included sn"
  obtain c e where log: "ns_log s = log_new N c e" using inv by (auto simp: state_inv_def)
  obtain e' where ret: "retained_log_entries_after_snapshot N e ?p = Inr e'"
    and s': "s' = s\<lparr>ns_command_payloads := bt_retain (\<lambda>index _. pos_index ?p < index) (ns_command_payloads s),
      ns_log := log_new N (sn_config sn) e', ns_snapshot := Some sn\<rparr>"
    using app by (auto simp: apply_snapshot_def result_simps log log_entries_new [OF laws])
  have old: "(bt_get (ns_command_payloads s) i \<noteq> None) = (entries_get_entry N e i = Some CommandEntry)"
    and wfs: "bt_wf (ns_command_payloads s)" for i
    using inv by (auto simp: state_inv_def log log_entries_new [OF laws])
  show ?thesis
    unfolding state_inv_def
  proof (intro conjI allI)
    show "\<exists>c e. ns_log s' = log_new N c e" using s' by auto
    show "bt_wf (ns_command_payloads s')" using wfs s' by (simp add: btree_simps)
    show "(bt_get (ns_command_payloads s') i \<noteq> None) =
        (entries_get_entry N (log_entries N (ns_log s')) i = Some CommandEntry)" for i
      using old [of i] retained_get_entry [OF laws ret, of i] wfs s'
      by (auto simp: log_entries_new [OF laws] btree_simps split: option.splits if_splits)
  qed
qed

lemma state_inv_term_vote:
  "state_inv N s \<Longrightarrow> state_inv N (apply_current_term s t)"
  "state_inv N s \<Longrightarrow> state_inv N (apply_voted_for s v)"
  by (simp_all add: state_inv_def apply_current_term_def apply_voted_for_def)

lemma into_state_inv:
  assumes laws: "noraft_laws N" and wf: "bt_wf (la_command_payloads (sc_suffix c))"
    and into: "into_state N c = Inr s"
  shows "state_inv N s"
proof -
  let ?s0 = "apply_voted_for (apply_current_term (NodeState_default N) (sc_current_term c)) (sc_voted_for c)"
  obtain s1 where s1: "apply_snapshot N ?s0 (sc_snapshot c) = Inr s1"
    and s: "apply_append_owned N s1 (sc_suffix c) = Inr s"
    using into by (auto simp: into_state_def result_simps Let_def)
  have "state_inv N ?s0" by (intro state_inv_term_vote state_inv_default laws)
  then have "state_inv N s1" using apply_snapshot_inv [OF laws _ s1] by blast
  then show ?thesis using apply_append_inv [OF laws _ wf s] by blast
qed

lemma apply_record_inv:
  assumes "noraft_laws N" and "state_inv N s" and "record_maps_wf r"
    and "apply_record_to_state N s r = Inr s'"
  shows "state_inv N s'"
  using assms by (cases r) (auto intro: state_inv_term_vote apply_append_inv into_state_inv)

section \<open>Checkpoints\<close>

lemma initial_checkpoint_valid:
  assumes "noraft_laws N"
  shows "LogAppend_new N (entries_new N LogPosition_ZERO) [] = Inr (sc_suffix (initial_checkpoint N))"
    and "SnapshotCheckpoint_validate N (initial_checkpoint N) = Inr ()"
  using noraft_lawsD(2) [OF assms]
  by (simp_all add: LogAppend_new_def LogAppend_validate_def initial_checkpoint_def
      SnapshotCheckpoint_validate_def observer_laws_def entries_new_prev_iter [OF assms])

text \<open>
  The node state that a checkpoint stands for: its own term and vote, its snapshot, and a log and
  payload map that hold exactly its suffix.
\<close>

definition checkpoint_state :: "('le, 'lg) noraft \<Rightarrow> 'le SnapshotCheckpoint \<Rightarrow> 'lg NodeState" where
  "checkpoint_state N c =
     \<lparr>ns_current_term = sc_current_term c, ns_voted_for = sc_voted_for c,
      ns_log = log_new N (sn_config (sc_snapshot c)) (la_entries (sc_suffix c)),
      ns_command_payloads = la_command_payloads (sc_suffix c),
      ns_snapshot = Some (sc_snapshot c)\<rparr>"

text \<open>
  The positions a fresh log can be cut at: the zero position, or any position with a non-zero
  index. A position with index zero and a non-zero term is the remaining case.
\<close>

definition replayable_position :: "LogPosition \<Rightarrow> bool" where
  "replayable_position p \<longleftrightarrow> p = LogPosition_ZERO \<or> pos_index p \<noteq> 0"

lemma retained_default:
  assumes laws: "noraft_laws N"
  shows "retained_log_entries_after_snapshot N (entries_new N LogPosition_ZERO) p =
    (if replayable_position p then Inr (entries_new N p)
     else Inl (invalid_data ''snapshot position conflicts with local log''))"
proof -
  let ?z = "entries_new N LogPosition_ZERO"
  have z: "entries_prev_position N ?z = LogPosition_ZERO" "entries_iter N ?z = []"
    using entries_new_prev_iter [OF laws] by auto
  have last: "pos_index (entries_last_position N ?z) = 0"
    using noraft_lawsD(2) [OF laws] z by (simp add: observer_laws_def)
  have "entries_since N ?z p = (if p = LogPosition_ZERO then Some (entries_new N p) else None)"
    using noraft_lawsD(3) [OF laws] by (simp add: log_laws_def z contained_def entries_of_def)
  then show ?thesis
    by (auto simp: retained_log_entries_after_snapshot_def z last replayable_position_def word_neq_0_conv)
qed

lemma bt_extend_Nil: "bt_wf m \<Longrightarrow> bt_extend [] m = m"
  by (rule bt_ext) (simp_all add: btree_simps)

lemma append_onto_anchor:
  assumes laws: "noraft_laws N"
  shows "log_append_suffix N (log_new N c (entries_new N (entries_prev_position N e))) e = (True, log_new N c e)"
  using noraft_lawsD(3) [OF laws] entries_new_prev_iter [OF laws] entries_of_iter [OF noraft_lawsD(1) [OF laws]]
  by (simp add: log_laws_def contained_def)

lemma into_state_validated:
  assumes laws: "noraft_laws N" and valid: "SnapshotCheckpoint_validate N c = Inr ()"
    and wf: "bt_wf (la_command_payloads (sc_suffix c))"
  shows "into_state N c =
    (if replayable_position (sn_last_included (sc_snapshot c)) then Inr (checkpoint_state N c)
     else Inl (invalid_data ''snapshot position conflicts with local log''))"
proof -
  have v: "LogAppend_validate N (sc_suffix c) = Inr ()"
    "entries_prev_position N (la_entries (sc_suffix c)) = sn_last_included (sc_snapshot c)"
    using valid by (auto simp: SnapshotCheckpoint_validate_ok)
  show ?thesis
    using v append_onto_anchor [OF laws, of "sn_config (sc_snapshot c)" "la_entries (sc_suffix c)"] wf
    by (simp add: into_state_def valid apply_snapshot_def apply_append_owned_def apply_current_term_def
        apply_voted_for_def NodeState_default_def log_entries_new [OF laws] retained_default [OF laws]
        checkpoint_state_def bt_retain_def bt_extend_Nil)
qed

lemma into_state_ok_validated:
  "into_state N c = Inr s \<Longrightarrow> SnapshotCheckpoint_validate N c = Inr ()"
  by (auto simp: into_state_def result_simps)

section \<open>Properties\<close>

text \<open>
  C22. Replaying any record keeps the payload map of a node in step with its log: after a successful
  \<^verbatim>\<open>apply_record_to_state\<close> there is a command payload at exactly the indexes of the command
  entries of the log, also when an append replaces a divergent suffix and when a checkpoint
  replaces the whole state.
\<close>

theorem apply_record_payloads_match_log:
  assumes "noraft_laws N" and "state_inv N s" and "record_maps_wf r"
    and "apply_record_to_state N s r = Inr s'"
  shows "state_inv N s'"
  using assms by (rule apply_record_inv)

definition sample_append :: "wf_entries LogAppend" where
  "sample_append =
     \<lparr>la_entries = mk_entries LogPosition_ZERO [TermEntry 1, CommandEntry],
      la_command_payloads = [(2, \<lparr>cp_tag = 3, cp_bytes = [7]\<rparr>)]\<rparr>"

lemma sample_append_valid: "LogAppend_validate list_noraft sample_append = Inr ()"
  by (simp add: LogAppend_validate_def sample_append_def rep_mk_entries LogPosition_ZERO_def)

lemma sample_append_applies:
  "\<exists>s'. apply_record_to_state list_noraft (NodeState_default list_noraft) (Append sample_append) = Inr s'"
  using sample_append_valid
  by (simp add: apply_append_owned_def NodeState_default_def sample_append_def contained_def)

theorem apply_record_payloads_match_log_witness:
  "\<exists>s'. apply_record_to_state list_noraft (NodeState_default list_noraft) (Append sample_append) = Inr s' \<and>
     state_inv list_noraft s'"
proof -
  obtain s' where s': "apply_record_to_state list_noraft (NodeState_default list_noraft) (Append sample_append) = Inr s'"
    using sample_append_applies by blast
  have "record_maps_wf (Append sample_append)" by (simp add: sample_append_def)
  from apply_record_payloads_match_log [OF list_noraft_laws state_inv_default [OF list_noraft_laws] this s'] s'
  show ?thesis by blast
qed

text \<open>
  C23. A validated checkpoint restores exactly its own contents, whatever the state before it, when
  its snapshot position is the zero position or has a non-zero index; with index zero and a
  non-zero term it is rejected at replay, although validation accepted it when it was written.
\<close>

theorem checkpoint_replay:
  assumes "noraft_laws N" and "SnapshotCheckpoint_validate N c = Inr ()"
    and "bt_wf (la_command_payloads (sc_suffix c))"
  shows "apply_record_to_state N s (Checkpoint c) =
    (if replayable_position (sn_last_included (sc_snapshot c)) then Inr (checkpoint_state N c)
     else Inl (invalid_data ''snapshot position conflicts with local log''))"
  using assms by (simp add: into_state_validated)

definition sample_checkpoint :: "LogPosition \<Rightarrow> wf_entries SnapshotCheckpoint" where
  "sample_checkpoint p =
     \<lparr>sc_current_term = 5, sc_voted_for = Some 1,
      sc_snapshot = \<lparr>sn_last_included = p, sn_config = ClusterConfig_new, sn_data = [1, 2]\<rparr>,
      sc_suffix = \<lparr>la_entries = mk_entries p [], la_command_payloads = []\<rparr>\<rparr>"

lemma sample_checkpoint_valid: "SnapshotCheckpoint_validate list_noraft (sample_checkpoint p) = Inr ()"
  by (simp add: SnapshotCheckpoint_validate_def LogAppend_validate_def sample_checkpoint_def)

theorem checkpoint_replay_witness:
  "apply_record_to_state list_noraft (NodeState_default list_noraft)
      (Checkpoint (sample_checkpoint \<lparr>pos_term = 5, pos_index = 9\<rparr>)) =
     Inr (checkpoint_state list_noraft (sample_checkpoint \<lparr>pos_term = 5, pos_index = 9\<rparr>)) \<and>
   apply_record_to_state list_noraft (NodeState_default list_noraft)
      (Checkpoint (sample_checkpoint \<lparr>pos_term = 5, pos_index = 0\<rparr>)) =
     Inl (invalid_data ''snapshot position conflicts with local log'')"
proof -
  have wf: "bt_wf (la_command_payloads (sc_suffix (sample_checkpoint p)))" for p
    by (simp add: sample_checkpoint_def)
  note replay = checkpoint_replay [OF list_noraft_laws sample_checkpoint_valid wf]
  show ?thesis
    by (simp only: replay) (simp add: sample_checkpoint_def replayable_position_def LogPosition_ZERO_def)
qed

end
