(* ===== verification/Metrics.thy ===== *)
theory Metrics
  imports Prelude
begin

text \<open>
  The counters of \<^verbatim>\<open>src/metrics.rs\<close>. Every counter is a 64-bit word that saturates; gauges are
  overwritten.
\<close>

section \<open>Model\<close>

record RecordKindMetrics =
  rk_current_term :: u64
  rk_voted_for :: u64
  rk_log_append :: u64
  rk_snapshot_checkpoint :: u64

record OperationKindMetrics =
  ok_load :: u64
  ok_save_current_term :: u64
  ok_save_voted_for :: u64
  ok_append_entries :: u64
  ok_save_snapshot :: u64
  ok_remove_node :: u64

record RejectedOperationMetrics =
  ro_unknown_nodes :: OperationKindMetrics
  ro_removed_nodes :: OperationKindMetrics

record StorageMetrics =
  m_records_written :: RecordKindMetrics
  m_bytes_written :: RecordKindMetrics
  m_records_replayed :: RecordKindMetrics
  m_bytes_replayed :: RecordKindMetrics
  m_segment_rotations :: u64
  m_syncs :: u64
  m_durable_syncs :: u64
  m_replay_truncations :: u64
  m_checksum_failures :: u64
  m_nodes_created :: u64
  m_nodes_removed :: u64
  m_rejected_operations :: RejectedOperationMetrics
  m_snapshot_checkpoints_saved :: u64
  m_gc_runs :: u64
  m_gc_segments_deleted :: u64
  m_active_nodes :: u64
  m_removed_nodes :: u64
  m_checkpoint_index_nodes :: u64
  m_active_append_segment_id :: u64
  m_active_append_segment_len_bytes :: u64
  m_unsynced_records :: u64
  m_unsynced_bytes :: u64

datatype RecordKindMetric = KCurrentTerm | KVotedFor | KLogAppend | KSnapshotCheckpoint

datatype StorageOperationKind =
    OpLoad
  | OpSaveCurrentTerm
  | OpSaveVotedFor
  | OpAppendEntries
  | OpSaveSnapshot
  | OpRemoveNode

datatype NodeAccessErrorKind = UnknownNode | RemovedNode

definition RecordKindMetrics_default :: RecordKindMetrics where
  "RecordKindMetrics_default =
     \<lparr>rk_current_term = 0, rk_voted_for = 0, rk_log_append = 0, rk_snapshot_checkpoint = 0\<rparr>"

definition OperationKindMetrics_default :: OperationKindMetrics where
  "OperationKindMetrics_default =
     \<lparr>ok_load = 0, ok_save_current_term = 0, ok_save_voted_for = 0, ok_append_entries = 0,
      ok_save_snapshot = 0, ok_remove_node = 0\<rparr>"

definition StorageMetrics_default :: StorageMetrics where
  "StorageMetrics_default =
     \<lparr>m_records_written = RecordKindMetrics_default, m_bytes_written = RecordKindMetrics_default,
      m_records_replayed = RecordKindMetrics_default, m_bytes_replayed = RecordKindMetrics_default,
      m_segment_rotations = 0, m_syncs = 0, m_durable_syncs = 0, m_replay_truncations = 0,
      m_checksum_failures = 0, m_nodes_created = 0, m_nodes_removed = 0,
      m_rejected_operations =
        \<lparr>ro_unknown_nodes = OperationKindMetrics_default, ro_removed_nodes = OperationKindMetrics_default\<rparr>,
      m_snapshot_checkpoints_saved = 0, m_gc_runs = 0, m_gc_segments_deleted = 0,
      m_active_nodes = 0, m_removed_nodes = 0, m_checkpoint_index_nodes = 0,
      m_active_append_segment_id = 0, m_active_append_segment_len_bytes = 0,
      m_unsynced_records = 0, m_unsynced_bytes = 0\<rparr>"

definition increment :: "u64 \<Rightarrow> u64 \<Rightarrow> u64" where
  "increment counter value = saturating_add counter value"

fun RecordKindMetrics_increment :: "RecordKindMetrics \<Rightarrow> RecordKindMetric \<Rightarrow> u64 \<Rightarrow> RecordKindMetrics" where
  "RecordKindMetrics_increment m KCurrentTerm v = m\<lparr>rk_current_term := increment (rk_current_term m) v\<rparr>"
| "RecordKindMetrics_increment m KVotedFor v = m\<lparr>rk_voted_for := increment (rk_voted_for m) v\<rparr>"
| "RecordKindMetrics_increment m KLogAppend v = m\<lparr>rk_log_append := increment (rk_log_append m) v\<rparr>"
| "RecordKindMetrics_increment m KSnapshotCheckpoint v =
     m\<lparr>rk_snapshot_checkpoint := increment (rk_snapshot_checkpoint m) v\<rparr>"

fun OperationKindMetrics_increment :: "OperationKindMetrics \<Rightarrow> StorageOperationKind \<Rightarrow> OperationKindMetrics" where
  "OperationKindMetrics_increment m OpLoad = m\<lparr>ok_load := increment (ok_load m) 1\<rparr>"
| "OperationKindMetrics_increment m OpSaveCurrentTerm =
     m\<lparr>ok_save_current_term := increment (ok_save_current_term m) 1\<rparr>"
| "OperationKindMetrics_increment m OpSaveVotedFor =
     m\<lparr>ok_save_voted_for := increment (ok_save_voted_for m) 1\<rparr>"
| "OperationKindMetrics_increment m OpAppendEntries =
     m\<lparr>ok_append_entries := increment (ok_append_entries m) 1\<rparr>"
| "OperationKindMetrics_increment m OpSaveSnapshot =
     m\<lparr>ok_save_snapshot := increment (ok_save_snapshot m) 1\<rparr>"
| "OperationKindMetrics_increment m OpRemoveNode =
     m\<lparr>ok_remove_node := increment (ok_remove_node m) 1\<rparr>"

fun RejectedOperationMetrics_increment ::
  "RejectedOperationMetrics \<Rightarrow> StorageOperationKind \<Rightarrow> NodeAccessErrorKind \<Rightarrow> RejectedOperationMetrics" where
  "RejectedOperationMetrics_increment m op UnknownNode =
     m\<lparr>ro_unknown_nodes := OperationKindMetrics_increment (ro_unknown_nodes m) op\<rparr>"
| "RejectedOperationMetrics_increment m op RemovedNode =
     m\<lparr>ro_removed_nodes := OperationKindMetrics_increment (ro_removed_nodes m) op\<rparr>"

definition record_written :: "RecordKindMetric \<Rightarrow> u64 \<Rightarrow> StorageMetrics \<Rightarrow> StorageMetrics" where
  "record_written kind n m = m\<lparr>
     m_records_written := RecordKindMetrics_increment (m_records_written m) kind 1,
     m_bytes_written := RecordKindMetrics_increment (m_bytes_written m) kind n,
     m_unsynced_records := increment (m_unsynced_records m) 1,
     m_unsynced_bytes := increment (m_unsynced_bytes m) n\<rparr>"

definition record_replayed :: "RecordKindMetric \<Rightarrow> u64 \<Rightarrow> StorageMetrics \<Rightarrow> StorageMetrics" where
  "record_replayed kind n m = m\<lparr>
     m_records_replayed := RecordKindMetrics_increment (m_records_replayed m) kind 1,
     m_bytes_replayed := RecordKindMetrics_increment (m_bytes_replayed m) kind n\<rparr>"

definition segment_opened :: "u64 \<Rightarrow> u64 \<Rightarrow> StorageMetrics \<Rightarrow> StorageMetrics" where
  "segment_opened segment_id segment_len m =
     m\<lparr>m_active_append_segment_id := segment_id, m_active_append_segment_len_bytes := segment_len\<rparr>"

definition segment_written :: "u64 \<Rightarrow> StorageMetrics \<Rightarrow> StorageMetrics" where
  "segment_written segment_len m = m\<lparr>m_active_append_segment_len_bytes := segment_len\<rparr>"

definition segment_rotated :: "u64 \<Rightarrow> u64 \<Rightarrow> StorageMetrics \<Rightarrow> StorageMetrics" where
  "segment_rotated segment_id segment_len m =
     segment_opened segment_id segment_len
       (m\<lparr>m_segment_rotations := increment (m_segment_rotations m) 1\<rparr>)"

definition sync_requested :: "StorageMetrics \<Rightarrow> StorageMetrics" where
  "sync_requested m = m\<lparr>m_syncs := increment (m_syncs m) 1\<rparr>"

definition segment_synced :: "StorageMetrics \<Rightarrow> StorageMetrics" where
  "segment_synced m = m\<lparr>m_durable_syncs := increment (m_durable_syncs m) 1,
     m_unsynced_records := 0, m_unsynced_bytes := 0\<rparr>"

definition replay_truncated :: "StorageMetrics \<Rightarrow> StorageMetrics" where
  "replay_truncated m = m\<lparr>m_replay_truncations := increment (m_replay_truncations m) 1\<rparr>"

definition checksum_failed :: "StorageMetrics \<Rightarrow> StorageMetrics" where
  "checksum_failed m = m\<lparr>m_checksum_failures := increment (m_checksum_failures m) 1\<rparr>"

definition node_created :: "StorageMetrics \<Rightarrow> StorageMetrics" where
  "node_created m = m\<lparr>m_nodes_created := increment (m_nodes_created m) 1\<rparr>"

definition node_removed :: "StorageMetrics \<Rightarrow> StorageMetrics" where
  "node_removed m = m\<lparr>m_nodes_removed := increment (m_nodes_removed m) 1\<rparr>"

definition rejected_operation ::
  "StorageOperationKind \<Rightarrow> NodeAccessErrorKind \<Rightarrow> StorageMetrics \<Rightarrow> StorageMetrics" where
  "rejected_operation op err m =
     m\<lparr>m_rejected_operations := RejectedOperationMetrics_increment (m_rejected_operations m) op err\<rparr>"

definition snapshot_checkpoint_saved :: "StorageMetrics \<Rightarrow> StorageMetrics" where
  "snapshot_checkpoint_saved m =
     m\<lparr>m_snapshot_checkpoints_saved := increment (m_snapshot_checkpoints_saved m) 1\<rparr>"

definition gc_ran :: "StorageMetrics \<Rightarrow> StorageMetrics" where
  "gc_ran m = m\<lparr>m_gc_runs := increment (m_gc_runs m) 1\<rparr>"

definition gc_deleted_segments :: "u64 \<Rightarrow> StorageMetrics \<Rightarrow> StorageMetrics" where
  "gc_deleted_segments count m = m\<lparr>m_gc_segments_deleted := increment (m_gc_segments_deleted m) count\<rparr>"

definition registry_loaded :: "u64 \<Rightarrow> u64 \<Rightarrow> StorageMetrics \<Rightarrow> StorageMetrics" where
  "registry_loaded active removed m = m\<lparr>m_active_nodes := active, m_removed_nodes := removed\<rparr>"

definition checkpoint_index_loaded :: "u64 \<Rightarrow> StorageMetrics \<Rightarrow> StorageMetrics" where
  "checkpoint_index_loaded nodes m = m\<lparr>m_checkpoint_index_nodes := nodes\<rparr>"

definition node_counts_changed :: "u64 \<Rightarrow> u64 \<Rightarrow> StorageMetrics \<Rightarrow> StorageMetrics" where
  "node_counts_changed active removed m = m\<lparr>m_active_nodes := active, m_removed_nodes := removed\<rparr>"

definition checkpoint_index_changed :: "u64 \<Rightarrow> StorageMetrics \<Rightarrow> StorageMetrics" where
  "checkpoint_index_changed nodes m = m\<lparr>m_checkpoint_index_nodes := nodes\<rparr>"

section \<open>Lemmas\<close>

lemma unat_increment: "unat (increment c v) = min (unat c + unat v) (2 ^ 64 - 1)"
  by (simp add: increment_def unat_saturating_add)

lemma increment_eq_0: "increment c v = 0 \<longleftrightarrow> c = 0 \<and> v = 0"
proof -
  have "increment c v = 0 \<longleftrightarrow> unat (increment c v) = 0" by (simp add: unat_eq_zero)
  also have "\<dots> \<longleftrightarrow> c = 0 \<and> v = 0" by (auto simp: unat_increment unat_eq_zero min_def)
  finally show ?thesis .
qed

text \<open>A record is pending for synchronisation from the moment it is written until a sync.\<close>

lemma unsynced_after_write [simp]:
  "m_unsynced_records (record_written k n m) \<noteq> 0"
  by (simp add: record_written_def increment_eq_0)

lemma unsynced_after_sync [simp]:
  "m_unsynced_records (segment_synced m) = 0" "m_unsynced_bytes (segment_synced m) = 0"
  by (simp_all add: segment_synced_def)

end
