(* ===== verification/Codec.thy ===== *)
theory Codec
  imports NodeState Crc32c Metrics
begin

text \<open>
  The record encoding of \<^verbatim>\<open>src/codec.rs\<close>: the bounded encoder and decoder, one pair of functions
  for every encoded type, the record frame with its length and checksum, and the two frame readers.
  The round trip is proved once for composition and for counted repetition, inside the locale
  \<open>codec\<close>, and then by interpretation for the element types.
\<close>

section \<open>Encoder and decoder\<close>

definition MAX_COUNT_ITEMS :: u32 where
  "MAX_COUNT_ITEMS = 1000000"

definition MAX_RECORD_BODY_LEN :: u32 where
  "MAX_RECORD_BODY_LEN = 1024 * 1024 * 1024"

record Encoder =
  enc_bytes :: bytes
  enc_len :: u32

definition Encoder_new :: Encoder where
  "Encoder_new = \<lparr>enc_bytes = [], enc_len = 0\<rparr>"

definition check_append_len :: "nat \<Rightarrow> Encoder \<Rightarrow> u32 io_result" where
  "check_append_len additional e =
     rbind (ok_or (u32_try_from additional) (invalid_input ''record is too large'')) (\<lambda>additional.
     rbind (ok_or (checked_add (enc_len e) additional) (invalid_input ''record is too large'')) (\<lambda>len.
     if MAX_RECORD_BODY_LEN < len then Inl (invalid_input ''record is too large'')
     else Inr len))"

definition put_slice :: "bytes \<Rightarrow> Encoder \<Rightarrow> Encoder io_result" where
  "put_slice bs e =
     rbind (check_append_len (length bs) e) (\<lambda>len.
     Inr (e\<lparr>enc_len := len, enc_bytes := enc_bytes e @ bs\<rparr>))"

definition put_u8 :: "u8 \<Rightarrow> Encoder \<Rightarrow> Encoder io_result" where
  "put_u8 v = put_slice [v]"

definition put_u32 :: "u32 \<Rightarrow> Encoder \<Rightarrow> Encoder io_result" where
  "put_u32 v = put_slice (to_le_bytes 4 v)"

definition put_u64 :: "u64 \<Rightarrow> Encoder \<Rightarrow> Encoder io_result" where
  "put_u64 v = put_slice (to_le_bytes 8 v)"

definition put_bytes :: "bytes \<Rightarrow> Encoder \<Rightarrow> Encoder io_result" where
  "put_bytes bs e =
     rbind (ok_or (u32_try_from (length bs)) (invalid_input ''byte slice is too large'')) (\<lambda>len.
     if MAX_RECORD_BODY_LEN < len then Inl (invalid_input ''byte slice is too large'')
     else if 2 ^ 64 \<le> 4 + length bs then Inl (invalid_input ''record is too large'')
     else rbind (check_append_len (4 + length bs) e) (\<lambda>new_len.
       Inr (e\<lparr>enc_bytes := enc_bytes e @ to_le_bytes 4 len @ bs, enc_len := new_len\<rparr>)))"

definition Encoder_finish :: "Encoder \<Rightarrow> bytes" where
  "Encoder_finish e = enc_bytes e"

record Decoder =
  dec_bytes :: bytes
  dec_position :: nat

type_synonym 'v decoded = "('v \<times> Decoder) io_result"

definition Decoder_new :: "bytes \<Rightarrow> Decoder" where
  "Decoder_new bs = \<lparr>dec_bytes = bs, dec_position = 0\<rparr>"

definition Decoder_take :: "nat \<Rightarrow> Decoder \<Rightarrow> bytes decoded" where
  "Decoder_take len d =
     (if 2 ^ 64 \<le> dec_position d + len then Inl (invalid_data ''record offset overflow'')
      else let end_pos = dec_position d + len in
        if length (dec_bytes d) < end_pos then Inl (invalid_data ''record is too short'')
        else Inr (take len (drop (dec_position d) (dec_bytes d)), d\<lparr>dec_position := end_pos\<rparr>))"

definition get_u8 :: "Decoder \<Rightarrow> u8 decoded" where
  "get_u8 d = rbind (Decoder_take 1 d) (\<lambda>(bs, d). Inr (hd bs, d))"

definition get_u32 :: "Decoder \<Rightarrow> u32 decoded" where
  "get_u32 d = rbind (Decoder_take 4 d) (\<lambda>(bs, d). Inr (from_le_bytes bs, d))"

definition get_u64 :: "Decoder \<Rightarrow> u64 decoded" where
  "get_u64 d = rbind (Decoder_take 8 d) (\<lambda>(bs, d). Inr (from_le_bytes bs, d))"

definition get_bytes :: "Decoder \<Rightarrow> bytes decoded" where
  "get_bytes d =
     rbind (get_u32 d) (\<lambda>(len, d).
     if MAX_RECORD_BODY_LEN < len then Inl (invalid_data ''byte slice is too large'')
     else Decoder_take (unat len) d)"

definition Decoder_finish :: "Decoder \<Rightarrow> unit io_result" where
  "Decoder_finish d =
     (if dec_position d = length (dec_bytes d) then Inr ()
      else Inl (invalid_data ''record has trailing bytes''))"

text \<open>
  The two loop shapes of the codec: \<^verbatim>\<open>for x in xs { encode(x, encoder)? }\<close>, and
  \<^verbatim>\<open>for _ in 0..n { acc = step(acc, decode(decoder)?)? }\<close>.
\<close>

fun encode_each :: "('v \<Rightarrow> Encoder \<Rightarrow> Encoder io_result) \<Rightarrow> 'v list \<Rightarrow> Encoder \<Rightarrow> Encoder io_result" where
  "encode_each enc [] e = Inr e"
| "encode_each enc (v # vs) e = rbind (enc v e) (encode_each enc vs)"

primrec decode_repeat ::
  "nat \<Rightarrow> (Decoder \<Rightarrow> 'v decoded) \<Rightarrow> ('acc \<Rightarrow> 'v \<Rightarrow> 'acc io_result) \<Rightarrow> 'acc \<Rightarrow> Decoder \<Rightarrow> 'acc decoded" where
  "decode_repeat 0 dec stp acc d = Inr (acc, d)"
| "decode_repeat (Suc n) dec stp acc d =
     rbind (dec d) (\<lambda>(v, d). rbind (stp acc v) (\<lambda>acc. decode_repeat n dec stp acc d))"

section \<open>Encoded types\<close>

definition encode_count :: "nat \<Rightarrow> string \<Rightarrow> Encoder \<Rightarrow> Encoder io_result" where
  "encode_count n err e =
     rbind (ok_or (u32_try_from n) (invalid_input err)) (\<lambda>value.
     if MAX_COUNT_ITEMS < value then Inl (invalid_input err) else put_u32 value e)"

definition decode_count :: "string \<Rightarrow> Decoder \<Rightarrow> u32 decoded" where
  "decode_count err d =
     rbind (get_u32 d) (\<lambda>(value, d).
     if MAX_COUNT_ITEMS < value then Inl (invalid_data err) else Inr (value, d))"

definition encode_term :: "Term \<Rightarrow> Encoder \<Rightarrow> Encoder io_result" where
  "encode_term t = put_u64 t"

definition decode_term :: "Decoder \<Rightarrow> Term decoded" where
  "decode_term = get_u64"

definition encode_node_id :: "NodeId \<Rightarrow> Encoder \<Rightarrow> Encoder io_result" where
  "encode_node_id n = put_u64 n"

definition decode_node_id :: "Decoder \<Rightarrow> NodeId decoded" where
  "decode_node_id = get_u64"

definition encode_log_index :: "LogIndex \<Rightarrow> Encoder \<Rightarrow> Encoder io_result" where
  "encode_log_index i = put_u64 i"

definition decode_log_index :: "Decoder \<Rightarrow> LogIndex decoded" where
  "decode_log_index = get_u64"

definition encode_log_position :: "LogPosition \<Rightarrow> Encoder \<Rightarrow> Encoder io_result" where
  "encode_log_position p e = rbind (encode_term (pos_term p) e) (encode_log_index (pos_index p))"

definition decode_log_position :: "Decoder \<Rightarrow> LogPosition decoded" where
  "decode_log_position d =
     rbind (decode_term d) (\<lambda>(t, d). rbind (decode_log_index d) (\<lambda>(i, d).
     Inr (\<lparr>pos_term = t, pos_index = i\<rparr>, d)))"

definition encode_optional_node_id :: "NodeId option \<Rightarrow> Encoder \<Rightarrow> Encoder io_result" where
  "encode_optional_node_id v e =
     (case v of Some n \<Rightarrow> rbind (put_u8 1 e) (encode_node_id n) | None \<Rightarrow> put_u8 0 e)"

definition decode_optional_node_id :: "Decoder \<Rightarrow> NodeId option decoded" where
  "decode_optional_node_id d =
     rbind (get_u8 d) (\<lambda>(tag, d).
     if tag = 0 then Inr (None, d)
     else if tag = 1 then rbind (decode_node_id d) (\<lambda>(n, d). Inr (Some n, d))
     else Inl (invalid_data ''invalid optional node ID tag''))"

definition encode_node_id_set :: "NodeId btset \<Rightarrow> Encoder \<Rightarrow> Encoder io_result" where
  "encode_node_id_set nodes e =
     rbind (encode_count (length nodes) ''too many node IDs'' e) (encode_each encode_node_id nodes)"

definition insert_new_node :: "NodeId btset \<Rightarrow> NodeId \<Rightarrow> NodeId btset io_result" where
  "insert_new_node nodes n =
     (if n \<in> set nodes then Inl (invalid_data ''duplicate node ID'') else Inr (bts_insert n nodes))"

definition decode_node_id_set :: "Decoder \<Rightarrow> NodeId btset decoded" where
  "decode_node_id_set d =
     rbind (decode_count ''too many node IDs'' d) (\<lambda>(len, d).
     decode_repeat (unat len) decode_node_id insert_new_node [] d)"

definition encode_cluster_config :: "ClusterConfig \<Rightarrow> Encoder \<Rightarrow> Encoder io_result" where
  "encode_cluster_config c e =
     rbind (encode_node_id_set (voters c) e) (\<lambda>e.
     rbind (encode_node_id_set (new_voters c) e) (encode_node_id_set (non_voters c)))"

definition decode_cluster_config :: "Decoder \<Rightarrow> ClusterConfig decoded" where
  "decode_cluster_config d =
     rbind (decode_node_id_set d) (\<lambda>(vs, d).
     rbind (decode_node_id_set d) (\<lambda>(nvs, d).
     rbind (decode_node_id_set d) (\<lambda>(nons, d).
     Inr (\<lparr>voters = vs, new_voters = nvs, non_voters = nons\<rparr>, d))))"

fun encode_log_entry :: "LogEntry \<Rightarrow> Encoder \<Rightarrow> Encoder io_result" where
  "encode_log_entry (TermEntry t) e = rbind (put_u8 0 e) (encode_term t)"
| "encode_log_entry (ClusterConfigEntry c) e = rbind (put_u8 1 e) (encode_cluster_config c)"
| "encode_log_entry CommandEntry e = put_u8 2 e"

definition decode_log_entry :: "Decoder \<Rightarrow> LogEntry decoded" where
  "decode_log_entry d =
     rbind (get_u8 d) (\<lambda>(tag, d).
     if tag = 0 then rbind (decode_term d) (\<lambda>(t, d). Inr (TermEntry t, d))
     else if tag = 1 then rbind (decode_cluster_config d) (\<lambda>(c, d). Inr (ClusterConfigEntry c, d))
     else if tag = 2 then Inr (CommandEntry, d)
     else Inl (invalid_data ''unknown log entry tag''))"

definition encode_log_entries :: "('le, 'lg) noraft \<Rightarrow> 'le \<Rightarrow> Encoder \<Rightarrow> Encoder io_result" where
  "encode_log_entries N entries e =
     rbind (encode_log_position (entries_prev_position N entries) e) (\<lambda>e.
     rbind (encode_count (entries_len N entries) ''too many log entries'' e)
       (encode_each encode_log_entry (entries_iter N entries)))"

definition decode_log_entries :: "('le, 'lg) noraft \<Rightarrow> Decoder \<Rightarrow> 'le decoded" where
  "decode_log_entries N d =
     rbind (decode_log_position d) (\<lambda>(prev_position, d).
     rbind (decode_count ''too many log entries'' d) (\<lambda>(len, d).
     if checked_add (pos_index prev_position) (ucast len) = None
     then Inl (invalid_data ''log entries overflow the log index space'')
     else decode_repeat (unat len) decode_log_entry (\<lambda>entries x. Inr (entries_push N entries x))
       (entries_new N prev_position) d))"

text \<open>One command payload with its index, as the loops of \<^verbatim>\<open>encode_log_append\<close> and its inverse
  handle it.\<close>

definition encode_payload :: "LogIndex \<times> CommandPayload \<Rightarrow> Encoder \<Rightarrow> Encoder io_result" where
  "encode_payload ip e =
     rbind (encode_log_index (fst ip) e) (\<lambda>e.
     rbind (put_u8 (cp_tag (snd ip)) e) (put_bytes (cp_bytes (snd ip))))"

definition decode_payload :: "Decoder \<Rightarrow> (LogIndex \<times> CommandPayload) decoded" where
  "decode_payload d =
     rbind (decode_log_index d) (\<lambda>(i, d). rbind (get_u8 d) (\<lambda>(tag, d). rbind (get_bytes d) (\<lambda>(bs, d).
     Inr ((i, \<lparr>cp_tag = tag, cp_bytes = bs\<rparr>), d))))"

definition insert_new_payload ::
  "(LogIndex, CommandPayload) btmap \<Rightarrow> LogIndex \<times> CommandPayload \<Rightarrow> (LogIndex, CommandPayload) btmap io_result" where
  "insert_new_payload m ip =
     (if bt_get m (fst ip) \<noteq> None then Inl (invalid_data ''duplicate command payload index'')
      else Inr (bt_insert (fst ip) (snd ip) m))"

definition encode_log_append :: "('le, 'lg) noraft \<Rightarrow> 'le LogAppend \<Rightarrow> Encoder \<Rightarrow> Encoder io_result" where
  "encode_log_append N a e =
     rbind (LogAppend_validate N a) (\<lambda>_.
     rbind (encode_log_entries N (la_entries a) e) (\<lambda>e.
     rbind (encode_count (length (la_command_payloads a)) ''too many command payloads'' e)
       (encode_each encode_payload (la_command_payloads a))))"

definition decode_log_append :: "('le, 'lg) noraft \<Rightarrow> Decoder \<Rightarrow> 'le LogAppend decoded" where
  "decode_log_append N d =
     rbind (decode_log_entries N d) (\<lambda>(entries, d).
     rbind (decode_count ''too many command payloads'' d) (\<lambda>(command_count, d).
     rbind (decode_repeat (unat command_count) decode_payload insert_new_payload [] d) (\<lambda>(payloads, d).
     rbind (map_err (\<lambda>_. invalid_data ''invalid command payload mapping'') (LogAppend_new N entries payloads))
       (\<lambda>a. Inr (a, d)))))"

definition encode_snapshot :: "Snapshot \<Rightarrow> Encoder \<Rightarrow> Encoder io_result" where
  "encode_snapshot sn e =
     rbind (encode_log_position (sn_last_included sn) e) (\<lambda>e.
     rbind (encode_cluster_config (sn_config sn) e) (put_bytes (sn_data sn)))"

definition decode_snapshot :: "Decoder \<Rightarrow> Snapshot decoded" where
  "decode_snapshot d =
     rbind (decode_log_position d) (\<lambda>(p, d).
     rbind (decode_cluster_config d) (\<lambda>(c, d).
     rbind (get_bytes d) (\<lambda>(bs, d).
     Inr (\<lparr>sn_last_included = p, sn_config = c, sn_data = bs\<rparr>, d))))"

definition encode_snapshot_checkpoint ::
  "('le, 'lg) noraft \<Rightarrow> 'le SnapshotCheckpoint \<Rightarrow> Encoder \<Rightarrow> Encoder io_result" where
  "encode_snapshot_checkpoint N c e =
     rbind (SnapshotCheckpoint_validate N c) (\<lambda>_.
     rbind (encode_term (sc_current_term c) e) (\<lambda>e.
     rbind (encode_optional_node_id (sc_voted_for c) e) (\<lambda>e.
     rbind (encode_snapshot (sc_snapshot c) e) (encode_log_append N (sc_suffix c)))))"

definition decode_snapshot_checkpoint :: "('le, 'lg) noraft \<Rightarrow> Decoder \<Rightarrow> 'le SnapshotCheckpoint decoded" where
  "decode_snapshot_checkpoint N d =
     rbind (decode_term d) (\<lambda>(t, d).
     rbind (decode_optional_node_id d) (\<lambda>(v, d).
     rbind (decode_snapshot d) (\<lambda>(sn, d).
     rbind (decode_log_append N d) (\<lambda>(a, d).
     let c = \<lparr>sc_current_term = t, sc_voted_for = v, sc_snapshot = sn, sc_suffix = a\<rparr> in
     rbind (map_err (\<lambda>_. invalid_data ''invalid snapshot checkpoint'') (SnapshotCheckpoint_validate N c))
       (\<lambda>_. Inr (c, d))))))"

fun encode_record :: "('le, 'lg) noraft \<Rightarrow> 'le Record \<Rightarrow> Encoder \<Rightarrow> Encoder io_result" where
  "encode_record N (CurrentTerm t) e = rbind (put_u8 0 e) (encode_term t)"
| "encode_record N (VotedFor v) e = rbind (put_u8 1 e) (encode_optional_node_id v)"
| "encode_record N (Append a) e = rbind (put_u8 2 e) (encode_log_append N a)"
| "encode_record N (Checkpoint c) e = rbind (put_u8 3 e) (encode_snapshot_checkpoint N c)"

text \<open>The tag and payload that follow the node ID in a record body.\<close>

definition decode_record :: "('le, 'lg) noraft \<Rightarrow> Decoder \<Rightarrow> 'le Record decoded" where
  "decode_record N d =
     rbind (get_u8 d) (\<lambda>(tag, d).
     if tag = 0 then rbind (decode_term d) (\<lambda>(t, d). Inr (CurrentTerm t, d))
     else if tag = 1 then rbind (decode_optional_node_id d) (\<lambda>(v, d). Inr (VotedFor v, d))
     else if tag = 2 then rbind (decode_log_append N d) (\<lambda>(a, d). Inr (Append a, d))
     else if tag = 3 then rbind (decode_snapshot_checkpoint N d) (\<lambda>(c, d). Inr (Checkpoint c, d))
     else Inl (invalid_data ''unknown segment record tag''))"

definition decode_node_record :: "('le, 'lg) noraft \<Rightarrow> bytes \<Rightarrow> 'le NodeRecord io_result" where
  "decode_node_record N bs =
     rbind (decode_node_id (Decoder_new bs)) (\<lambda>(node_id, d).
     rbind (decode_record N d) (\<lambda>(record, d).
     rbind (Decoder_finish d) (\<lambda>_.
     Inr \<lparr>nr_node_id = node_id, nr_record = record\<rparr>)))"

definition decode_record_node_id :: "bytes \<Rightarrow> NodeId io_result" where
  "decode_record_node_id bs = rbind (decode_node_id (Decoder_new bs)) (\<lambda>(node_id, _). Inr node_id)"

section \<open>Frames\<close>

definition encode_record_body :: "('le, 'lg) noraft \<Rightarrow> NodeId \<Rightarrow> 'le Record \<Rightarrow> bytes io_result" where
  "encode_record_body N node_id r =
     rbind (encode_node_id node_id Encoder_new) (\<lambda>body.
     rbind (encode_record N r body) (\<lambda>body. Inr (Encoder_finish body)))"

definition frame_of_body :: "bytes \<Rightarrow> bytes" where
  "frame_of_body body = to_le_bytes 4 (of_nat (length body) :: u32) @ to_le_bytes 4 (crc32c body) @ body"

definition encode_record_frame :: "('le, 'lg) noraft \<Rightarrow> NodeId \<Rightarrow> 'le Record \<Rightarrow> bytes io_result" where
  "encode_record_frame N node_id r =
     rbind (encode_record_body N node_id r) (\<lambda>body.
     rbind (ok_or (u32_try_from (length body)) (invalid_input ''record is too large'')) (\<lambda>body_len.
     if MAX_RECORD_BODY_LEN < body_len then Inl (invalid_input ''record is too large'')
     else Inr (frame_of_body body)))"

text \<open>
  A file open for reading: its content and the position of the handle. \<^verbatim>\<open>read_exact\<close> fails with
  \<^verbatim>\<open>UnexpectedEof\<close> (here \<open>None\<close>) when fewer bytes are left than asked for; it has then read them.
\<close>

record Reader =
  rd_content :: bytes
  rd_pos :: nat

definition read_exact :: "nat \<Rightarrow> Reader \<Rightarrow> bytes option \<times> Reader" where
  "read_exact n f =
     (if rd_pos f + n \<le> length (rd_content f)
      then (Some (take n (drop (rd_pos f) (rd_content f))), f\<lparr>rd_pos := rd_pos f + n\<rparr>)
      else (None, f\<lparr>rd_pos := max (rd_pos f) (length (rd_content f))\<rparr>))"

text \<open>\<^verbatim>\<open>file.take(n).read_to_end\<close>: at most \<open>n\<close> bytes.\<close>

definition read_up_to :: "nat \<Rightarrow> Reader \<Rightarrow> bytes \<times> Reader" where
  "read_up_to n f =
     (let bs = take n (drop (rd_pos f) (rd_content f)) in (bs, f\<lparr>rd_pos := rd_pos f + length bs\<rparr>))"

text \<open>
  The two frame readers. Their state is the file handle and the counters; the counters are absent
  where the source passes \<^verbatim>\<open>None\<close>.
\<close>

definition read_record_body :: "(Reader \<times> StorageMetrics option, bytes option) io" where
  "read_record_body s =
     (let (f, m) = s in
      case read_exact 4 f of (None, f) \<Rightarrow> (Inr None, f, m) | (Some header, f) \<Rightarrow>
      let body_len = from_le_bytes header :: u32 in
      if MAX_RECORD_BODY_LEN < body_len then (Inl (invalid_data ''segment record is too large''), f, m)
      else case read_exact 4 f of (None, f) \<Rightarrow> (Inr None, f, m) | (Some checksum, f) \<Rightarrow>
      let expected_checksum = from_le_bytes checksum :: u32;
          (body, f) = read_up_to (unat body_len) f in
      if length body \<noteq> unat body_len then (Inr None, f, m)
      else if crc32c body \<noteq> expected_checksum
      then (Inl (invalid_data ''segment record checksum mismatch''), f, map_option checksum_failed m)
      else (Inr (Some body), f, m))"

function scan_body_loop :: "nat \<Rightarrow> Crc32c_acc \<Rightarrow> Reader \<Rightarrow> Crc32c_acc option \<times> Reader" where
  "scan_body_loop remaining crc f =
     (if remaining = 0 then (Some crc, f)
      else let read_len = min remaining 8192 in
        case read_exact read_len f of
          (Some buffer, f) \<Rightarrow> scan_body_loop (remaining - read_len) (crc_update crc buffer) f
        | (None, f) \<Rightarrow> (None, f))"
  by pat_completeness auto
termination
  by (relation "measure (\<lambda>(remaining, crc, f). remaining)") auto

declare scan_body_loop.simps [simp del]

definition scan_record_frame :: "(Reader \<times> StorageMetrics, unit option) io" where
  "scan_record_frame s =
     (let (f, m) = s in
      case read_exact 4 f of (None, f) \<Rightarrow> (Inr None, f, m) | (Some header, f) \<Rightarrow>
      let body_len = from_le_bytes header :: u32 in
      if MAX_RECORD_BODY_LEN < body_len then (Inl (invalid_data ''segment record is too large''), f, m)
      else case read_exact 4 f of (None, f) \<Rightarrow> (Inr None, f, m) | (Some checksum, f) \<Rightarrow>
      let expected_checksum = from_le_bytes checksum :: u32 in
      case scan_body_loop (unat body_len) crc_new f of
        (None, f) \<Rightarrow> (Inr None, f, m)
      | (Some crc, f) \<Rightarrow>
          if crc_value crc \<noteq> expected_checksum
          then (Inl (invalid_data ''segment record checksum mismatch''), f, checksum_failed m)
          else (Inr (Some ()), f, m))"

text \<open>\<^verbatim>\<open>frame_len_from_body\<close>: the header length and the body; it fits for every body that was read.\<close>

definition frame_len_from_body :: "bytes \<Rightarrow> u64 io_result" where
  "frame_len_from_body body =
     ok_or (u64_try_from (8 + length body)) (invalid_data ''segment frame length overflow'')"

end
