(* ===== verification/Codec_Laws.thy ===== *)
theory Codec_Laws
  imports Codec
begin

text \<open>
  Round trips of the record encoding, the exact behaviour of the frame readers on encoded frames,
  and the classification of the codec's errors.
\<close>

section \<open>Composition\<close>

definition encoder_inv :: "Encoder \<Rightarrow> bool" where
  "encoder_inv e \<longleftrightarrow> unat (enc_len e) = length (enc_bytes e) \<and> enc_len e \<le> MAX_RECORD_BODY_LEN"

definition remaining :: "Decoder \<Rightarrow> bytes" where
  "remaining d = drop (dec_position d) (dec_bytes d)"

definition decoder_ok :: "Decoder \<Rightarrow> bool" where
  "decoder_ok d \<longleftrightarrow> dec_position d \<le> length (dec_bytes d) \<and> length (dec_bytes d) < 2 ^ 64"

definition advance :: "Decoder \<Rightarrow> nat \<Rightarrow> Decoder" where
  "advance d n = d\<lparr>dec_position := dec_position d + n\<rparr>"

text \<open>\<open>dec\<close> reads \<open>bs\<close> as the value \<open>v\<close>, and no byte more, whatever follows.\<close>

definition decodes :: "(Decoder \<Rightarrow> 'v decoded) \<Rightarrow> 'v \<Rightarrow> bytes \<Rightarrow> bool" where
  "decodes dec v bs \<longleftrightarrow>
     (\<forall>d rest. decoder_ok d \<longrightarrow> remaining d = bs @ rest \<longrightarrow> dec d = Inr (v, advance d (length bs)))"

text \<open>Whenever the encoding step \<open>m\<close> succeeds, it appends bytes that \<open>dec\<close> reads as \<open>v\<close>.\<close>

definition codes :: "(Encoder \<Rightarrow> Encoder io_result) \<Rightarrow> (Decoder \<Rightarrow> 'v decoded) \<Rightarrow> 'v \<Rightarrow> bool" where
  "codes m dec v \<longleftrightarrow>
     (\<forall>e e'. encoder_inv e \<longrightarrow> m e = Inr e' \<longrightarrow>
        encoder_inv e' \<and> (\<exists>bs. enc_bytes e' = enc_bytes e @ bs \<and> decodes dec v bs))"

lemma remaining_fits:
  assumes "decoder_ok d" and "remaining d = bs @ rest"
  shows "dec_position d + length bs \<le> length (dec_bytes d)"
proof -
  have "length (remaining d) = length bs + length rest" using assms(2) by simp
  then show ?thesis using assms(1) by (auto simp: remaining_def decoder_ok_def)
qed

lemma remaining_advance:
  assumes "decoder_ok d" and "remaining d = bs @ rest"
  shows "decoder_ok (advance d (length bs))" and "remaining (advance d (length bs)) = rest"
proof -
  show "decoder_ok (advance d (length bs))"
    using assms(1) remaining_fits [OF assms] by (simp add: decoder_ok_def advance_def)
  show "remaining (advance d (length bs)) = rest"
    using arg_cong [OF assms(2), of "drop (length bs)"] by (simp add: remaining_def advance_def add.commute)
qed

lemma advance_advance [simp]: "advance (advance d m) n = advance d (m + n)"
  by (simp add: advance_def)

lemma decodes_bind:
  assumes "decodes dec v bs" and "decodes (f v) w cs"
  shows "decodes (\<lambda>d. rbind (dec d) (\<lambda>(x, d). f x d)) w (bs @ cs)"
  unfolding decodes_def
proof (intro allI impI)
  fix d rest assume d: "decoder_ok d" "remaining d = (bs @ cs) @ rest"
  then have "dec d = Inr (v, advance d (length bs))"
    using assms(1) by (simp add: decodes_def)
  moreover have "f v (advance d (length bs)) = Inr (w, advance d (length bs + length cs))"
    using assms(2) remaining_advance [OF d(1), of bs "cs @ rest"] d(2) by (simp add: decodes_def)
  ultimately show "rbind (dec d) (\<lambda>(x, d). f x d) = Inr (w, advance d (length (bs @ cs)))"
    by simp
qed

lemma decodes_return: "decodes (\<lambda>d. Inr (v, d)) v []"
  by (simp add: decodes_def advance_def)

lemma codes_bind:
  assumes "codes m dec v" and "codes m' (f v) w"
  shows "codes (\<lambda>e. rbind (m e) m') (\<lambda>d. rbind (dec d) (\<lambda>(x, d). f x d)) w"
  unfolding codes_def
proof (intro allI impI)
  fix e e'' assume e: "encoder_inv e" and "rbind (m e) m' = Inr e''"
  then obtain e' where e': "m e = Inr e'" "m' e' = Inr e''" by (auto simp: result_simps)
  obtain bs where bs: "encoder_inv e'" "enc_bytes e' = enc_bytes e @ bs" "decodes dec v bs"
    using assms(1) e e'(1) by (auto simp: codes_def)
  obtain cs where cs: "encoder_inv e''" "enc_bytes e'' = enc_bytes e' @ cs" "decodes (f v) w cs"
    using assms(2) bs(1) e'(2) by (auto simp: codes_def)
  show "encoder_inv e'' \<and>
      (\<exists>bs. enc_bytes e'' = enc_bytes e @ bs \<and> decodes (\<lambda>d. rbind (dec d) (\<lambda>(x, d). f x d)) w bs)"
    using bs cs decodes_bind [where f = f and w = w, OF bs(3) cs(3)] by auto
qed

lemma codes_return: "codes Inr (\<lambda>d. Inr (v, d)) v"
  using decodes_return by (auto simp: codes_def)

text \<open>A last encoding step, after which the decoding side only builds or checks its result.\<close>

lemma codes_last:
  assumes "codes m dec v" and "\<And>d. f v d = Inr (w, d)"
  shows "codes m (\<lambda>d. rbind (dec d) (\<lambda>(x, d). f x d)) w"
proof -
  have "(\<lambda>e. rbind (m e) Inr) = m"
    by (rule ext) (metis obj_sumE rbind.simps)
  moreover have "codes Inr (f v) w"
    using codes_return [of w] assms(2) by (simp add: codes_def decodes_def)
  ultimately show ?thesis
    using codes_bind [where f = f, OF assms(1)] by metis
qed

lemma codes_map:
  "codes m dec v \<Longrightarrow> codes m (\<lambda>d. rbind (dec d) (\<lambda>(x, d). Inr (g x, d))) (g v)"
  by (erule codes_last) simp

lemma codes_check:
  "codes m dec v \<Longrightarrow> g v = Inr w \<Longrightarrow>
     codes m (\<lambda>d. rbind (dec d) (\<lambda>(x, d). rbind (map_err h (g x)) (\<lambda>y. Inr (y, d)))) w"
  by (erule codes_last) simp

lemma codes_guard:
  "(g = Inr () \<Longrightarrow> codes m dec v) \<Longrightarrow> codes (\<lambda>e. rbind g (\<lambda>_. m e)) dec v"
  by (cases g) (auto simp: codes_def)

lemma codes_cong_dec:
  assumes "codes m dec v" and "\<And>d. dec' d = dec d"
  shows "codes m dec' v"
  using assms by (simp add: codes_def decodes_def)

section \<open>Primitive encodings\<close>

lemma MAX_len [simp]: "unat MAX_RECORD_BODY_LEN = 2 ^ 30"
  by (simp add: MAX_RECORD_BODY_LEN_def)

lemma check_append_len_ok:
  assumes "encoder_inv e" and "check_append_len n e = Inr len"
  shows "unat len = length (enc_bytes e) + n" and "len \<le> MAX_RECORD_BODY_LEN"
  using assms
  by (auto simp: check_append_len_def result_simps encoder_inv_def not_less unat_of_nat_u32 dest!: unat_checked_add split: if_splits)

lemma put_slice_ok:
  assumes "encoder_inv e" and "put_slice bs e = Inr e'"
  shows "encoder_inv e'" and "enc_bytes e' = enc_bytes e @ bs"
  using assms check_append_len_ok [OF assms(1)]
  by (auto simp: put_slice_def result_simps encoder_inv_def)

lemma Decoder_take_ok: "decodes (Decoder_take (length bs)) bs bs"
  unfolding decodes_def
proof (intro allI impI)
  fix d rest assume d: "decoder_ok d" "remaining d = bs @ rest"
  show "Decoder_take (length bs) d = Inr (bs, advance d (length bs))"
    using d remaining_fits [OF d] by (simp add: Decoder_take_def decoder_ok_def remaining_def advance_def Let_def)
qed

lemma codes_put_slice: "decodes dec v bs \<Longrightarrow> codes (put_slice bs) dec v"
  using put_slice_ok by (fastforce simp: codes_def)

lemma decodes_take:
  assumes "length bs = n"
  shows "decodes (\<lambda>d. rbind (Decoder_take n d) (\<lambda>(x, d). Inr (g x, d))) (g bs) bs"
  using decodes_bind [where f = "\<lambda>x d. Inr (g x, d)", OF Decoder_take_ok [of bs] decodes_return] assms
  by simp

lemma codes_u8: "codes (put_u8 v) get_u8 v"
  unfolding put_u8_def
  by (rule codes_put_slice) (use decodes_take [of "[v]" 1 hd] in \<open>simp add: get_u8_def [abs_def]\<close>)

lemma codes_u32: "codes (put_u32 v) get_u32 v"
  unfolding put_u32_def
  by (rule codes_put_slice) (use decodes_take [of "to_le_bytes 4 v" 4 "from_le_bytes :: bytes \<Rightarrow> u32"] in \<open>simp add: get_u32_def [abs_def]\<close>)

lemma codes_u64: "codes (put_u64 v) get_u64 v"
  unfolding put_u64_def
  by (rule codes_put_slice) (use decodes_take [of "to_le_bytes 8 v" 8 "from_le_bytes :: bytes \<Rightarrow> u64"] in \<open>simp add: get_u64_def [abs_def]\<close>)

lemma decodes_u32: "decodes get_u32 v (to_le_bytes 4 v)"
  using decodes_take [of "to_le_bytes 4 v" 4 "from_le_bytes :: bytes \<Rightarrow> u32"] by (simp add: get_u32_def [abs_def])

lemma codes_bytes: "codes (put_bytes bs) get_bytes bs"
  unfolding codes_def
proof (intro allI impI)
  fix e e' assume e: "encoder_inv e" and put: "put_bytes bs e = Inr e'"
  let ?len = "of_nat (length bs) :: u32"
  obtain new_len where len: "length bs < 2 ^ 32" "?len \<le> MAX_RECORD_BODY_LEN"
    and chk: "check_append_len (4 + length bs) e = Inr new_len"
    and e': "e' = e\<lparr>enc_bytes := enc_bytes e @ to_le_bytes 4 ?len @ bs, enc_len := new_len\<rparr>"
    using put by (auto simp: put_bytes_def result_simps not_less split: if_splits)
  have unat_len: "unat ?len = length bs" using len(1) by (simp add: unat_of_nat take_bit_nat_eq_self)
  have "encoder_inv e'"
    using check_append_len_ok [OF e chk] by (simp add: e' encoder_inv_def)
  moreover have "decodes get_bytes bs (to_le_bytes 4 ?len @ bs)"
    unfolding get_bytes_def [abs_def]
    using len(2) unat_len Decoder_take_ok [of bs]
    by (intro decodes_bind [OF decodes_u32]) (simp add: leD)
  ultimately show "encoder_inv e' \<and> (\<exists>cs. enc_bytes e' = enc_bytes e @ cs \<and> decodes get_bytes bs cs)"
    by (auto simp: e')
qed

lemma codes_count: "codes (encode_count n err) (decode_count err') (of_nat n)"
  unfolding codes_def
proof (intro allI impI)
  fix e e' assume e: "encoder_inv e" and "encode_count n err e = Inr e'"
  then have le: "\<not> MAX_COUNT_ITEMS < of_nat n" and put: "put_u32 (of_nat n) e = Inr e'"
    by (auto simp: encode_count_def result_simps split: if_splits)
  obtain bs where bs: "encoder_inv e'" "enc_bytes e' = enc_bytes e @ bs" "decodes get_u32 (of_nat n) bs"
    using codes_u32 e put by (fastforce simp: codes_def)
  have "decodes (decode_count err') (of_nat n) (bs @ [])"
    unfolding decode_count_def [abs_def]
    by (rule decodes_bind [OF bs(3)]) (use le decodes_return in simp)
  then show "encoder_inv e' \<and> (\<exists>bs. enc_bytes e' = enc_bytes e @ bs \<and> decodes (decode_count err') (of_nat n) bs)"
    using bs by auto
qed

lemma encode_count_small: "encode_count n err e = Inr e' \<Longrightarrow> n < 2 ^ 32"
  by (auto simp: encode_count_def result_simps)

section \<open>Repetition\<close>

text \<open>
  What a client of an element encoding relies on: the elements in the domain \<open>ok\<close> round-trip. The
  counted loops that write and read a sequence of elements then round-trip too, for every way
  the reading loop accumulates them.
\<close>

locale codec =
  fixes enc :: "'v \<Rightarrow> Encoder \<Rightarrow> Encoder io_result"
    and dec :: "Decoder \<Rightarrow> 'v decoded"
    and ok :: "'v \<Rightarrow> bool"
  assumes element: "ok v \<Longrightarrow> codes (enc v) dec v"
    and sound: "dec d = Inr (v, d') \<Longrightarrow> ok v"
begin

lemma codes_each:
  assumes "\<And>v. v \<in> set vs \<Longrightarrow> ok v" and "fold_result stp acc vs = Inr acc'"
  shows "codes (encode_each enc vs) (decode_repeat (length vs) dec stp acc) acc'"
  using assms
proof (induction vs arbitrary: acc)
  case Nil
  then have eq: "encode_each enc [] = Inr" "decode_repeat (length ([] :: 'v list)) dec stp acc = (\<lambda>d. Inr (acc', d))"
    by (auto simp: fun_eq_iff)
  show ?case unfolding eq by (rule codes_return)
next
  case (Cons v vs)
  then obtain acc1 where step: "stp acc v = Inr acc1" and rest: "fold_result stp acc1 vs = Inr acc'"
    by (auto simp: result_simps)
  have eq: "encode_each enc (v # vs) = (\<lambda>e. rbind (enc v e) (encode_each enc vs))"
    "decode_repeat (length (v # vs)) dec stp acc =
      (\<lambda>d. rbind (dec d) (\<lambda>(v, d). rbind (stp acc v) (\<lambda>acc. decode_repeat (length vs) dec stp acc d)))"
    by (auto simp: fun_eq_iff)
  have tail: "codes (encode_each enc vs) (\<lambda>d. rbind (stp acc v) (\<lambda>acc. decode_repeat (length vs) dec stp acc d)) acc'"
    using Cons.IH [OF _ rest] Cons.prems(1) by (simp add: step)
  show ?case unfolding eq
    using Cons.prems(1)
    by (intro codes_bind [where f = "\<lambda>v d. rbind (stp acc v) (\<lambda>acc. decode_repeat (length vs) dec stp acc d)",
          OF element tail]) simp
qed

lemma codes_counted:
  assumes "\<And>v. v \<in> set vs \<Longrightarrow> ok v" and "fold_result stp acc vs = Inr acc'"
    and "length vs < 2 ^ 32 \<Longrightarrow> f (of_nat (length vs)) = decode_repeat (length vs) dec stp acc"
  shows "codes (\<lambda>e. rbind (encode_count (length vs) err e) (encode_each enc vs))
    (\<lambda>d. rbind (decode_count err' d) (\<lambda>(len, d). f len d)) acc'"
proof (cases "length vs < 2 ^ 32")
  case True
  have "codes (encode_each enc vs) (f (of_nat (length vs))) acc'"
    unfolding assms(3) [OF True] by (rule codes_each [OF assms(1,2)])
  then show ?thesis by (rule codes_bind [OF codes_count])
next
  case False
  then have "encode_count (length vs) err e \<noteq> Inr e'" for e e'
    using encode_count_small by blast
  then show ?thesis by (auto simp: codes_def result_simps)
qed

text \<open>What a reading loop returns is the accumulation of elements of the domain.\<close>

lemma repeat_elements:
  "decode_repeat n dec stp acc d = Inr (acc', d') \<Longrightarrow>
     \<exists>vs. length vs = n \<and> list_all ok vs \<and> fold_result stp acc vs = Inr acc'"
proof (induction n arbitrary: acc d)
  case 0
  then show ?case by simp
next
  case (Suc n)
  then obtain v d1 acc1 where v: "dec d = Inr (v, d1)" "stp acc v = Inr acc1"
    and rest: "decode_repeat n dec stp acc1 d1 = Inr (acc', d')"
    by (auto simp: result_simps)
  obtain vs where "length vs = n" "list_all ok vs" "fold_result stp acc1 vs = Inr acc'"
    using Suc.IH [OF rest] by blast
  then show ?case using v sound by (intro exI [of _ "v # vs"]) auto
qed

end

section \<open>Round trips of the encoded types\<close>

lemma codes_term: "codes (encode_term t) decode_term t"
  by (simp add: encode_term_def decode_term_def codes_u64)

lemma codes_node_id: "codes (encode_node_id n) decode_node_id n"
  by (simp add: encode_node_id_def decode_node_id_def codes_u64)

lemma codes_log_index: "codes (encode_log_index i) decode_log_index i"
  by (simp add: encode_log_index_def decode_log_index_def codes_u64)

interpretation node_id: codec encode_node_id decode_node_id "\<lambda>_. True"
  by unfold_locales (auto intro: codes_node_id)

text \<open>Two encodings in sequence, combined by a constructor.\<close>

lemma codes_pair:
  assumes "codes m dec v" and "codes m' dec' w"
  shows "codes (\<lambda>e. rbind (m e) m') (\<lambda>d. rbind (dec d) (\<lambda>(x, d). rbind (dec' d) (\<lambda>(y, d). Inr (g x y, d)))) (g v w)"
  by (rule codes_bind [OF assms(1)]) (rule codes_map [OF assms(2), of "g v"])

lemma codes_triple:
  assumes "codes m dec v" and "codes m' dec' w" and "codes m'' dec'' u"
  shows "codes (\<lambda>e. rbind (m e) (\<lambda>e. rbind (m' e) m''))
    (\<lambda>d. rbind (dec d) (\<lambda>(x, d). rbind (dec' d) (\<lambda>(y, d). rbind (dec'' d) (\<lambda>(z, d). Inr (g x y z, d))))) (g v w u)"
  by (rule codes_bind [OF assms(1)]) (rule codes_pair [OF assms(2,3), of "g v"])

lemma codes_log_position: "codes (encode_log_position p) decode_log_position p"
  using codes_pair [OF codes_term codes_log_index, of "pos_term p" "pos_index p"
      "\<lambda>t i. \<lparr>pos_term = t, pos_index = i\<rparr>"]
  by (cases p) (simp add: encode_log_position_def [abs_def] decode_log_position_def [abs_def])

lemma fold_insert_nodes:
  "bts_wf (ns @ nodes) \<Longrightarrow> fold_result insert_new_node ns nodes = Inr (ns @ nodes)"
proof (induction nodes arbitrary: ns)
  case Nil
  show ?case by simp
next
  case (Cons n nodes)
  then have less: "\<And>x. x \<in> set ns \<Longrightarrow> x < n" by (auto simp: sorted_wrt_append)
  then have "insert_new_node ns n = Inr (ns @ [n])"
    by (auto simp: insert_new_node_def bts_insert_snoc)
  with Cons show ?case by simp
qed

lemma codes_node_id_set:
  assumes "bts_wf nodes"
  shows "codes (encode_node_id_set nodes) decode_node_id_set nodes"
  unfolding encode_node_id_set_def [abs_def] decode_node_id_set_def [abs_def]
  using fold_insert_nodes [of "[]" nodes] assms
  by (intro node_id.codes_counted) (simp_all add: unat_of_nat_u32)

definition config_wf :: "ClusterConfig \<Rightarrow> bool" where
  "config_wf c \<longleftrightarrow> bts_wf (voters c) \<and> bts_wf (new_voters c) \<and> bts_wf (non_voters c)"

lemma codes_cluster_config:
  assumes "config_wf c"
  shows "codes (encode_cluster_config c) decode_cluster_config c"
  using assms codes_triple [of "encode_node_id_set (voters c)" _ _ "encode_node_id_set (new_voters c)" _ _
      "encode_node_id_set (non_voters c)" decode_node_id_set "non_voters c"
      "\<lambda>vs nvs nons. \<lparr>voters = vs, new_voters = nvs, non_voters = nons\<rparr>", OF codes_node_id_set codes_node_id_set codes_node_id_set]
  by (cases c) (simp add: config_wf_def encode_cluster_config_def [abs_def] decode_cluster_config_def [abs_def])

text \<open>A tag byte selects the reader of the rest.\<close>

lemma codes_tagged:
  assumes "codes m (f t) v"
  shows "codes (\<lambda>e. rbind (put_u8 t e) m) (\<lambda>d. rbind (get_u8 d) (\<lambda>(tag, d). f tag d)) v"
  by (rule codes_bind [where f = f, OF codes_u8 assms])

lemma codes_tag_only:
  assumes "f t = (\<lambda>d. Inr (v, d))"
  shows "codes (put_u8 t) (\<lambda>d. rbind (get_u8 d) (\<lambda>(tag, d). f tag d)) v"
  by (rule codes_last [where f = f, OF codes_u8]) (simp add: assms)

lemma codes_optional_node_id: "codes (encode_optional_node_id v) decode_optional_node_id v"
proof (cases v)
  case None
  then show ?thesis
    unfolding encode_optional_node_id_def [abs_def] decode_optional_node_id_def [abs_def]
    by (simp add: codes_tag_only)
next
  case (Some n)
  then show ?thesis
    unfolding encode_optional_node_id_def [abs_def] decode_optional_node_id_def [abs_def]
    by (simp add: codes_tagged codes_map codes_node_id)
qed

fun entry_wf :: "LogEntry \<Rightarrow> bool" where
  "entry_wf (ClusterConfigEntry c) = config_wf c"
| "entry_wf _ = True"

lemma codes_log_entry: "entry_wf x \<Longrightarrow> codes (encode_log_entry x) decode_log_entry x"
proof (cases x)
  case (TermEntry t)
  then have "encode_log_entry x = (\<lambda>e. rbind (put_u8 0 e) (encode_term t))" by auto
  with TermEntry show ?thesis
    unfolding decode_log_entry_def [abs_def] by (simp add: codes_tagged codes_map codes_term)
next
  case (ClusterConfigEntry c)
  then have "encode_log_entry x = (\<lambda>e. rbind (put_u8 1 e) (encode_cluster_config c))" by auto
  moreover assume "entry_wf x"
  ultimately show ?thesis using ClusterConfigEntry
    unfolding decode_log_entry_def [abs_def] by (simp add: codes_tagged codes_map codes_cluster_config)
next
  case CommandEntry
  then have "encode_log_entry x = put_u8 2" by auto
  with CommandEntry show ?thesis
    unfolding decode_log_entry_def [abs_def] by (simp add: codes_tag_only)
qed

text \<open>The node sets that decoding builds are ordered sets.\<close>

lemma fold_result_inv:
  assumes "fold_result f acc vs = Inr acc'" and "I acc"
    and step: "\<And>acc v acc'. I acc \<Longrightarrow> f acc v = Inr acc' \<Longrightarrow> I acc'"
  shows "I acc'"
  using assms(1,2)
proof (induction vs arbitrary: acc)
  case Nil
  then show ?case by simp
next
  case (Cons v vs)
  then obtain acc1 where acc1: "f acc v = Inr acc1" "fold_result f acc1 vs = Inr acc'"
    by (auto simp: result_simps)
  from step [OF Cons.prems(2) acc1(1)] show ?case by (rule Cons.IH [OF acc1(2)])
qed

lemma decode_node_id_set_wf: "decode_node_id_set d = Inr (nodes, d') \<Longrightarrow> bts_wf nodes"
proof -
  assume "decode_node_id_set d = Inr (nodes, d')"
  then obtain n d1 where "decode_repeat n decode_node_id insert_new_node [] d1 = Inr (nodes, d')"
    by (auto simp: decode_node_id_set_def result_simps)
  from node_id.repeat_elements [OF this] obtain vs where "fold_result insert_new_node [] vs = Inr nodes"
    by blast
  then show ?thesis
    by (rule fold_result_inv [where I = bts_wf])
      (auto simp: insert_new_node_def result_simps intro: bts_wf_insert)
qed

lemma decode_cluster_config_wf: "decode_cluster_config d = Inr (c, d') \<Longrightarrow> config_wf c"
  by (auto simp: decode_cluster_config_def config_wf_def result_simps dest!: decode_node_id_set_wf)

lemma decode_log_entry_wf: "decode_log_entry d = Inr (x, d') \<Longrightarrow> entry_wf x"
  by (auto simp: decode_log_entry_def result_simps split: if_splits dest: decode_cluster_config_wf)

interpretation log_entry: codec encode_log_entry decode_log_entry entry_wf
  by unfold_locales (auto intro: codes_log_entry decode_log_entry_wf)

definition entries_wf :: "('le, 'lg) noraft \<Rightarrow> 'le \<Rightarrow> bool" where
  "entries_wf N e \<longleftrightarrow> list_all entry_wf (entries_iter N e)"

lemma codes_log_entries:
  assumes laws: "noraft_laws N" and wf: "entries_wf N es"
  shows "codes (encode_log_entries N es) (decode_log_entries N) es"
proof -
  let ?p = "entries_prev_position N es" and ?xs = "entries_iter N es"
  have len: "entries_len N es = length ?xs"
    using noraft_lawsD(2) [OF laws] by (simp add: observer_laws_def)
  have fold: "fold_result (\<lambda>entries x. Inr (entries_push N entries x)) (entries_new N ?p) ?xs = Inr es"
    using entries_of_iter [OF noraft_lawsD(1) [OF laws], of es]
    by (simp add: fold_result_total [where g = "entries_push N"] entries_of_def)
  have fits: "checked_add (pos_index ?p) (ucast (of_nat (length ?xs) :: u32)) \<noteq> None" if "length ?xs < 2 ^ 32"
    using that entries_fit [OF noraft_lawsD(1) [OF laws], of es]
    by (simp add: checked_add_def unat_of_nat_u32)
  show ?thesis
    unfolding encode_log_entries_def [abs_def] decode_log_entries_def [abs_def] len
    using wf fits
    by (intro codes_bind [OF codes_log_position] log_entry.codes_counted [OF _ fold])
      (auto simp: entries_wf_def list_all_iff unat_of_nat_u32)
qed

lemma codes_payload: "codes (encode_payload ip) decode_payload ip"
  using codes_triple [OF codes_log_index codes_u8 codes_bytes, of "fst ip" "cp_tag (snd ip)" "cp_bytes (snd ip)"
      "\<lambda>i tag bs. (i, \<lparr>cp_tag = tag, cp_bytes = bs\<rparr>)"]
  by (cases ip; cases "snd ip") (simp add: encode_payload_def [abs_def] decode_payload_def [abs_def])

interpretation payload: codec encode_payload decode_payload "\<lambda>_. True"
  by unfold_locales (auto intro: codes_payload)

lemma fold_insert_payloads:
  "bt_wf (m @ ps) \<Longrightarrow> fold_result insert_new_payload m ps = Inr (m @ ps)"
proof (induction ps arbitrary: m)
  case Nil
  show ?case by simp
next
  case (Cons ip ps)
  then have less: "\<And>x. x \<in> fst ` set m \<Longrightarrow> x < fst ip" by (auto simp: sorted_wrt_append)
  then have "bt_get m (fst ip) = None"
    by (metis less_irrefl map_of_eq_None_iff)
  then have "insert_new_payload m ip = Inr (m @ [ip])"
    using less by (simp add: insert_new_payload_def bt_insert_snoc)
  with Cons show ?case by simp
qed

definition append_wf :: "('le, 'lg) noraft \<Rightarrow> 'le LogAppend \<Rightarrow> bool" where
  "append_wf N a \<longleftrightarrow> bt_wf (la_command_payloads a) \<and> entries_wf N (la_entries a)"

lemma codes_log_append:
  assumes laws: "noraft_laws N" and wf: "append_wf N a"
  shows "codes (encode_log_append N a) (decode_log_append N) a"
  unfolding encode_log_append_def [abs_def]
proof (rule codes_guard)
  assume valid: "LogAppend_validate N a = Inr ()"
  let ?es = "la_entries a" and ?ps = "la_command_payloads a"
  have new: "LogAppend_new N ?es ?ps = Inr a"
    using valid by (cases a) (simp add: LogAppend_new_def)
  have fold: "fold_result insert_new_payload [] ?ps = Inr ?ps"
    using fold_insert_payloads [of "[]" ?ps] wf by (simp add: append_wf_def)
  have payloads: "codes (\<lambda>e. rbind (encode_count (length ?ps) ''too many command payloads'' e) (encode_each encode_payload ?ps))
      (\<lambda>d. rbind (decode_count ''too many command payloads'' d) (\<lambda>(n, d). decode_repeat (unat n) decode_payload insert_new_payload [] d)) ?ps"
    by (rule payload.codes_counted [OF _ fold]) (simp_all add: unat_of_nat_u32)
  have "codes (\<lambda>e. rbind (encode_count (length ?ps) ''too many command payloads'' e) (encode_each encode_payload ?ps))
      (\<lambda>d. rbind (decode_count ''too many command payloads'' d) (\<lambda>(n, d).
         rbind (decode_repeat (unat n) decode_payload insert_new_payload [] d) (\<lambda>(ps, d).
         rbind (map_err (\<lambda>_. invalid_data ''invalid command payload mapping'') (LogAppend_new N ?es ps)) (\<lambda>a. Inr (a, d))))) a"
    using codes_check [where g = "LogAppend_new N ?es" and h = "\<lambda>_. invalid_data ''invalid command payload mapping''", OF payloads new]
    by (simp add: rbind_assoc split_def)
  then show "codes (\<lambda>e. rbind (encode_log_entries N ?es e) (\<lambda>e. rbind (encode_count (length ?ps) ''too many command payloads'' e)
      (encode_each encode_payload ?ps))) (decode_log_append N) a"
    unfolding decode_log_append_def [abs_def]
    using wf by (intro codes_bind [OF codes_log_entries [OF laws]]) (simp_all add: append_wf_def)
qed

lemma codes_snapshot:
  assumes "config_wf (sn_config sn)"
  shows "codes (encode_snapshot sn) decode_snapshot sn"
  using codes_triple [OF codes_log_position codes_cluster_config [OF assms] codes_bytes, of "sn_last_included sn" "sn_data sn"
      "\<lambda>p c bs. \<lparr>sn_last_included = p, sn_config = c, sn_data = bs\<rparr>"]
  by (cases sn) (simp add: encode_snapshot_def [abs_def] decode_snapshot_def [abs_def])

definition checkpoint_wf :: "('le, 'lg) noraft \<Rightarrow> 'le SnapshotCheckpoint \<Rightarrow> bool" where
  "checkpoint_wf N c \<longleftrightarrow> config_wf (sn_config (sc_snapshot c)) \<and> append_wf N (sc_suffix c)"

lemma codes_snapshot_checkpoint:
  assumes laws: "noraft_laws N" and wf: "checkpoint_wf N c"
  shows "codes (encode_snapshot_checkpoint N c) (decode_snapshot_checkpoint N) c"
  unfolding encode_snapshot_checkpoint_def [abs_def] decode_snapshot_checkpoint_def [abs_def]
proof (rule codes_guard, rule codes_bind [OF codes_term], rule codes_bind [OF codes_optional_node_id],
    rule codes_bind [OF codes_snapshot], goal_cases)
  case 1
  then show ?case using wf by (simp add: checkpoint_wf_def)
next
  case 2
  show ?case
    using wf 2 by (intro codes_last [OF codes_log_append [OF laws]]) (cases c; auto simp: checkpoint_wf_def)+
qed

fun record_wf :: "('le, 'lg) noraft \<Rightarrow> 'le Record \<Rightarrow> bool" where
  "record_wf N (Append a) = append_wf N a"
| "record_wf N (Checkpoint c) = checkpoint_wf N c"
| "record_wf N _ = True"

lemma codes_record:
  assumes "noraft_laws N" and "record_wf N r"
  shows "codes (encode_record N r) (decode_record N) r"
proof (cases r)
  case (CurrentTerm t)
  then have "encode_record N r = (\<lambda>e. rbind (put_u8 0 e) (encode_term t))" by auto
  then show ?thesis
    unfolding decode_record_def [abs_def] by (simp add: CurrentTerm codes_tagged codes_map codes_term)
next
  case (VotedFor v)
  then have "encode_record N r = (\<lambda>e. rbind (put_u8 1 e) (encode_optional_node_id v))" by auto
  then show ?thesis
    unfolding decode_record_def [abs_def] by (simp add: VotedFor codes_tagged codes_map codes_optional_node_id)
next
  case (Append a)
  then have "encode_record N r = (\<lambda>e. rbind (put_u8 2 e) (encode_log_append N a))" by auto
  then show ?thesis
    using assms unfolding decode_record_def [abs_def] by (simp add: Append codes_tagged codes_map codes_log_append)
next
  case (Checkpoint c)
  then have "encode_record N r = (\<lambda>e. rbind (put_u8 3 e) (encode_snapshot_checkpoint N c))" by auto
  then show ?thesis
    using assms unfolding decode_record_def [abs_def] by (simp add: Checkpoint codes_tagged codes_map codes_snapshot_checkpoint)
qed

section \<open>Decoded records are well-formed\<close>

lemma decode_log_entries_wf:
  assumes laws: "noraft_laws N" and dec: "decode_log_entries N d = Inr (es, d')"
  shows "entries_wf N es"
proof -
  obtain p d1 len d2 where fit: "checked_add (pos_index p) (ucast (len :: u32)) \<noteq> None"
    and rep: "decode_repeat (unat len) decode_log_entry (\<lambda>es x. Inr (entries_push N es x)) (entries_new N p) d2 = Inr (es, d')"
    using dec by (auto simp: decode_log_entries_def result_simps split: if_splits)
  obtain xs where xs: "length xs = unat len" "list_all entry_wf xs"
    and fold: "fold_result (\<lambda>es x. Inr (entries_push N es x) :: _ io_result) (entries_new N p) xs = Inr es"
    using log_entry.repeat_elements [OF rep] by (elim exE conjE) (rule that)
  have "es = entries_of N p xs"
    using fold by (simp add: fold_result_total [where g = "entries_push N"] entries_of_def)
  moreover have "unat (pos_index p) + length xs < 2 ^ 64"
    using fit xs(1) by (simp add: checked_add_def split: if_splits)
  ultimately show ?thesis
    using entries_of_prev_iter [OF noraft_lawsD(1) [OF laws]] xs(2) by (simp add: entries_wf_def)
qed

lemma decode_log_append_wf:
  assumes "noraft_laws N" and "decode_log_append N d = Inr (a, d')"
  shows "append_wf N a" and "LogAppend_validate N a = Inr ()"
proof -
  obtain es d1 n d2 ps d3 where es: "decode_log_entries N d = Inr (es, d1)"
    and ps: "decode_repeat (unat (n :: u32)) decode_payload insert_new_payload [] d2 = Inr (ps, d3)"
    and new: "LogAppend_new N es ps = Inr a"
    using assms(2) by (auto simp: decode_log_append_def result_simps)
  obtain vs where "fold_result insert_new_payload [] vs = Inr ps"
    using payload.repeat_elements [OF ps] by blast
  then have "bt_wf ps"
    by (rule fold_result_inv [where I = bt_wf])
      (auto simp: insert_new_payload_def result_simps intro: bt_wf_insert)
  then show "append_wf N a"
    using new decode_log_entries_wf [OF assms(1) es] by (auto simp: LogAppend_new_def append_wf_def result_simps Let_def)
  show "LogAppend_validate N a = Inr ()"
    using new by (auto simp: LogAppend_new_def result_simps Let_def)
qed

text \<open>What \<^verbatim>\<open>encode_record\<close> checks of a record before it writes it.\<close>

fun record_valid :: "('le, 'lg) noraft \<Rightarrow> 'le Record \<Rightarrow> bool" where
  "record_valid N (Append a) \<longleftrightarrow> LogAppend_validate N a = Inr ()"
| "record_valid N (Checkpoint c) \<longleftrightarrow> SnapshotCheckpoint_validate N c = Inr ()"
| "record_valid N _ \<longleftrightarrow> True"

lemma decode_record_wf:
  assumes "noraft_laws N" and "decode_record N d = Inr (r, d')"
  shows "record_wf N r" and "record_valid N r"
proof -
  have "record_wf N r \<and> record_valid N r"
    using assms(2) decode_log_append_wf [OF assms(1)] decode_cluster_config_wf
    by (fastforce simp: decode_record_def decode_snapshot_checkpoint_def decode_snapshot_def checkpoint_wf_def
        result_simps Let_def split: if_splits)
  then show "record_wf N r" "record_valid N r" by simp_all
qed

lemma decode_node_record_wf:
  assumes "noraft_laws N" and "decode_node_record N bs = Inr nr"
  shows "record_wf N (nr_record nr)" and "record_valid N (nr_record nr)"
  using assms(2) decode_record_wf [OF assms(1)] by (auto simp: decode_node_record_def result_simps)

lemma record_wf_maps: "record_wf N r \<Longrightarrow> record_maps_wf r"
  by (cases r) (simp_all add: append_wf_def checkpoint_wf_def)

section \<open>Kinds of errors\<close>

definition fails_with :: "error_kind \<Rightarrow> ('s \<Rightarrow> 'a io_result) \<Rightarrow> bool" where
  "fails_with k f \<longleftrightarrow> (\<forall>s e. f s = Inl e \<longrightarrow> kind_of e = k)"

named_theorems fails_intros \<open>error kinds of composed computations\<close>

lemma fails_rbind [fails_intros]:
  "fails_with k m \<Longrightarrow> fails_with k f \<Longrightarrow> fails_with k (\<lambda>s. rbind (m s) f)"
  by (auto simp: fails_with_def result_simps)

lemma fails_split [fails_intros]:
  "(\<And>x. fails_with k (f x)) \<Longrightarrow> fails_with k (\<lambda>(x, d). f x d)"
  by (auto simp: fails_with_def)

lemma fails_if [fails_intros]:
  "fails_with k f \<Longrightarrow> fails_with k g \<Longrightarrow> fails_with k (\<lambda>s. if b s then f s else g s)"
  by (auto simp: fails_with_def)

lemma fails_values [fails_intros]:
  "fails_with k (\<lambda>s. Inr (h s))"
  "kind_of err = k \<Longrightarrow> fails_with k (\<lambda>s. Inl err)"
  "kind_of err = k \<Longrightarrow> fails_with k (\<lambda>s. ok_or (m s) err)"
  "kind_of err = k \<Longrightarrow> fails_with k (\<lambda>s. map_err (\<lambda>_. err) (n s))"
  by (auto simp: fails_with_def result_simps)

lemma fails_encode_each [fails_intros]:
  "(\<And>v. fails_with k (enc v)) \<Longrightarrow> fails_with k (encode_each enc vs)"
  by (induction vs) (auto simp: fails_with_def result_simps)

lemma fails_decode_repeat [fails_intros]:
  assumes "fails_with k dec" and "\<And>acc. fails_with k (stp acc)"
  shows "fails_with k (decode_repeat n dec stp acc)"
proof (induction n arbitrary: acc)
  case 0
  show ?case by (simp add: fails_with_def)
next
  case (Suc n)
  show ?case
    unfolding fails_with_def
  proof (intro allI impI)
    fix d e assume "decode_repeat (Suc n) dec stp acc d = Inl e"
    then consider "dec d = Inl e" | v where "stp acc v = Inl e" | acc1 d1 where "decode_repeat n dec stp acc1 d1 = Inl e"
      by (fastforce simp: result_simps)
    then show "kind_of e = k"
      using assms Suc by cases (auto simp: fails_with_def)
  qed
qed

text \<open>Reading a record fails with \<^verbatim>\<open>InvalidData\<close> only.\<close>

lemma fails_take [fails_intros]: "fails_with InvalidData (Decoder_take n)"
  unfolding Decoder_take_def [abs_def] by (auto simp: fails_with_def Let_def split: if_splits)

lemma fails_get [fails_intros]:
  "fails_with InvalidData get_u8" "fails_with InvalidData get_u32" "fails_with InvalidData get_u64"
  "fails_with InvalidData get_bytes"
  unfolding get_u8_def [abs_def] get_u32_def [abs_def] get_u64_def [abs_def] get_bytes_def [abs_def]
  by (intro fails_intros; simp)+

lemma fails_decode_scalars [fails_intros]:
  "fails_with InvalidData decode_term" "fails_with InvalidData decode_node_id"
  "fails_with InvalidData decode_log_index" "fails_with InvalidData (decode_count err)"
  "fails_with InvalidData decode_log_position" "fails_with InvalidData decode_optional_node_id"
  unfolding decode_term_def decode_node_id_def decode_log_index_def decode_count_def [abs_def]
    decode_log_position_def [abs_def] decode_optional_node_id_def [abs_def]
  by (intro fails_intros; simp)+

lemma fails_steps [fails_intros]:
  "fails_with InvalidData (insert_new_node nodes)" "fails_with InvalidData (insert_new_payload m)"
  unfolding insert_new_node_def [abs_def] insert_new_payload_def [abs_def]
  by (intro fails_intros; simp)+

lemma fails_decode_config [fails_intros]:
  "fails_with InvalidData decode_node_id_set" "fails_with InvalidData decode_cluster_config"
  "fails_with InvalidData decode_log_entry"
proof -
  show set: "fails_with InvalidData decode_node_id_set"
    unfolding decode_node_id_set_def [abs_def] by (intro fails_intros)
  show config: "fails_with InvalidData decode_cluster_config"
    unfolding decode_cluster_config_def [abs_def] by (intro fails_intros set)
  show "fails_with InvalidData decode_log_entry"
    unfolding decode_log_entry_def [abs_def] by (intro fails_intros config; simp)
qed

lemma fails_decode_append [fails_intros]:
  "fails_with InvalidData (decode_log_entries N)" "fails_with InvalidData (decode_log_append N)"
  "fails_with InvalidData decode_snapshot" "fails_with InvalidData (decode_snapshot_checkpoint N)"
proof -
  show entries: "fails_with InvalidData (decode_log_entries N)"
    unfolding decode_log_entries_def [abs_def] by (intro fails_intros; simp)
  have payload: "fails_with InvalidData decode_payload"
    unfolding decode_payload_def [abs_def] by (intro fails_intros)
  have check: "fails_with InvalidData (\<lambda>d. rbind (map_err (\<lambda>_. invalid_data msg) r) (\<lambda>a. Inr (g a, d)))"
    for msg and r :: "'x io_result" and g :: "'x \<Rightarrow> 'y"
    by (auto simp: fails_with_def result_simps)
  show app: "fails_with InvalidData (decode_log_append N)"
    unfolding decode_log_append_def [abs_def] by (intro fails_intros entries payload check)
  show snap: "fails_with InvalidData decode_snapshot"
    unfolding decode_snapshot_def [abs_def] by (intro fails_intros)
  show "fails_with InvalidData (decode_snapshot_checkpoint N)"
    unfolding decode_snapshot_checkpoint_def [abs_def] Let_def by (intro fails_intros app snap check)
qed

lemma fails_decode_node_record: "fails_with InvalidData (decode_node_record N)"
proof -
  have rec: "fails_with InvalidData (decode_record N)"
    unfolding decode_record_def [abs_def] by (intro fails_intros; simp)
  have "fails_with InvalidData (\<lambda>bs. decode_node_id (Decoder_new bs))"
    using fails_decode_scalars(2) by (simp add: fails_with_def)
  then show ?thesis
    unfolding decode_node_record_def [abs_def] Decoder_finish_def by (intro fails_intros rec; simp)
qed

text \<open>Writing a record fails with \<^verbatim>\<open>InvalidInput\<close> only.\<close>

lemma fails_put [fails_intros]:
  "fails_with InvalidInput (check_append_len n)" "fails_with InvalidInput (put_slice bs)"
  "fails_with InvalidInput (put_u8 a)" "fails_with InvalidInput (put_u32 b)" "fails_with InvalidInput (put_u64 c)"
  "fails_with InvalidInput (put_bytes bs)"
proof -
  show len: "fails_with InvalidInput (check_append_len n)" for n
    unfolding check_append_len_def [abs_def] by (auto simp: fails_with_def result_simps split: if_splits)
  show slice: "fails_with InvalidInput (put_slice bs)" for bs
    unfolding put_slice_def [abs_def] using len by (auto simp: fails_with_def result_simps)
  then show "fails_with InvalidInput (put_u8 a)" "fails_with InvalidInput (put_u32 b)" "fails_with InvalidInput (put_u64 c)"
    by (simp_all add: put_u8_def put_u32_def put_u64_def)
  show "fails_with InvalidInput (put_bytes bs)"
    unfolding put_bytes_def [abs_def] using len by (auto simp: fails_with_def result_simps split: if_splits)
qed

lemma fails_validate [fails_intros]:
  "fails_with InvalidInput (\<lambda>_. LogAppend_validate N a)" "fails_with InvalidInput (\<lambda>_. SnapshotCheckpoint_validate N c)"
  by (auto simp: fails_with_def LogAppend_validate_def SnapshotCheckpoint_validate_def result_simps split: if_splits)

lemma fails_encode_scalars [fails_intros]:
  "fails_with InvalidInput (encode_term t)" "fails_with InvalidInput (encode_node_id n)"
  "fails_with InvalidInput (encode_log_index i)" "fails_with InvalidInput (encode_log_position p)"
  "fails_with InvalidInput (encode_count m err)" "fails_with InvalidInput (encode_payload ip)"
  unfolding encode_term_def encode_node_id_def encode_log_index_def encode_log_position_def [abs_def]
    encode_count_def [abs_def] encode_payload_def [abs_def]
  by ((intro fails_intros; simp); fail | auto simp: fails_with_def result_simps
      dest: fails_put [unfolded fails_with_def, rule_format] split: if_splits)+

lemma fails_encode_config [fails_intros]:
  "fails_with InvalidInput (encode_optional_node_id v)" "fails_with InvalidInput (encode_node_id_set nodes)"
  "fails_with InvalidInput (encode_cluster_config c)" "fails_with InvalidInput (encode_log_entry x)"
proof -
  show "fails_with InvalidInput (encode_optional_node_id v)"
    unfolding encode_optional_node_id_def [abs_def] by (cases v) (simp_all, (intro fails_intros)+)
  show nodes: "fails_with InvalidInput (encode_node_id_set nodes)" for nodes
    unfolding encode_node_id_set_def [abs_def] by (intro fails_intros)
  show config: "fails_with InvalidInput (encode_cluster_config c)" for c
    unfolding encode_cluster_config_def [abs_def] by (intro fails_intros nodes)
  show "fails_with InvalidInput (encode_log_entry x)"
  proof (cases x)
    case (TermEntry t)
    then have "encode_log_entry x = (\<lambda>e. rbind (put_u8 0 e) (encode_term t))" by auto
    then show ?thesis by (simp only:) (intro fails_intros)
  next
    case (ClusterConfigEntry c)
    then have "encode_log_entry x = (\<lambda>e. rbind (put_u8 1 e) (encode_cluster_config c))" by auto
    then show ?thesis by (simp only:) (intro fails_intros config)
  next
    case CommandEntry
    then have "encode_log_entry x = put_u8 2" by auto
    then show ?thesis by (simp only:) (intro fails_intros)
  qed
qed

lemma fails_rbind_const:
  "fails_with k (\<lambda>_ :: unit. r) \<Longrightarrow> fails_with k m \<Longrightarrow> fails_with k (\<lambda>e. rbind r (\<lambda>_. m e))"
  by (auto simp: fails_with_def result_simps)

lemma fails_encode_append [fails_intros]:
  "fails_with InvalidInput (encode_log_append N a)" "fails_with InvalidInput (encode_snapshot_checkpoint N c)"
proof -
  show app: "fails_with InvalidInput (encode_log_append N a)" for a
    unfolding encode_log_append_def [abs_def] encode_log_entries_def [abs_def]
    by (intro fails_rbind_const fails_intros)
  show "fails_with InvalidInput (encode_snapshot_checkpoint N c)"
    unfolding encode_snapshot_checkpoint_def [abs_def] encode_snapshot_def [abs_def]
    by (intro fails_rbind_const fails_intros app)
qed

lemma fails_encode_record: "fails_with InvalidInput (encode_record N r)"
proof -
  have tagged: "fails_with InvalidInput (\<lambda>e. rbind (put_u8 t e) m)" if "fails_with InvalidInput m" for t m
    using that by (intro fails_intros)
  have "\<exists>t m. fails_with InvalidInput m \<and> (\<forall>e. encode_record N r e = rbind (put_u8 t e) m)"
    by (cases r) (auto intro: fails_intros)
  then obtain t m where "fails_with InvalidInput m" "encode_record N r = (\<lambda>e. rbind (put_u8 t e) m)"
    by (auto simp: fun_eq_iff)
  with tagged show ?thesis by simp
qed

lemma encode_record_frame_fails: "encode_record_frame N n r = Inl e \<Longrightarrow> kind_of e = InvalidInput"
  using fails_encode_record [of N r] fails_encode_scalars(2) [of n]
  by (auto simp: encode_record_frame_def encode_record_body_def fails_with_def result_simps split: if_splits)

end
