(* ===== verification/Frames.thy ===== *)
theory Frames
  imports Codec_Laws
begin

text \<open>
  The record frames of \<^verbatim>\<open>src/codec.rs\<close> as they lie in a segment file. \<open>next_frame\<close> is the
  abstract meaning of the bytes at a position; both readers of the source are shown to compute it,
  and \<open>encode_record_frame\<close> is shown to write what it reads back.
\<close>

section \<open>What the bytes at a position mean\<close>

datatype frame_view =
    Torn
  | TooLarge
  | BadChecksum u32
  | Frame bytes

definition next_frame :: "bytes \<Rightarrow> frame_view" where
  "next_frame bs =
     (let len = from_le_bytes (take 4 bs) :: u32; body = take (unat len) (drop 8 bs) in
      if length bs < 4 then Torn
      else if MAX_RECORD_BODY_LEN < len then TooLarge
      else if length bs < 8 + unat len then Torn
      else if crc32c body \<noteq> from_le_bytes (take 4 (drop 4 bs)) then BadChecksum len
      else Frame body)"

definition reader_ok :: "Reader \<Rightarrow> bool" where
  "reader_ok f \<longleftrightarrow> rd_pos f \<le> length (rd_content f)"

abbreviation unread :: "Reader \<Rightarrow> bytes" where
  "unread f \<equiv> drop (rd_pos f) (rd_content f)"

abbreviation skip :: "nat \<Rightarrow> Reader \<Rightarrow> Reader" where
  "skip n f \<equiv> f\<lparr>rd_pos := rd_pos f + n\<rparr>"

abbreviation at_end :: "Reader \<Rightarrow> Reader" where
  "at_end f \<equiv> f\<lparr>rd_pos := length (rd_content f)\<rparr>"

lemma read_exact_unread:
  assumes "reader_ok f"
  shows "read_exact n f =
    (if n \<le> length (unread f) then (Some (take n (unread f)), skip n f) else (None, at_end f))"
  using assms by (auto simp: read_exact_def reader_ok_def)

lemma reader_ok_skip [simp]: "reader_ok f \<Longrightarrow> n \<le> length (unread f) \<Longrightarrow> reader_ok (skip n f)"
  by (simp add: reader_ok_def)

lemma unread_skip [simp]: "unread (skip n f) = drop n (unread f)"
  by (simp add: add.commute)

lemma read_up_to_unread:
  assumes "reader_ok f"
  shows "read_up_to n f = (take n (unread f), if n \<le> length (unread f) then skip n f else at_end f)"
  using assms by (auto simp: read_up_to_def reader_ok_def Let_def min_def)

lemma scan_body_loop_unread:
  "reader_ok f \<Longrightarrow> scan_body_loop n crc f =
     (if n \<le> length (unread f)
      then (Some \<lparr>crc_state = fold bitwise_byte (take n (unread f)) (crc_state crc)\<rparr>, skip n f)
      else (None, at_end f))"
proof (induction n crc f rule: scan_body_loop.induct)
  case (1 n crc f)
  let ?k = "min n 8192"
  show ?case
  proof (cases "n = 0 \<or> length (unread f) < ?k")
    case True
    with 1(2) show ?thesis
      by (subst scan_body_loop.simps) (auto simp: read_exact_unread Let_def)
  next
    case False
    then have k: "?k \<le> length (unread f)" "n \<noteq> 0" by auto
    have head: "read_exact ?k f = (Some (take ?k (unread f)), skip ?k f)"
      using k(1) 1(2) by (simp add: read_exact_unread)
    have ok: "reader_ok (skip ?k f)" using 1(2) k(1) by (rule reader_ok_skip)
    note IH = 1(1) [OF k(2) refl head [symmetric] refl ok]
    have fold: "fold bitwise_byte (take (n - ?k) (unread (skip ?k f))) (fold bitwise_byte (take ?k (unread f)) c) =
        fold bitwise_byte (take n (unread f)) c" for c
      using take_add [of ?k "n - ?k" "unread f"] by (simp only: unread_skip) simp
    show ?thesis
      using k 1(2) IH fold head
      by (subst scan_body_loop.simps) (auto simp: Let_def crc_update_fold)
  qed
qed

section \<open>The readers compute it\<close>

lemma header_reads:
  assumes "reader_ok f" and "unread f = bs"
  shows "read_exact 4 f = (if length bs < 4 then (None, at_end f) else (Some (take 4 bs), skip 4 f))"
    and "4 \<le> length bs \<Longrightarrow> read_exact 4 (skip 4 f) =
      (if length bs < 8 then (None, at_end f) else (Some (take 4 (drop 4 bs)), skip 8 f))"
    and "8 \<le> length bs \<Longrightarrow> read_up_to n (skip 8 f) =
      (take n (drop 8 bs), if 8 + n \<le> length bs then skip (8 + n) f else at_end f)"
    and "8 \<le> length bs \<Longrightarrow> scan_body_loop n crc (skip 8 f) =
      (if 8 + n \<le> length bs
       then (Some \<lparr>crc_state = fold bitwise_byte (take n (drop 8 bs)) (crc_state crc)\<rparr>, skip (8 + n) f)
       else (None, at_end f))"
proof -
  have skips: "skip m (skip k f) = skip (k + m) f" "at_end (skip k f) = at_end f" for m k
    by simp_all
  have un: "unread (skip k f) = drop k bs" for k
    using assms(2) by (simp only: unread_skip)
  have ok: "reader_ok (skip k f)" if "k \<le> length bs" for k
    using that assms by (intro reader_ok_skip) simp_all
  show "read_exact 4 f = (if length bs < 4 then (None, at_end f) else (Some (take 4 bs), skip 4 f))"
    by (simp only: read_exact_unread [OF assms(1)] assms(2)) auto
  show "read_exact 4 (skip 4 f) =
      (if length bs < 8 then (None, at_end f) else (Some (take 4 (drop 4 bs)), skip 8 f))" if "4 \<le> length bs"
    by (simp only: read_exact_unread [OF ok [OF that]] un skips) auto
  show "read_up_to n (skip 8 f) =
      (take n (drop 8 bs), if 8 + n \<le> length bs then skip (8 + n) f else at_end f)" if "8 \<le> length bs"
    using that by (simp only: read_up_to_unread [OF ok [OF that]] un skips) auto
  show "scan_body_loop n crc (skip 8 f) =
      (if 8 + n \<le> length bs
       then (Some \<lparr>crc_state = fold bitwise_byte (take n (drop 8 bs)) (crc_state crc)\<rparr>, skip (8 + n) f)
       else (None, at_end f))" if "8 \<le> length bs"
    using that by (simp only: scan_body_loop_unread [OF ok [OF that]] un skips) auto
qed

lemma read_record_body_view:
  assumes "reader_ok f"
  shows "read_record_body (f, m) = (case next_frame (unread f) of
      Torn \<Rightarrow> (Inr None, at_end f, m)
    | TooLarge \<Rightarrow> (Inl (invalid_data ''segment record is too large''), skip 4 f, m)
    | BadChecksum len \<Rightarrow>
        (Inl (invalid_data ''segment record checksum mismatch''), skip (8 + unat len) f, map_option checksum_failed m)
    | Frame body \<Rightarrow> (Inr (Some body), skip (8 + length body) f, m))"
proof -
  obtain bs where bs: "unread f = bs" by simp
  note reads = header_reads [OF assms bs]
  define len where "len = (from_le_bytes (take 4 bs) :: u32)"
  have frame: "next_frame bs = (if length bs < 4 then Torn else if MAX_RECORD_BODY_LEN < len then TooLarge
      else if length bs < 8 + unat len then Torn
      else if crc32c (take (unat len) (drop 8 bs)) \<noteq> from_le_bytes (take 4 (drop 4 bs)) then BadChecksum len
      else Frame (take (unat len) (drop 8 bs)))"
    by (simp add: next_frame_def len_def Let_def)
  consider "length bs < 8" | "8 \<le> length bs" "length bs < 8 + unat len" | "8 \<le> length bs" "8 + unat len \<le> length bs"
    by linarith
  then show ?thesis unfolding bs frame
    by cases (auto simp: read_record_body_def reads Let_def min_def simp flip: len_def)
qed

lemma scan_record_frame_view:
  assumes "reader_ok f"
  shows "scan_record_frame (f, m) = (case next_frame (unread f) of
      Torn \<Rightarrow> (Inr None, at_end f, m)
    | TooLarge \<Rightarrow> (Inl (invalid_data ''segment record is too large''), skip 4 f, m)
    | BadChecksum len \<Rightarrow>
        (Inl (invalid_data ''segment record checksum mismatch''), skip (8 + unat len) f, checksum_failed m)
    | Frame body \<Rightarrow> (Inr (Some ()), skip (8 + length body) f, m))"
proof -
  obtain bs where bs: "unread f = bs" by simp
  note reads = header_reads [OF assms bs]
  define len where "len = (from_le_bytes (take 4 bs) :: u32)"
  have frame: "next_frame bs = (if length bs < 4 then Torn else if MAX_RECORD_BODY_LEN < len then TooLarge
      else if length bs < 8 + unat len then Torn
      else if crc32c (take (unat len) (drop 8 bs)) \<noteq> from_le_bytes (take 4 (drop 4 bs)) then BadChecksum len
      else Frame (take (unat len) (drop 8 bs)))"
    by (simp add: next_frame_def len_def Let_def)
  have crc: "crc_value \<lparr>crc_state = fold bitwise_byte data (crc_state crc_new)\<rparr> = crc32c data" for data
    by (simp add: crc32c_fold crc_value_def crc_new_def)
  consider "length bs < 8" | "8 \<le> length bs" "length bs < 8 + unat len" | "8 \<le> length bs" "8 + unat len \<le> length bs"
    by linarith
  then show ?thesis unfolding bs frame
    by cases (auto simp: scan_record_frame_def reads crc Let_def min_def simp flip: len_def)
qed

section \<open>Encoded frames\<close>

lemma length_frame_of_body [simp]: "length (frame_of_body body) = 8 + length body"
  by (simp add: frame_of_body_def)

lemma frame_of_body_parts:
  shows "take 4 (frame_of_body body @ rest) = to_le_bytes 4 (of_nat (length body) :: u32)"
    and "take 4 (drop 4 (frame_of_body body @ rest)) = to_le_bytes 4 (crc32c body)"
    and "drop 8 (frame_of_body body @ rest) = body @ rest"
  by (simp_all add: frame_of_body_def)

lemma small_body:
  assumes "length body \<le> 2 ^ 30"
  shows "unat (of_nat (length body) :: u32) = length body" and "\<not> MAX_RECORD_BODY_LEN < of_nat (length body)"
proof -
  show len: "unat (of_nat (length body) :: u32) = length body"
    using assms by (intro unat_of_nat_u32) simp
  show "\<not> MAX_RECORD_BODY_LEN < of_nat (length body)"
    using assms by (simp add: word_less_nat_alt len)
qed

lemma next_frame_of_body:
  assumes "length body \<le> 2 ^ 30"
  shows "next_frame (frame_of_body body @ rest) = Frame body"
proof -
  have "take (length body) (body @ rest) = body" by simp
  then show ?thesis
    using small_body [OF assms]
    by (simp add: next_frame_def frame_of_body_parts Let_def del: take_append drop_append)
qed

text \<open>Every proper prefix of a frame reads as a torn record.\<close>

lemma next_frame_torn:
  assumes "length body \<le> 2 ^ 30" and "n < length (frame_of_body body)"
  shows "next_frame (take n (frame_of_body body)) = Torn"
proof (cases "n < 4")
  case False
  have "take 4 (take n (frame_of_body body)) = take 4 (frame_of_body body @ [])"
    using False by (simp add: min_def)
  then have "take 4 (take n (frame_of_body body)) = to_le_bytes 4 (of_nat (length body) :: u32)"
    by (simp only: frame_of_body_parts)
  then show ?thesis
    using assms small_body [OF assms(1)] False by (simp add: next_frame_def Let_def)
qed (use assms(2) in \<open>simp add: next_frame_def\<close>)

text \<open>Conversely, what reads as a record is the frame of its body.\<close>

lemma next_frame_FrameD:
  assumes "next_frame bs = Frame body"
  shows "length body \<le> 2 ^ 30" and "bs = frame_of_body body @ drop (8 + length body) bs"
proof -
  let ?len = "from_le_bytes (take 4 bs) :: u32"
  have len: "\<not> MAX_RECORD_BODY_LEN < ?len" "8 + unat ?len \<le> length bs"
    and body: "body = take (unat ?len) (drop 8 bs)"
    and crc: "crc32c body = from_le_bytes (take 4 (drop 4 bs))"
    using assms by (auto simp: next_frame_def Let_def split: if_splits)
  have blen: "length body = unat ?len" using len(2) body by simp
  then show "length body \<le> 2 ^ 30" using len(1) by (simp add: word_less_nat_alt)
  have le4: "to_le_bytes 4 (from_le_bytes x :: u32) = x" if "length x = 4" for x
    using to_from_le_bytes [of x, where 'a = 32] that by simp
  have "to_le_bytes 4 ?len = take 4 bs" using len(2) by (simp add: le4)
  moreover have "to_le_bytes 4 (crc32c body) = take 4 (drop 4 bs)"
    using len(2) by (simp add: crc le4)
  moreover have "of_nat (length body) = ?len" by (simp add: blen)
  moreover have "body @ drop (unat ?len) (drop 8 bs) = drop 4 (drop 4 bs)"
    unfolding body by (simp only: append_take_drop_id) simp
  ultimately have "frame_of_body body @ drop (8 + length body) bs =
      take 4 bs @ take 4 (drop 4 bs) @ drop 4 (drop 4 bs)"
    by (simp add: frame_of_body_def blen add.commute)
  then show "bs = frame_of_body body @ drop (8 + length body) bs"
    by (simp only: append_take_drop_id)
qed

lemma next_frame_length: "next_frame bs = Frame body \<Longrightarrow> 8 + length body \<le> length bs"
  by (auto simp: next_frame_def Let_def split: if_splits)

lemma encode_record_body_roundtrip:
  assumes "noraft_laws N" and "record_wf N r" and "encode_record_body N n r = Inr body"
  shows "length body \<le> 2 ^ 30" and "decode_node_record N body = Inr \<lparr>nr_node_id = n, nr_record = r\<rparr>"
    and "decode_record_node_id body = Inr n"
proof -
  have init: "encoder_inv Encoder_new" "enc_bytes Encoder_new = []"
    by (simp_all add: encoder_inv_def Encoder_new_def)
  obtain e1 e where e1: "encode_node_id n Encoder_new = Inr e1" and e: "encode_record N r e1 = Inr e"
    and body: "body = enc_bytes e"
    using assms(3) by (auto simp: encode_record_body_def Encoder_finish_def result_simps)
  obtain bs where bs: "encoder_inv e1" "enc_bytes e1 = bs" "decodes decode_node_id n bs"
    using codes_node_id [of n] init e1 by (fastforce simp: codes_def)
  obtain cs where cs: "encoder_inv e" "enc_bytes e = bs @ cs" "decodes (decode_record N) r cs"
    using codes_record [OF assms(1,2)] bs(1,2) e by (fastforce simp: codes_def)
  show "length body \<le> 2 ^ 30"
    using cs(1) by (simp add: body encoder_inv_def word_le_nat_alt)
  then have ok: "decoder_ok (Decoder_new body)" and rem: "remaining (Decoder_new body) = bs @ cs"
    by (simp_all add: decoder_ok_def Decoder_new_def remaining_def body cs(2))
  have id: "decode_node_id (Decoder_new body) = Inr (n, advance (Decoder_new body) (length bs))"
    using bs(3) ok rem by (simp add: decodes_def)
  then show "decode_record_node_id body = Inr n"
    by (simp add: decode_record_node_id_def)
  have "decode_record N (advance (Decoder_new body) (length bs)) = Inr (r, advance (Decoder_new body) (length body))"
    using cs(2,3) remaining_advance [OF ok rem] body by (simp add: decodes_def)
  with id show "decode_node_record N body = Inr \<lparr>nr_node_id = n, nr_record = r\<rparr>"
    by (simp add: decode_node_record_def Decoder_finish_def advance_def Decoder_new_def)
qed

lemma encode_record_frame_body:
  "encode_record_frame N n r = Inr frame \<Longrightarrow>
     \<exists>body. encode_record_body N n r = Inr body \<and> frame = frame_of_body body \<and> length body \<le> 2 ^ 30"
  by (auto simp: encode_record_frame_def result_simps word_less_nat_alt unat_of_nat_u32 not_less)

section \<open>Properties\<close>

text \<open>
  C24. Round trip through a segment file: a record frame that \<^verbatim>\<open>encode_record_frame\<close> produced is read
  back by \<^verbatim>\<open>read_record_body\<close>, whatever follows it, with the handle left behind the frame and no
  checksum failure counted, and \<^verbatim>\<open>decode_node_record\<close> returns the same node and record.
\<close>

theorem record_frame_roundtrip:
  assumes "noraft_laws N" and "record_wf N r" and "encode_record_frame N n r = Inr frame"
    and "reader_ok f" and "unread f = frame @ rest"
  shows "\<exists>body. read_record_body (f, m) = (Inr (Some body), skip (length frame) f, m) \<and>
    decode_node_record N body = Inr \<lparr>nr_node_id = n, nr_record = r\<rparr> \<and> decode_record_node_id body = Inr n"
proof -
  obtain body where body: "encode_record_body N n r = Inr body" "frame = frame_of_body body" "length body \<le> 2 ^ 30"
    using encode_record_frame_body [OF assms(3)] by blast
  then show ?thesis
    using encode_record_body_roundtrip [OF assms(1,2) body(1)]
    by (intro exI [of _ body]) (simp add: read_record_body_view [OF assms(4)] assms(5) next_frame_of_body)
qed

definition sample_frame :: bytes where
  "sample_frame = frame_of_body (to_le_bytes 8 (7 :: u64) @ [0] @ to_le_bytes 8 (5 :: u64))"

lemma sample_frame_encodes: "encode_record_frame list_noraft 7 (CurrentTerm 5) = Inr sample_frame"
  by (simp add: encode_record_frame_def encode_record_body_def sample_frame_def encode_node_id_def
      encode_term_def put_u64_def put_u8_def put_slice_def check_append_len_def Encoder_new_def Encoder_finish_def
      checked_add_def u32_try_from_def MAX_RECORD_BODY_LEN_def)

theorem record_frame_roundtrip_witness:
  "\<exists>body. read_record_body (\<lparr>rd_content = sample_frame @ [1, 2], rd_pos = 0\<rparr>, None) =
       (Inr (Some body), \<lparr>rd_content = sample_frame @ [1, 2], rd_pos = 25\<rparr>, None) \<and>
     decode_node_record list_noraft body = Inr \<lparr>nr_node_id = 7, nr_record = CurrentTerm 5\<rparr>"
proof -
  let ?f = "\<lparr>rd_content = sample_frame @ [1, 2], rd_pos = 0\<rparr>"
  have "reader_ok ?f" "unread ?f = sample_frame @ [1, 2]" "length sample_frame = 25"
    by (simp_all add: reader_ok_def sample_frame_def)
  then show ?thesis
    using record_frame_roundtrip [of list_noraft "CurrentTerm 5" 7 sample_frame ?f "[1, 2]" None]
      list_noraft_laws sample_frame_encodes by auto
qed

text \<open>
  C25. A torn write is recognised: whatever proper prefix of a frame is left at the end of a file
  (the write of a record was cut short), \<^verbatim>\<open>read_record_body\<close> returns \<^verbatim>\<open>Ok(None)\<close> rather than a
  record or an error, so recovery drops exactly the record that was not written completely.
\<close>

theorem torn_frame_reads_none:
  assumes "encode_record_frame N n r = Inr frame" and "k < length frame"
    and "reader_ok f" and "unread f = take k frame"
  shows "read_record_body (f, m) = (Inr None, at_end f, m)"
proof -
  obtain body where body: "frame = frame_of_body body" "length body \<le> 2 ^ 30"
    using encode_record_frame_body [OF assms(1)] by blast
  have "next_frame (take k frame) = Torn"
    unfolding body(1) by (rule next_frame_torn [OF body(2)]) (use assms(2) body(1) in simp)
  then show ?thesis by (simp add: read_record_body_view [OF assms(3)] assms(4))
qed

theorem torn_frame_reads_none_witness:
  "read_record_body (\<lparr>rd_content = take 9 sample_frame, rd_pos = 0\<rparr>, None) =
     (Inr None, \<lparr>rd_content = take 9 sample_frame, rd_pos = 9\<rparr>, None)"
proof -
  have len: "length sample_frame = 25" by (simp add: sample_frame_def)
  then show ?thesis
    using torn_frame_reads_none [OF sample_frame_encodes, of 9 "\<lparr>rd_content = take 9 sample_frame, rd_pos = 0\<rparr>" None]
    by (simp add: reader_ok_def)
qed

text \<open>
  C26. The two frame readers agree: \<^verbatim>\<open>scan_record_frame\<close>, which checks the body in blocks of 8192
  bytes without keeping it, accepts, rejects and skips exactly the frames that
  \<^verbatim>\<open>read_record_body\<close> does, with the same error, file position and counters.
\<close>

theorem scan_agrees_with_read:
  assumes "rd_pos f \<le> length (rd_content f)"
  shows "scan_record_frame (f, m) =
    (case read_record_body (f, Some m) of (res, f', m') \<Rightarrow> (map_sum id (map_option (\<lambda>_. ())) res, f', the m'))"
  using scan_record_frame_view [of f m] read_record_body_view [of f "Some m"] assms
  by (auto simp: reader_ok_def split: frame_view.splits)

theorem scan_agrees_with_read_witness:
  "scan_record_frame (\<lparr>rd_content = sample_frame, rd_pos = 0\<rparr>, StorageMetrics_default) =
    (Inr (Some ()), \<lparr>rd_content = sample_frame, rd_pos = 25\<rparr>, StorageMetrics_default)"
proof -
  have "next_frame (sample_frame @ []) = Frame (to_le_bytes 8 (7 :: u64) @ [0] @ to_le_bytes 8 (5 :: u64))"
    unfolding sample_frame_def by (rule next_frame_of_body) simp
  then have "read_record_body (\<lparr>rd_content = sample_frame, rd_pos = 0\<rparr>, Some StorageMetrics_default) =
      (Inr (Some (to_le_bytes 8 (7 :: u64) @ [0] @ to_le_bytes 8 (5 :: u64))),
       \<lparr>rd_content = sample_frame, rd_pos = 25\<rparr>, Some StorageMetrics_default)"
    by (simp add: read_record_body_view reader_ok_def del: to_le_bytes.simps)
  then show ?thesis
    using scan_agrees_with_read [of "\<lparr>rd_content = sample_frame, rd_pos = 0\<rparr>" StorageMetrics_default] by simp
qed

text \<open>
  C27. Decoding never trusts the file: \<^verbatim>\<open>decode_node_record\<close> on arbitrary bytes returns an
  \<^verbatim>\<open>InvalidData\<close> error or a record whose payload map and node sets are ordered and without
  duplicates and that passes the validation a writer has to pass.
\<close>

theorem decode_node_record_checked:
  assumes "noraft_laws N"
  shows "case decode_node_record N bs of Inl e \<Rightarrow> kind_of e = InvalidData
    | Inr nr \<Rightarrow> record_wf N (nr_record nr) \<and> record_valid N (nr_record nr)"
  using fails_decode_node_record [of N] decode_node_record_wf [OF assms]
  by (simp add: fails_with_def split: sum.split)

theorem decode_node_record_checked_witness:
  "case decode_node_record list_noraft [1, 2, 3] of Inl e \<Rightarrow> kind_of e = InvalidData
    | Inr nr \<Rightarrow> record_wf list_noraft (nr_record nr) \<and> record_valid list_noraft (nr_record nr)"
  by (rule decode_node_record_checked [OF list_noraft_laws])

text \<open>
  C28. \<^verbatim>\<open>encode_record_frame\<close> returns a frame of at most 1 GiB plus 8 bytes whose length field is the exact
  length of its body, or an \<^verbatim>\<open>InvalidInput\<close> error: the 32-bit length never wraps.
\<close>

theorem encode_record_frame_bounds:
  "case encode_record_frame N n r of Inl e \<Rightarrow> kind_of e = InvalidInput
    | Inr frame \<Rightarrow> 8 \<le> length frame \<and> length frame \<le> 2 ^ 30 + 8 \<and>
        unat (from_le_bytes (take 4 frame) :: u32) = length frame - 8"
proof (cases "encode_record_frame N n r")
  case (Inl e)
  then show ?thesis by (simp add: encode_record_frame_fails)
next
  case (Inr frame)
  obtain body where body: "frame = frame_of_body body" "length body \<le> 2 ^ 30"
    using encode_record_frame_body [OF Inr] by blast
  have "take 4 frame = to_le_bytes 4 (of_nat (length body) :: u32)"
    using frame_of_body_parts(1) [of body "[]"] body(1) by simp
  then show ?thesis
    using Inr body small_body(1) [OF body(2)] by simp
qed

end
