(* ===== verification/Disk.thy ===== *)
theory Disk
  imports Metrics
begin

text \<open>
  The storage directory as the operating system shows it to the crate: named directory entries,
  regular files with their content and the prefix of it that has been synchronised, the advisory
  write lock, and a schedule of system-call failures. Every system call that changes the directory,
  takes the lock or waits for the device takes the next element of the schedule: \<open>Some k\<close> makes it fail, a
  \<^verbatim>\<open>write_all\<close> after \<open>k\<close> bytes. Reads and queries of metadata do not fail by themselves. A file
  offset is a signed 64-bit number, so no file grows to 2\<open>^\<close>63 bytes.
\<close>

section \<open>Model\<close>

record SFile =
  f_content :: bytes
  f_durable :: nat

datatype dirent = RegularFile SFile | OtherEntry

datatype dir_status = Missing | NotDirectory | Directory

record Disk =
  d_dir :: dir_status
  d_files :: "(string \<times> dirent) list"
  d_locked :: bool
  d_faults :: "nat option list"

text \<open>The state that storage functions share: the directory, and the counters they are handed.\<close>

record io_state =
  st_disk :: Disk
  st_metrics :: StorageMetrics

definition os_error :: io_error where
  "os_error = IoError OsError ''operating system error''"

definition not_found :: io_error where
  "not_found = IoError NotFound ''No such file or directory''"

text \<open>Directory entries in the unspecified order in which \<^verbatim>\<open>read_dir\<close> yields them.\<close>

fun dir_set :: "string \<Rightarrow> dirent \<Rightarrow> (string \<times> dirent) list \<Rightarrow> (string \<times> dirent) list" where
  "dir_set name e [] = [(name, e)]"
| "dir_set name e (x # xs) = (if fst x = name then (name, e) # xs else x # dir_set name e xs)"

definition dir_del :: "string \<Rightarrow> (string \<times> dirent) list \<Rightarrow> (string \<times> dirent) list" where
  "dir_del name xs = filter (\<lambda>x. fst x \<noteq> name) xs"

definition disk_get :: "Disk \<Rightarrow> string \<Rightarrow> dirent option" where
  "disk_get d name = map_of (d_files d) name"

definition disk_put :: "string \<Rightarrow> dirent \<Rightarrow> Disk \<Rightarrow> Disk" where
  "disk_put name e d = d\<lparr>d_files := dir_set name e (d_files d)\<rparr>"

definition file_at :: "Disk \<Rightarrow> string \<Rightarrow> SFile option" where
  "file_at d name = (case disk_get d name of Some (RegularFile f) \<Rightarrow> Some f | _ \<Rightarrow> None)"

definition content_at :: "Disk \<Rightarrow> string \<Rightarrow> bytes option" where
  "content_at d name = map_option f_content (file_at d name)"

definition MAX_FILE_LEN :: nat where
  "MAX_FILE_LEN = 2 ^ 63 - 1"

definition on_disk :: "(Disk \<Rightarrow> Disk) \<Rightarrow> 'x io_state_scheme \<Rightarrow> 'x io_state_scheme" where
  "on_disk g s = s\<lparr>st_disk := g (st_disk s)\<rparr>"

definition on_metrics :: "(StorageMetrics \<Rightarrow> StorageMetrics) \<Rightarrow> 'x io_state_scheme \<Rightarrow> 'x io_state_scheme" where
  "on_metrics g s = s\<lparr>st_metrics := g (st_metrics s)\<rparr>"

definition count_metric :: "(StorageMetrics \<Rightarrow> StorageMetrics) \<Rightarrow> ('x io_state_scheme, unit) io" where
  "count_metric g = smodify (on_metrics g)"

text \<open>The next element of the failure schedule.\<close>

definition next_fault :: "('x io_state_scheme, nat option) io" where
  "next_fault s =
     (case d_faults (st_disk s) of
        [] \<Rightarrow> (Inr None, s)
      | x # xs \<Rightarrow> (Inr x, on_disk (\<lambda>d. d\<lparr>d_faults := xs\<rparr>) s))"

definition syscall :: "('x io_state_scheme, 'a) io \<Rightarrow> ('x io_state_scheme, 'a) io" where
  "syscall act = sbind next_fault (\<lambda>x. case x of None \<Rightarrow> act | Some _ \<Rightarrow> serr os_error)"

definition set_content :: "string \<Rightarrow> bytes \<Rightarrow> Disk \<Rightarrow> Disk" where
  "set_content name bs d =
     (case file_at d name of
        Some f \<Rightarrow> disk_put name (RegularFile (f\<lparr>f_content := bs, f_durable := min (f_durable f) (length bs)\<rparr>)) d
      | None \<Rightarrow> d)"

definition append_content :: "string \<Rightarrow> bytes \<Rightarrow> Disk \<Rightarrow> Disk" where
  "append_content name bs d =
     (case content_at d name of Some c \<Rightarrow> set_content name (c @ bs) d | None \<Rightarrow> d)"

definition mark_durable :: "string \<Rightarrow> Disk \<Rightarrow> Disk" where
  "mark_durable name d =
     (case file_at d name of
        Some f \<Rightarrow> disk_put name (RegularFile (f\<lparr>f_durable := length (f_content f)\<rparr>)) d
      | None \<Rightarrow> d)"

text \<open>
  System calls on a handle of the file \<open>name\<close>. The handles the crate writes through stay linked
  to their name while they are open.
\<close>

definition sys_write_all :: "string \<Rightarrow> bytes \<Rightarrow> ('x io_state_scheme, unit) io" where
  "sys_write_all name bs =
     sbind next_fault (\<lambda>x. sbind (sget st_disk) (\<lambda>d.
     let len = (case content_at d name of Some c \<Rightarrow> length c | None \<Rightarrow> 0) in
     case x of
       Some k \<Rightarrow> sbind (smodify (on_disk (append_content name (take (min k (MAX_FILE_LEN - len)) bs)))) (\<lambda>_. serr os_error)
     | None \<Rightarrow>
         if MAX_FILE_LEN < len + length bs
         then sbind (smodify (on_disk (append_content name (take (MAX_FILE_LEN - len) bs)))) (\<lambda>_. serr os_error)
         else smodify (on_disk (append_content name bs))))"

definition sys_sync :: "string \<Rightarrow> ('x io_state_scheme, unit) io" where
  "sys_sync name = syscall (smodify (on_disk (mark_durable name)))"

definition sys_set_len :: "string \<Rightarrow> nat \<Rightarrow> ('x io_state_scheme, unit) io" where
  "sys_set_len name n = syscall (smodify (on_disk (\<lambda>d. case content_at d name of
     Some c \<Rightarrow> set_content name (take n c @ replicate (n - length c) 0) d | None \<Rightarrow> d)))"

definition empty_file :: dirent where
  "empty_file = RegularFile \<lparr>f_content = [], f_durable = 0\<rparr>"

text \<open>\<^verbatim>\<open>create(true)\<close>, \<^verbatim>\<open>create_new(true)\<close> and \<^verbatim>\<open>create(true).truncate(true)\<close>.\<close>

definition sys_open_create :: "string \<Rightarrow> ('x io_state_scheme, unit) io" where
  "sys_open_create name = syscall (sbind (sget (\<lambda>s. disk_get (st_disk s) name)) (\<lambda>e.
     case e of None \<Rightarrow> smodify (on_disk (disk_put name empty_file))
     | Some (RegularFile _) \<Rightarrow> sret ()
     | Some OtherEntry \<Rightarrow> serr os_error))"

definition sys_create_new :: "string \<Rightarrow> ('x io_state_scheme, unit) io" where
  "sys_create_new name = syscall (sbind (sget (\<lambda>s. disk_get (st_disk s) name)) (\<lambda>e.
     case e of None \<Rightarrow> smodify (on_disk (disk_put name empty_file))
     | Some _ \<Rightarrow> serr (IoError AlreadyExists ''File exists'')))"

definition sys_create_truncate :: "string \<Rightarrow> ('x io_state_scheme, unit) io" where
  "sys_create_truncate name = syscall (sbind (sget (\<lambda>s. disk_get (st_disk s) name)) (\<lambda>e.
     case e of Some OtherEntry \<Rightarrow> serr os_error
     | _ \<Rightarrow> smodify (on_disk (disk_put name empty_file))))"

definition sys_rename :: "string \<Rightarrow> string \<Rightarrow> ('x io_state_scheme, unit) io" where
  "sys_rename from to = syscall (sbind (sget (\<lambda>s. disk_get (st_disk s) from)) (\<lambda>e. sbind (sget (\<lambda>s. disk_get (st_disk s) to)) (\<lambda>t.
     case e of None \<Rightarrow> serr not_found
     | Some f \<Rightarrow> if t = Some OtherEntry then serr os_error
         else smodify (on_disk (\<lambda>d. disk_put to f (d\<lparr>d_files := dir_del from (d_files d)\<rparr>))))))"

definition sys_remove_file :: "string \<Rightarrow> ('x io_state_scheme, unit) io" where
  "sys_remove_file name = syscall (sbind (sget (\<lambda>s. disk_get (st_disk s) name)) (\<lambda>e.
     case e of None \<Rightarrow> serr not_found
     | Some OtherEntry \<Rightarrow> serr os_error
     | Some (RegularFile _) \<Rightarrow> smodify (on_disk (\<lambda>d. d\<lparr>d_files := dir_del name (d_files d)\<rparr>))))"

text \<open>\<^verbatim>\<open>sync_dir\<close>, which \<^verbatim>\<open>sync_parent_dir\<close> also reaches for the files of the directory.\<close>

definition sys_sync_dir :: "('x io_state_scheme, unit) io" where
  "sys_sync_dir = syscall (sret ())"

text \<open>\<^verbatim>\<open>File::try_lock\<close>: whether the lock was taken, \<open>False\<close> for \<^verbatim>\<open>TryLockError::WouldBlock\<close>.\<close>

definition sys_try_lock :: "('x io_state_scheme, bool) io" where
  "sys_try_lock = syscall (sbind (sget (\<lambda>s. d_locked (st_disk s))) (\<lambda>locked.
     if locked then sret False
     else sbind (smodify (on_disk (\<lambda>d. d\<lparr>d_locked := True\<rparr>))) (\<lambda>_. sret True)))"

section \<open>Lemmas\<close>

lemma map_of_dir_set [simp]: "map_of (dir_set name e xs) = (map_of xs)(name \<mapsto> e)"
  by (induction xs) (auto simp: fun_eq_iff)

lemma map_of_dir_del [simp]: "map_of (dir_del name xs) = (map_of xs)(name := None)"
  by (induction xs) (auto simp: dir_del_def fun_eq_iff)

lemma fst_dir_set: "fst ` set (dir_set name e xs) = insert name (fst ` set xs)"
  by (induction xs) auto

lemma distinct_dir_set [simp]: "distinct (map fst xs) \<Longrightarrow> distinct (map fst (dir_set name e xs))"
proof (induction xs)
  case (Cons x xs)
  then show ?case using fst_dir_set [of name e xs] by auto
qed simp

lemma distinct_dir_del [simp]: "distinct (map fst xs) \<Longrightarrow> distinct (map fst (dir_del name xs))"
  by (simp add: dir_del_def distinct_map_filter)

lemma disk_get_put [simp]: "disk_get (disk_put name e d) = (disk_get d)(name \<mapsto> e)"
  by (simp add: disk_get_def disk_put_def fun_eq_iff)

lemma disk_get_update [simp]:
  "disk_get (d\<lparr>d_dir := a\<rparr>) = disk_get d" "disk_get (d\<lparr>d_locked := b\<rparr>) = disk_get d"
  "disk_get (d\<lparr>d_faults := c\<rparr>) = disk_get d"
  "disk_get (d\<lparr>d_files := dir_del name (d_files d)\<rparr>) = (disk_get d)(name := None)"
  by (simp_all add: disk_get_def fun_eq_iff)

end
