(* ===== verification/Segment.thy ===== *)
theory Segment
  imports Frames Disk
begin

text \<open>
  The append segments of \<^verbatim>\<open>src/segment.rs\<close>: their names, their discovery in the directory, the file
  header, and the writer with rotation and synchronisation.
\<close>

section \<open>Names\<close>

type_synonym SegmentName = u64

definition SegmentName_first_append :: SegmentName where
  "SegmentName_first_append = 0"

definition SegmentName_next_append :: "SegmentName \<Rightarrow> SegmentName io_result" where
  "SegmentName_next_append n = ok_or (checked_add n 1) (invalid_data ''segment ID overflow'')"

text \<open>Decimal numerals: \<^verbatim>\<open>to_string\<close> and \<^verbatim>\<open>str::parse\<close> of a \<^verbatim>\<open>u64\<close>, which also accepts a plus sign.\<close>

definition digit_char :: "nat \<Rightarrow> char" where
  "digit_char d = char_of (48 + d)"

definition is_ascii_digit :: "char \<Rightarrow> bool" where
  "is_ascii_digit c \<longleftrightarrow> 48 \<le> (of_char c :: nat) \<and> (of_char c :: nat) \<le> 57"

definition digit_value :: "char \<Rightarrow> nat" where
  "digit_value c = of_char c - 48"

fun show_nat :: "nat \<Rightarrow> string" where
  "show_nat n = (if n < 10 then [digit_char n] else show_nat (n div 10) @ [digit_char (n mod 10)])"

declare show_nat.simps [simp del]

definition digits_value :: "string \<Rightarrow> nat" where
  "digits_value s = foldl (\<lambda>v c. 10 * v + digit_value c) 0 s"

definition parse_u64 :: "string \<Rightarrow> u64 option" where
  "parse_u64 s =
     (let ds = (if s \<noteq> [] \<and> hd s = CHR ''+'' then tl s else s) in
      if ds = [] \<or> \<not> list_all is_ascii_digit ds then None else u64_try_from (digits_value ds))"

definition strip_prefix :: "string \<Rightarrow> string \<Rightarrow> string option" where
  "strip_prefix p s = (if take (length p) s = p then Some (drop (length p) s) else None)"

definition strip_suffix :: "string \<Rightarrow> string \<Rightarrow> string option" where
  "strip_suffix p s =
     (if length p \<le> length s \<and> drop (length s - length p) s = p
      then Some (take (length s - length p) s) else None)"

definition SEGMENT_FILE_SUFFIX :: string where
  "SEGMENT_FILE_SUFFIX = ''.segment''"

definition SegmentName_parse :: "string \<Rightarrow> SegmentName option" where
  "SegmentName_parse file_name =
     Option.bind (strip_prefix ''append-'' file_name) (\<lambda>rest.
     Option.bind (strip_suffix SEGMENT_FILE_SUFFIX rest) (\<lambda>id.
     if id = [] \<or> \<not> list_all is_ascii_digit id then None
     else if 1 < length id \<and> hd id = CHR ''0'' then None
     else parse_u64 id))"

definition SegmentName_file_name :: "SegmentName \<Rightarrow> string" where
  "SegmentName_file_name n = ''append-'' @ show_nat (unat n) @ SEGMENT_FILE_SUFFIX"

datatype RecordPosition = RecordPosition (rp_segment: SegmentName) (rp_offset: u64)

text \<open>The derived order: by segment, then by offset.\<close>

instantiation RecordPosition :: linorder
begin

definition less_eq_RecordPosition :: "RecordPosition \<Rightarrow> RecordPosition \<Rightarrow> bool" where
  "less_eq_RecordPosition p q \<longleftrightarrow>
     rp_segment p < rp_segment q \<or> rp_segment p = rp_segment q \<and> rp_offset p \<le> rp_offset q"

definition less_RecordPosition :: "RecordPosition \<Rightarrow> RecordPosition \<Rightarrow> bool" where
  "less_RecordPosition p q \<longleftrightarrow>
     rp_segment p < rp_segment q \<or> rp_segment p = rp_segment q \<and> rp_offset p < rp_offset q"

instance
  by standard (auto simp: less_eq_RecordPosition_def less_RecordPosition_def RecordPosition.expand)

end

record SegmentPath =
  sp_name :: SegmentName
  sp_path :: string

definition discover_segment_paths :: "Disk \<Rightarrow> SegmentPath list" where
  "discover_segment_paths d =
     (if d_dir d = Missing then []
      else sort_key sp_name (List.map_filter (\<lambda>(file_name, e).
        case e of RegularFile _ \<Rightarrow>
          map_option (\<lambda>name. \<lparr>sp_name = name, sp_path = file_name\<rparr>) (SegmentName_parse file_name)
        | OtherEntry \<Rightarrow> None) (d_files d)))"

definition select_active_append_segment :: "Disk \<Rightarrow> SegmentName" where
  "select_active_append_segment d =
     (let names = map sp_name (discover_segment_paths d) in
      if names = [] then SegmentName_first_append else Max (set names))"

definition segment_file_exists :: "Disk \<Rightarrow> SegmentName \<Rightarrow> bool" where
  "segment_file_exists d name \<longleftrightarrow> file_at d (SegmentName_file_name name) \<noteq> None"

section \<open>Segment files\<close>

definition SEGMENT_FORMAT_MAGIC :: bytes where
  "SEGMENT_FORMAT_MAGIC = [0x53, 0x4B, 0x52, 0x31]"

definition SEGMENT_FILE_HEADER_LEN :: nat where
  "SEGMENT_FILE_HEADER_LEN = 4"

text \<open>\<^verbatim>\<open>open\<close> of an existing file for reading: the handle sees the content at position 0.\<close>

definition sys_open_read :: "string \<Rightarrow> ('x io_state_scheme, Reader) io" where
  "sys_open_read name s =
     (case disk_get (st_disk s) name of
        Some (RegularFile f) \<Rightarrow> (Inr \<lparr>rd_content = f_content f, rd_pos = 0\<rparr>, s)
      | Some OtherEntry \<Rightarrow> (Inl os_error, s)
      | None \<Rightarrow> (Inl not_found, s))"

text \<open>
  \<^verbatim>\<open>read_segment_header\<close>, with the handle after it. \<open>counted\<close> says whether the caller passes its
  counters. The final \<^verbatim>\<open>read_exact\<close> cannot fail, since the length was checked.
\<close>

definition read_segment_header ::
  "string \<Rightarrow> Reader \<Rightarrow> bool \<Rightarrow> bool \<Rightarrow> bool \<Rightarrow> ('x io_state_scheme, bool \<times> Reader) io" where
  "read_segment_header path file allow_partial recover_partial counted =
     (let file = file\<lparr>rd_pos := 0\<rparr>; file_len = length (rd_content file);
          truncated = (if counted then count_metric replay_truncated else sret ()) in
      if file_len = 0 then
        (if allow_partial then sret (False, file) else serr (invalid_data ''missing segment header''))
      else if file_len < SEGMENT_FILE_HEADER_LEN then
        (if allow_partial \<and> recover_partial then
           sbind truncated (\<lambda>_. sbind (sys_set_len path 0) (\<lambda>_. sret (False, file\<lparr>rd_content := []\<rparr>)))
         else if allow_partial then sbind truncated (\<lambda>_. sret (False, file))
         else serr (invalid_data ''partial segment header in inactive segment''))
      else case read_exact SEGMENT_FILE_HEADER_LEN file of
        (None, file) \<Rightarrow> serr os_error
      | (Some magic, file) \<Rightarrow>
          if magic \<noteq> SEGMENT_FORMAT_MAGIC then serr (invalid_data ''unsupported segment format'')
          else sret (True, file))"

section \<open>The writer\<close>

text \<open>The open file is the one that \<open>sw_active_segment\<close> names in the directory.\<close>

record SegmentWriter =
  sw_active_segment :: SegmentName
  sw_segment_len :: u64
  sw_max_segment_len :: u64

record writer_state = io_state +
  st_writer :: SegmentWriter

definition open_active_segment_file :: "string \<Rightarrow> ('x io_state_scheme, unit) io" where
  "open_active_segment_file path =
     sbind (sys_open_create path) (\<lambda>_.
     sbind (sget (\<lambda>s. content_at (st_disk s) path)) (\<lambda>c.
     if c = Some [] then sys_write_all path SEGMENT_FORMAT_MAGIC else sret ()))"

definition create_active_segment_file :: "string \<Rightarrow> ('x io_state_scheme, unit) io" where
  "create_active_segment_file path =
     sbind (sys_create_new path) (\<lambda>_. sys_write_all path SEGMENT_FORMAT_MAGIC)"

definition file_len_u64 :: "Disk \<Rightarrow> string \<Rightarrow> u64" where
  "file_len_u64 d path = (case content_at d path of Some c \<Rightarrow> of_nat (length c) | None \<Rightarrow> 0)"

definition SegmentWriter_open :: "SegmentName \<Rightarrow> u64 \<Rightarrow> ('x io_state_scheme, SegmentWriter) io" where
  "SegmentWriter_open active_segment max_segment_len =
     (let path = SegmentName_file_name active_segment in
      sbind (sget (\<lambda>s. disk_get (st_disk s) path \<noteq> None)) (\<lambda>file_existed.
      sbind (open_active_segment_file path) (\<lambda>_.
      sbind (if file_existed then sret () else sys_sync_dir) (\<lambda>_.
      sbind (sget (\<lambda>s. file_len_u64 (st_disk s) path)) (\<lambda>segment_len.
      sbind (count_metric (segment_opened active_segment segment_len)) (\<lambda>_.
      sret \<lparr>sw_active_segment = active_segment, sw_segment_len = segment_len,
            sw_max_segment_len = max_segment_len\<rparr>))))))"

definition on_writer :: "(SegmentWriter \<Rightarrow> SegmentWriter) \<Rightarrow> ('x writer_state_scheme, unit) io" where
  "on_writer g = smodify (\<lambda>s. s\<lparr>st_writer := g (st_writer s)\<rparr>)"

definition should_rotate :: "SegmentWriter \<Rightarrow> u64 \<Rightarrow> bool" where
  "should_rotate w written_bytes =
     (if sw_segment_len w \<le> of_nat SEGMENT_FILE_HEADER_LEN then False
      else case checked_add (sw_segment_len w) written_bytes of
          None \<Rightarrow> True | Some len \<Rightarrow> sw_max_segment_len w < len)"

definition sync_current_segment :: "('x writer_state_scheme, unit) io" where
  "sync_current_segment =
     sbind (sget st_writer) (\<lambda>w.
     sbind (sys_sync (SegmentName_file_name (sw_active_segment w))) (\<lambda>_.
     count_metric segment_synced))"

definition SegmentWriter_sync :: "('x writer_state_scheme, unit) io" where
  "SegmentWriter_sync =
     sbind (sget st_metrics) (\<lambda>m.
     if m_unsynced_records m \<noteq> 0 \<or> m_unsynced_bytes m \<noteq> 0 then sync_current_segment else sret ())"

definition SegmentWriter_rotate :: "('x writer_state_scheme, unit) io" where
  "SegmentWriter_rotate =
     sbind sync_current_segment (\<lambda>_.
     sbind (sget st_writer) (\<lambda>w.
     sbind (slift (SegmentName_next_append (sw_active_segment w))) (\<lambda>next_segment.
     sbind (create_active_segment_file (SegmentName_file_name next_segment)) (\<lambda>_.
     sbind sys_sync_dir (\<lambda>_.
     sbind (on_writer (\<lambda>w. w\<lparr>sw_active_segment := next_segment,
        sw_segment_len := of_nat SEGMENT_FILE_HEADER_LEN\<rparr>)) (\<lambda>_.
     count_metric (segment_rotated next_segment (of_nat SEGMENT_FILE_HEADER_LEN))))))))"

fun metric_kind :: "'le Record \<Rightarrow> RecordKindMetric" where
  "metric_kind (CurrentTerm _) = KCurrentTerm"
| "metric_kind (VotedFor _) = KVotedFor"
| "metric_kind (Append _) = KLogAppend"
| "metric_kind (Checkpoint _) = KSnapshotCheckpoint"

definition SegmentWriter_append ::
  "('le, 'lg) noraft \<Rightarrow> NodeId \<Rightarrow> 'le Record \<Rightarrow> ('x writer_state_scheme, RecordPosition) io" where
  "SegmentWriter_append N node_id r =
     sbind (slift (encode_record_frame N node_id r)) (\<lambda>frame.
     sbind (slift (ok_or (u64_try_from (length frame)) (invalid_input ''record is too large''))) (\<lambda>written_bytes.
     sbind (sget st_writer) (\<lambda>w.
     sbind (if should_rotate w written_bytes then SegmentWriter_rotate else sret ()) (\<lambda>_.
     sbind (sget st_writer) (\<lambda>w.
     let record_position = RecordPosition (sw_active_segment w) (sw_segment_len w) in
     sbind (sys_write_all (SegmentName_file_name (sw_active_segment w)) frame) (\<lambda>_.
     sbind (slift (ok_or (checked_add (sw_segment_len w) written_bytes) (invalid_data ''segment length overflow''))) (\<lambda>len.
     sbind (on_writer (\<lambda>w. w\<lparr>sw_segment_len := len\<rparr>)) (\<lambda>_.
     sbind (count_metric (record_written (metric_kind r) written_bytes)) (\<lambda>_.
     sbind (count_metric (segment_written len)) (\<lambda>_.
     sret record_position))))))))))"

end
