(* ===== verification/Nojson.thy ===== *)
theory Nojson
  imports Segment
begin

text \<open>
  The interface of the \<^verbatim>\<open>nojson\<close> crate as the two metadata files use it, and the text files they are
  kept in. The crate is a dependency: its operations are the fields of a record that the
  definitions take as an argument, and \<open>json_laws\<close> is the documented behaviour that the
  theorems rely on, namely that the text it formats for a document parses to a value with the
  members of that document. \<open>list_nojson\<close> shows that the laws can hold.
\<close>

section \<open>Text files\<close>

text \<open>A Rust string is the sequence of its UTF-8 bytes; a \<^typ>\<open>char\<close> is one of them.\<close>

definition text_bytes :: "string \<Rightarrow> bytes" where
  "text_bytes s = map (\<lambda>c. of_nat (of_char c)) s"

definition bytes_text :: "bytes \<Rightarrow> string" where
  "bytes_text bs = map (\<lambda>b. char_of (unat b)) bs"

definition utf8_cont :: "u8 \<Rightarrow> bool" where
  "utf8_cont b \<longleftrightarrow> 0x80 \<le> b \<and> b \<le> 0xBF"

function utf8_valid :: "bytes \<Rightarrow> bool" where
  "utf8_valid [] = True"
| "utf8_valid (b # bs) =
     (if b < 0x80 then utf8_valid bs
      else if 0xC2 \<le> b \<and> b \<le> 0xDF then 1 \<le> length bs \<and> utf8_cont (bs ! 0) \<and> utf8_valid (drop 1 bs)
      else if 0xE0 \<le> b \<and> b \<le> 0xEF then
        2 \<le> length bs \<and> utf8_cont (bs ! 0) \<and> utf8_cont (bs ! 1) \<and>
        (b = 0xE0 \<longrightarrow> 0xA0 \<le> bs ! 0) \<and> (b = 0xED \<longrightarrow> bs ! 0 \<le> 0x9F) \<and> utf8_valid (drop 2 bs)
      else if 0xF0 \<le> b \<and> b \<le> 0xF4 then
        3 \<le> length bs \<and> utf8_cont (bs ! 0) \<and> utf8_cont (bs ! 1) \<and> utf8_cont (bs ! 2) \<and>
        (b = 0xF0 \<longrightarrow> 0x90 \<le> bs ! 0) \<and> (b = 0xF4 \<longrightarrow> bs ! 0 \<le> 0x8F) \<and> utf8_valid (drop 3 bs)
      else False)"
  by pat_completeness auto
termination
  by (relation "measure length") auto

definition invalid_utf8 :: io_error where
  "invalid_utf8 = IoError InvalidData ''stream did not contain valid UTF-8''"

text \<open>\<^verbatim>\<open>File::open\<close> and \<^verbatim>\<open>read_to_string\<close>; \<open>None\<close> where the file does not exist.\<close>

definition read_text_file :: "Disk \<Rightarrow> string \<Rightarrow> string option io_result" where
  "read_text_file d path =
     (case disk_get d path of
        None \<Rightarrow> Inr None
      | Some OtherEntry \<Rightarrow> Inl os_error
      | Some (RegularFile f) \<Rightarrow>
          if utf8_valid (f_content f) then Inr (Some (bytes_text (f_content f))) else Inl invalid_utf8)"

text \<open>The body that \<^verbatim>\<open>NodeRegistry::save\<close> and \<^verbatim>\<open>CheckpointIndex::save\<close> share: write a temporary
  file, synchronise it, and rename it over the old one.\<close>

definition replace_file :: "string \<Rightarrow> string \<Rightarrow> string \<Rightarrow> ('x io_state_scheme, unit) io" where
  "replace_file path tmp_path text =
     sbind (sys_create_truncate tmp_path) (\<lambda>_.
     sbind (sys_write_all tmp_path (text_bytes text)) (\<lambda>_.
     sbind (sys_sync tmp_path) (\<lambda>_.
     sbind (sys_rename tmp_path path) (\<lambda>_.
     sys_sync_dir))))"

section \<open>Documents and values\<close>

text \<open>
  What is handed to \<^verbatim>\<open>nojson::json\<close> for formatting. A member name that is a number is written as
  its decimal text; \<open>JRaw\<close> is JSON text that is written as it is.
\<close>

datatype json_doc =
    JU64 u64
  | JBool bool
  | JString string
  | JRaw string
  | JObject "(string \<times> json_doc) list"

text \<open>
  \<open>'v\<close> is \<^verbatim>\<open>RawJsonValue\<close>; an error is its message. \<open>nj_member\<close> is \<^verbatim>\<open>to_member(name)?.required()?\<close>,
  \<open>nj_owned\<close> the conversion to \<^verbatim>\<open>RawJsonOwned\<close>, which is represented by its text. \<open>nj_format\<close> is the text of
  \<^verbatim>\<open>nojson::json\<close> after \<^verbatim>\<open>set_indent_size(2)\<close> and \<^verbatim>\<open>set_spacing(true)\<close>, \<open>nj_compact\<close> with its default settings.
\<close>

record 'v nojson =
  nj_parse :: "string \<Rightarrow> string + 'v"
  nj_member :: "'v \<Rightarrow> string \<Rightarrow> string + 'v"
  nj_to_object :: "'v \<Rightarrow> string + ('v \<times> 'v) list"
  nj_unquoted :: "'v \<Rightarrow> string + string"
  nj_u64 :: "'v \<Rightarrow> string + u64"
  nj_bool :: "'v \<Rightarrow> string + bool"
  nj_string :: "'v \<Rightarrow> string + string"
  nj_owned :: "'v \<Rightarrow> string + string"
  nj_invalid :: "'v \<Rightarrow> string \<Rightarrow> string"
  nj_format :: "json_doc \<Rightarrow> string"
  nj_compact :: "json_doc \<Rightarrow> string"

definition invalid_json :: "string \<Rightarrow> io_error" where
  "invalid_json err = IoError InvalidData err"

lemma kind_of_invalid_json [simp]: "kind_of (invalid_json err) = InvalidData"
  by (simp add: invalid_json_def)

section \<open>Documented behaviour\<close>

text \<open>The value \<open>v\<close> shows the document: its scalar, or its members in order and by name.\<close>

primrec json_shows :: "'v nojson \<Rightarrow> json_doc \<Rightarrow> 'v \<Rightarrow> bool" where
  "json_shows J (JU64 n) = (\<lambda>v. nj_u64 J v = Inr n)"
| "json_shows J (JBool b) = (\<lambda>v. nj_bool J v = Inr b)"
| "json_shows J (JString s) = (\<lambda>v. nj_string J v = Inr s)"
| "json_shows J (JRaw t) = (\<lambda>v. nj_owned J v = Inr t)"
| "json_shows J (JObject ms) = (\<lambda>v. \<exists>kvs. nj_to_object J v = Inr kvs \<and>
     list_all2 (\<lambda>m kv. nj_unquoted J (fst kv) = Inr (fst m) \<and> snd m (snd kv)) (map (map_prod id (json_shows J)) ms) kvs \<and>
     (\<forall>i < length ms. nj_member J v (fst (ms ! i)) = Inr (snd (kvs ! i))))"

text \<open>
  Documents whose objects have distinct member names and whose raw texts are the texts of the
  values they parse to.
\<close>

definition raw_ok :: "'v nojson \<Rightarrow> string \<Rightarrow> bool" where
  "raw_ok J t \<longleftrightarrow> utf8_valid (text_bytes t) \<and> (\<exists>v. nj_parse J t = Inr v \<and> nj_owned J v = Inr t)"

primrec doc_ok :: "'v nojson \<Rightarrow> json_doc \<Rightarrow> bool" where
  "doc_ok J (JU64 n) = True"
| "doc_ok J (JBool b) = True"
| "doc_ok J (JString s) = utf8_valid (text_bytes s)"
| "doc_ok J (JRaw t) = raw_ok J t"
| "doc_ok J (JObject ms) =
     (distinct (map fst ms) \<and> list_all (\<lambda>k. utf8_valid (text_bytes k)) (map fst ms) \<and>
      list_all snd (map (map_prod id (doc_ok J)) ms))"

definition json_laws :: "'v nojson \<Rightarrow> bool" where
  "json_laws J \<longleftrightarrow>
     (\<forall>doc. doc_ok J doc \<longrightarrow> utf8_valid (text_bytes (nj_format J doc)) \<and>
        (\<exists>v. nj_parse J (nj_format J doc) = Inr v \<and> json_shows J doc v) \<and>
        (\<exists>v. nj_parse J (nj_format J doc @ [CHR 0x0A]) = Inr v \<and> json_shows J doc v) \<and>
        (\<exists>v. nj_parse J (nj_compact J doc) = Inr v \<and> json_shows J doc v))"

section \<open>An implementation\<close>

text \<open>
  A small self-delimiting notation: a tag for each kind of value, lengths in unary and numbers as
  their 64 bits. A text that starts with a brace is kept as it is. It shows that the laws can hold; no theorem about
  the code depends on it.
\<close>

definition show_unary :: "nat \<Rightarrow> string" where
  "show_unary n = replicate n CHR ''x'' @ ''|''"

definition show_bits :: "u64 \<Rightarrow> string" where
  "show_bits w = map (\<lambda>i. if bit w i then CHR ''1'' else CHR ''0'') [0..<64]"

definition show_text :: "string \<Rightarrow> string" where
  "show_text t = show_unary (length t) @ t"

primrec show_doc :: "json_doc \<Rightarrow> string" where
  "show_doc (JU64 n) = ''u'' @ show_bits n"
| "show_doc (JBool b) = (if b then ''t'' else ''f'')"
| "show_doc (JString s) = ''s'' @ show_text s"
| "show_doc (JRaw t) = ''r'' @ show_text t"
| "show_doc (JObject ms) = ''o'' @ show_unary (length ms) @
     concat (map (\<lambda>(k, d). show_text k @ d) (map (map_prod id show_doc) ms))"

definition read_unary :: "string \<Rightarrow> nat \<times> string" where
  "read_unary s = (length (takeWhile (\<lambda>c. c = CHR ''x'') s), drop 1 (dropWhile (\<lambda>c. c = CHR ''x'') s))"

definition read_bits :: "string \<Rightarrow> u64 \<times> string" where
  "read_bits s = (horner_sum of_bool 2 (map (\<lambda>c. c = CHR ''1'') (take 64 s)), drop 64 s)"

definition read_text :: "string \<Rightarrow> string \<times> string" where
  "read_text s = (case read_unary s of (n, s) \<Rightarrow> (take n s, drop n s))"

primrec read_members :: "(string \<Rightarrow> json_doc \<times> string) \<Rightarrow> nat \<Rightarrow> string \<Rightarrow> (string \<times> json_doc) list \<times> string" where
  "read_members rd 0 s = ([], s)"
| "read_members rd (Suc n) s =
     (case read_text s of (k, s) \<Rightarrow> case rd s of (d, s) \<Rightarrow>
      case read_members rd n s of (ms, s) \<Rightarrow> ((k, d) # ms, s))"

primrec read_doc :: "nat \<Rightarrow> string \<Rightarrow> json_doc \<times> string" where
  "read_doc 0 s = (JBool False, s)"
| "read_doc (Suc k) s =
     (case s of [] \<Rightarrow> (JBool False, [])
      | c # s \<Rightarrow>
          if c = CHR ''u'' then (case read_bits s of (n, s) \<Rightarrow> (JU64 n, s))
          else if c = CHR ''t'' then (JBool True, s)
          else if c = CHR ''f'' then (JBool False, s)
          else if c = CHR ''s'' then (case read_text s of (t, s) \<Rightarrow> (JString t, s))
          else if c = CHR ''r'' then (case read_text s of (t, s) \<Rightarrow> (JRaw t, s))
          else case read_unary s of (n, s) \<Rightarrow> case read_members (read_doc k) n s of (ms, s) \<Rightarrow> (JObject ms, s))"

definition list_parse :: "string \<Rightarrow> string + json_doc" where
  "list_parse t = (if t \<noteq> [] \<and> hd t = CHR ''{'' then Inr (JRaw t) else Inr (fst (read_doc (length t) t)))"

lemma read_unary_show [simp]: "read_unary (show_unary n @ rest) = (n, rest)"
  by (simp add: read_unary_def show_unary_def takeWhile_append dropWhile_append)

lemma read_bits_show [simp]: "read_bits (show_bits w @ rest) = (w, rest)"
proof -
  have "map (\<lambda>c. c = CHR ''1'') (show_bits w) = map (bit w) [0..<64]" by (simp add: show_bits_def del: upt.simps)
  then have "horner_sum of_bool 2 (map (\<lambda>c. c = CHR ''1'') (show_bits w)) = take_bit 64 w"
    by (simp only: horner_sum_bit_eq_take_bit)
  moreover have "take_bit 64 w = w" using take_bit_word_eq_self [of 64 w] by simp
  moreover have "length (show_bits w) = 64" by (simp add: show_bits_def del: upt.simps)
  ultimately show ?thesis by (simp add: read_bits_def)
qed

lemma read_text_show [simp]: "read_text (show_text t @ rest) = (t, rest)"
  by (simp add: read_text_def show_text_def)

lemma read_members_show:
  assumes "\<And>k d rest. (k, d) \<in> set ms \<Longrightarrow> rd (show_doc d @ rest) = (d, rest)"
  shows "read_members rd (length ms) (concat (map (\<lambda>(k, d). show_text k @ d) (map (map_prod id show_doc) ms)) @ rest) = (ms, rest)"
  using assms
proof (induction ms)
  case (Cons m ms)
  obtain k d where m: "m = (k, d)" by (cases m)
  have IH: "read_members rd (length ms) (concat (map (\<lambda>(k, d). show_text k @ d) (map (map_prod id show_doc) ms)) @ rest) = (ms, rest)"
    using Cons by (metis list.set_intros(2))
  have "rd (show_doc d @ more) = (d, more)" for more using Cons.prems [of k d more] m by simp
  with IH show ?case by (simp add: m id_def)
qed simp

lemma member_length: "(k, d) \<in> set ms \<Longrightarrow> length (show_doc d) < length (show_doc (JObject ms))"
  by (induction ms) (auto simp: show_unary_def)

lemma read_doc_show: "length (show_doc d) \<le> n \<Longrightarrow> read_doc n (show_doc d @ rest) = (d, rest)"
proof (induction d arbitrary: n rest)
  case (JObject ms)
  obtain m where n: "n = Suc m" using JObject.prems by (cases n) simp_all
  have "read_doc m (show_doc d @ rest) = (d, rest)" if "(k, d) \<in> set ms" for k d rest
    using JObject.IH [OF that, of d m rest] member_length [OF that] JObject.prems n by (simp add: snds.intros)
  from read_members_show [of ms "read_doc m", OF this] show ?case by (simp add: n)
next
  case (JU64 w)
  then show ?case by (cases n) simp_all
next
  case (JBool b)
  then show ?case by (cases n) (simp_all split: if_splits)
next
  case (JString t)
  then show ?case by (cases n) simp_all
next
  case (JRaw t)
  then show ?case by (cases n) simp_all
qed

definition list_nojson :: "json_doc nojson" where
  "list_nojson = \<lparr>
     nj_parse = list_parse,
     nj_member = (\<lambda>v k. case v of JObject ms \<Rightarrow> ok_or (map_of ms k) ''missing member'' | _ \<Rightarrow> Inl ''not an object''),
     nj_to_object = (\<lambda>v. case v of JObject ms \<Rightarrow> Inr (map (\<lambda>(k, d). (JString k, d)) ms) | _ \<Rightarrow> Inl ''not an object''),
     nj_unquoted = (\<lambda>v. case v of JString k \<Rightarrow> Inr k | _ \<Rightarrow> Inl ''not a string''),
     nj_u64 = (\<lambda>v. case v of JU64 n \<Rightarrow> Inr n | _ \<Rightarrow> Inl ''not a number''),
     nj_bool = (\<lambda>v. case v of JBool b \<Rightarrow> Inr b | _ \<Rightarrow> Inl ''not a boolean''),
     nj_string = (\<lambda>v. case v of JString k \<Rightarrow> Inr k | _ \<Rightarrow> Inl ''not a string''),
     nj_owned = (\<lambda>v. case v of JRaw t \<Rightarrow> Inr t | _ \<Rightarrow> Inl ''not raw''),
     nj_invalid = (\<lambda>v msg. msg),
     nj_format = show_doc,
     nj_compact = show_doc \<rparr>"

lemma utf8_ascii: "list_all (\<lambda>b. b < 0x80) bs \<Longrightarrow> utf8_valid bs"
  by (induction bs) auto

lemma list_shows: "doc_ok list_nojson doc \<Longrightarrow> json_shows list_nojson doc doc"
proof (induction doc)
  case (JObject ms)
  have "list_all2 (\<lambda>m kv. nj_unquoted list_nojson (fst kv) = Inr (fst m) \<and> snd m (snd kv))
      (map (map_prod id (json_shows list_nojson)) ms) (map (\<lambda>(k, d). (JString k, d)) ms)"
    using JObject by (auto simp: list_all2_conv_all_nth list_nojson_def list_all_iff split: prod.splits)
      (metis fst_conv nth_mem snd_conv snds.intros)+
  moreover have "map_of ms (fst (ms ! i)) = Some (snd (ms ! i))" if "i < length ms" for i
    using JObject.prems that by (intro map_of_is_SomeI) simp_all
  ultimately show ?case
    by (auto simp: list_nojson_def split: prod.splits)
qed (simp_all add: list_nojson_def)

lemma text_bytes_append [simp]: "text_bytes (s @ t) = text_bytes s @ text_bytes t"
  by (simp add: text_bytes_def)

lemma utf8_append: "utf8_valid xs \<Longrightarrow> utf8_valid ys \<Longrightarrow> utf8_valid (xs @ ys)"
  by (induction xs rule: utf8_valid.induct) (auto simp: nth_append split: if_splits)

lemma utf8_unary: "utf8_valid (text_bytes (show_unary n))"
  unfolding show_unary_def by (rule utf8_ascii) (simp add: text_bytes_def list_all_iff of_char_def)

lemma utf8_bits: "utf8_valid (text_bytes (show_bits w))"
  unfolding show_bits_def by (rule utf8_ascii) (simp add: text_bytes_def list_all_iff of_char_def del: upt.simps)

lemma utf8_tag: "of_char c < (128 :: nat) \<Longrightarrow> utf8_valid (text_bytes s) \<Longrightarrow> utf8_valid (text_bytes (c # s))"
  by (simp add: text_bytes_def word_less_nat_alt unat_of_nat)

lemma utf8_show_text: "utf8_valid (text_bytes t) \<Longrightarrow> utf8_valid (text_bytes (show_text t))"
  by (simp add: show_text_def utf8_append utf8_unary)

lemma utf8_show_doc: "doc_ok J d \<Longrightarrow> utf8_valid (text_bytes (show_doc d))"
proof (induction d)
  case (JObject ms)
  have "utf8_valid (text_bytes (show_text k)) \<and> utf8_valid (text_bytes (show_doc d))" if "(k, d) \<in> set ms" for k d
  proof -
    have "doc_ok J d" "utf8_valid (text_bytes k)" using JObject.prems that by (auto simp: list_all_iff)
    then show ?thesis using JObject.IH [OF that, of d] utf8_show_text by (simp add: snds.intros)
  qed
  then have "utf8_valid (text_bytes (concat (map (\<lambda>(k, d). show_text k @ d) (map (map_prod id show_doc) ms))))"
  proof (induction ms)
    case Nil
    show ?case by (simp add: text_bytes_def)
  next
    case (Cons m ms)
    obtain k d where m: "m = (k, d)" by (cases m)
    have "utf8_valid (text_bytes (concat (map (\<lambda>(k, d). show_text k @ d) (map (map_prod id show_doc) ms))))"
      using Cons by (metis list.set_intros(2))
    then show ?case using Cons.prems [of k d] by (simp add: m utf8_append id_def)
  qed
  then show ?case by (simp add: utf8_tag utf8_append utf8_unary)
qed (auto simp: utf8_tag utf8_bits utf8_show_text raw_ok_def text_bytes_def [of "[]"])

lemma list_json_laws: "json_laws list_nojson"
proof -
  have "list_parse (show_doc doc @ ws) = Inr doc" for doc ws
    using read_doc_show [of doc "length (show_doc doc @ ws)" ws]
    by (cases doc) (simp_all add: list_parse_def)
  from this [where ws = "[]"] this
  have "nj_parse list_nojson (nj_format list_nojson doc) = Inr doc"
    "nj_parse list_nojson (nj_format list_nojson doc @ [CHR 0x0A]) = Inr doc"
    "nj_parse list_nojson (nj_compact list_nojson doc) = Inr doc" for doc
    by (simp_all add: list_nojson_def)
  moreover have "utf8_valid (text_bytes (nj_format list_nojson doc))" if "doc_ok list_nojson doc" for doc
    using utf8_show_doc [OF that] by (simp add: list_nojson_def)
  ultimately show ?thesis
    using list_shows by (auto simp: json_laws_def)
qed

end
