(* ===== verification/Registry.thy ===== *)
theory Registry
  imports Nojson
begin

text \<open>
  The node registry of \<^verbatim>\<open>src/registry.rs\<close>: which node identifiers have been created and removed,
  with the metadata of each, kept in memory as an ordered map and on disk as \<^verbatim>\<open>nodes.json\<close>.
\<close>

section \<open>Model\<close>

record NodeMetadata =
  nm_startup :: bool
  nm_metadata :: string

record NodeRegistryEntry =
  re_metadata :: NodeMetadata
  re_removed :: bool

type_synonym NodeRegistry = "(NodeId, NodeRegistryEntry) btmap"

definition NodeMetadata_default :: NodeMetadata where
  "NodeMetadata_default = \<lparr>nm_startup = False, nm_metadata = ''{}''\<rparr>"

definition node_not_found_error :: io_error where
  "node_not_found_error = IoError NotFound ''node storage has not been created''"

definition node_removed_error :: io_error where
  "node_removed_error = IoError NotFound ''node storage has been removed''"

definition node_already_exists_error :: io_error where
  "node_already_exists_error = IoError AlreadyExists ''node storage has already been created''"

definition Registry_create_node :: "NodeId \<Rightarrow> NodeMetadata \<Rightarrow> NodeRegistry \<Rightarrow> NodeRegistry io_result" where
  "Registry_create_node n metadata reg =
     (case bt_get reg n of
        None \<Rightarrow> Inr (bt_insert n \<lparr>re_metadata = metadata, re_removed = False\<rparr> reg)
      | Some _ \<Rightarrow> Inl node_already_exists_error)"

definition Registry_remove_node :: "NodeId \<Rightarrow> NodeRegistry \<Rightarrow> NodeRegistry io_result" where
  "Registry_remove_node n reg =
     (case bt_get reg n of
        None \<Rightarrow> Inl node_not_found_error
      | Some entry \<Rightarrow>
          if re_removed entry then Inl node_removed_error
          else Inr (bt_insert n (entry\<lparr>re_removed := True\<rparr>) reg))"

definition is_active :: "NodeRegistry \<Rightarrow> NodeId \<Rightarrow> bool" where
  "is_active reg n = (case bt_get reg n of Some entry \<Rightarrow> \<not> re_removed entry | None \<Rightarrow> False)"

definition is_removed :: "NodeRegistry \<Rightarrow> NodeId \<Rightarrow> bool" where
  "is_removed reg n = (case bt_get reg n of Some entry \<Rightarrow> re_removed entry | None \<Rightarrow> False)"

definition Registry_metadata :: "NodeRegistry \<Rightarrow> NodeId \<Rightarrow> NodeMetadata option" where
  "Registry_metadata reg n =
     (case bt_get reg n of
        Some entry \<Rightarrow> if re_removed entry then None else Some (re_metadata entry)
      | None \<Rightarrow> None)"

definition Registry_nodes :: "NodeRegistry \<Rightarrow> (NodeId \<times> NodeMetadata) list" where
  "Registry_nodes reg =
     map (\<lambda>(n, entry). (n, re_metadata entry)) (filter (\<lambda>(_, entry). \<not> re_removed entry) reg)"

text \<open>\<^verbatim>\<open>collect\<close> into a \<^verbatim>\<open>BTreeSet\<close>: the members are inserted one by one.\<close>

definition active_node_ids :: "NodeRegistry \<Rightarrow> NodeId btset" where
  "active_node_ids reg = fold bts_insert (map fst (Registry_nodes reg)) []"

definition active_node_count :: "NodeRegistry \<Rightarrow> nat" where
  "active_node_count reg = length (filter (\<lambda>(_, entry). \<not> re_removed entry) reg)"

definition removed_node_count :: "NodeRegistry \<Rightarrow> nat" where
  "removed_node_count reg = length (filter (\<lambda>(_, entry). re_removed entry) reg)"

section \<open>The file\<close>

definition NODE_REGISTRY_FILE_NAME :: string where
  "NODE_REGISTRY_FILE_NAME = ''nodes.json''"

definition NODE_REGISTRY_TMP_FILE_NAME :: string where
  "NODE_REGISTRY_TMP_FILE_NAME = ''nodes.json.tmp''"

definition NODE_REGISTRY_VERSION :: u64 where
  "NODE_REGISTRY_VERSION = 1"

definition parse_node_registry_entry :: "'v nojson \<Rightarrow> 'v \<Rightarrow> string + NodeRegistryEntry" where
  "parse_node_registry_entry J v =
     rbind (rbind (nj_member J v ''startup'') (nj_bool J)) (\<lambda>startup.
     rbind (rbind (nj_member J v ''metadata'') (nj_owned J)) (\<lambda>metadata.
     rbind (rbind (nj_member J v ''removed'') (nj_bool J)) (\<lambda>removed.
     Inr \<lparr>re_metadata = \<lparr>nm_startup = startup, nm_metadata = metadata\<rparr>, re_removed = removed\<rparr>)))"

text \<open>
  The loop over the members of \<^verbatim>\<open>nodes\<close>, which \<^verbatim>\<open>parse_node_registry\<close> and
  \<^verbatim>\<open>parse_checkpoint_index\<close> have in common: a decimal key, a parsed entry, no duplicates.
\<close>

definition parse_node_member ::
  "'v nojson \<Rightarrow> ('v \<Rightarrow> string + 'e) \<Rightarrow> (NodeId, 'e) btmap \<Rightarrow> 'v \<times> 'v \<Rightarrow> string + (NodeId, 'e) btmap" where
  "parse_node_member J parse_entry nodes kv =
     rbind (nj_unquoted J (fst kv)) (\<lambda>key_text.
     rbind (ok_or (parse_u64 key_text) (nj_invalid J (fst kv) ''invalid node ID'')) (\<lambda>node_id.
     rbind (parse_entry (snd kv)) (\<lambda>entry.
     if bt_get nodes node_id \<noteq> None then Inl (nj_invalid J (fst kv) ''duplicate node ID'')
     else Inr (bt_insert node_id entry nodes))))"

definition parse_node_registry :: "'v nojson \<Rightarrow> 'v \<Rightarrow> string + NodeRegistry" where
  "parse_node_registry J v =
     rbind (nj_member J v ''version'') (\<lambda>version_value.
     rbind (nj_u64 J version_value) (\<lambda>version.
     if version \<noteq> NODE_REGISTRY_VERSION
     then Inl (nj_invalid J version_value ''unsupported node registry version'')
     else rbind (nj_member J v ''nodes'') (\<lambda>nodes_value.
       rbind (nj_to_object J nodes_value) (\<lambda>kvs.
       fold_result (parse_node_member J (parse_node_registry_entry J)) [] kvs))))"

definition registry_entry_doc :: "NodeRegistryEntry \<Rightarrow> json_doc" where
  "registry_entry_doc entry = JObject
     [(''startup'', JBool (nm_startup (re_metadata entry))),
      (''metadata'', JRaw (nm_metadata (re_metadata entry))),
      (''removed'', JBool (re_removed entry))]"

definition node_key :: "NodeId \<Rightarrow> string" where
  "node_key n = show_nat (unat n)"

definition registry_doc :: "NodeRegistry \<Rightarrow> json_doc" where
  "registry_doc reg = JObject
     [(''version'', JU64 NODE_REGISTRY_VERSION),
      (''nodes'', JObject (map (\<lambda>(n, entry). (node_key n, registry_entry_doc entry)) reg))]"

definition format_node_registry :: "'v nojson \<Rightarrow> NodeRegistry \<Rightarrow> string" where
  "format_node_registry J reg = nj_format J (registry_doc reg) @ [CHR 0x0A]"

definition NodeRegistry_load :: "'v nojson \<Rightarrow> Disk \<Rightarrow> NodeRegistry io_result" where
  "NodeRegistry_load J d =
     rbind (read_text_file d NODE_REGISTRY_FILE_NAME) (\<lambda>t. case t of
       None \<Rightarrow> Inr []
     | Some text \<Rightarrow>
         rbind (map_err invalid_json (nj_parse J text)) (\<lambda>v.
         map_err invalid_json (parse_node_registry J v)))"

definition NodeRegistry_save :: "'v nojson \<Rightarrow> NodeRegistry \<Rightarrow> ('x io_state_scheme, unit) io" where
  "NodeRegistry_save J reg =
     replace_file NODE_REGISTRY_FILE_NAME NODE_REGISTRY_TMP_FILE_NAME (format_node_registry J reg)"

end
