(* ===== verification/CheckpointIndex.thy ===== *)
theory CheckpointIndex
  imports Registry
begin

text \<open>
  The checkpoint index of \<^verbatim>\<open>src/storage.rs\<close>: for each active node the position of its latest
  checkpoint record, kept in \<^verbatim>\<open>checkpoints.json\<close>, and the barrier for segment garbage collection
  that follows from it.
\<close>

section \<open>Model\<close>

text \<open>\<^verbatim>\<open>CheckpointNodeIndex\<close> has the checkpoint position as its only field.\<close>

type_synonym CheckpointIndex = "(NodeId, RecordPosition) btmap"

datatype GcBarrier = AllInactiveAppendSegments | Before SegmentName

fun allows_delete :: "GcBarrier \<Rightarrow> SegmentName \<Rightarrow> bool" where
  "allows_delete AllInactiveAppendSegments segment = True"
| "allows_delete (Before checkpoint_segment) segment \<longleftrightarrow> segment < checkpoint_segment"

definition checkpoint_position :: "CheckpointIndex \<Rightarrow> NodeId \<Rightarrow> RecordPosition option" where
  "checkpoint_position idx n = bt_get idx n"

text \<open>The loops that stop with \<^verbatim>\<open>None\<close> at the first node without a position.\<close>

fun fold_option :: "('acc \<Rightarrow> 'v \<Rightarrow> 'acc option) \<Rightarrow> 'acc \<Rightarrow> 'v list \<Rightarrow> 'acc option" where
  "fold_option f acc [] = Some acc"
| "fold_option f acc (v # vs) = (case f acc v of None \<Rightarrow> None | Some acc \<Rightarrow> fold_option f acc vs)"

definition checkpoint_positions :: "CheckpointIndex \<Rightarrow> NodeId btset \<Rightarrow> (NodeId, RecordPosition) btmap option" where
  "checkpoint_positions idx node_ids =
     fold_option (\<lambda>positions n. map_option (\<lambda>p. bt_insert n p positions) (checkpoint_position idx n)) [] node_ids"

definition gc_barrier :: "CheckpointIndex \<Rightarrow> NodeId btset \<Rightarrow> GcBarrier option" where
  "gc_barrier idx node_ids =
     map_option (\<lambda>oldest. case oldest of Some segment \<Rightarrow> Before segment | None \<Rightarrow> AllInactiveAppendSegments)
       (fold_option (\<lambda>oldest n. map_option (\<lambda>p.
           Some (case oldest of Some o' \<Rightarrow> min o' (rp_segment p) | None \<Rightarrow> rp_segment p)) (checkpoint_position idx n))
         None node_ids)"

definition set_checkpoint_position :: "NodeId \<Rightarrow> RecordPosition \<Rightarrow> CheckpointIndex \<Rightarrow> CheckpointIndex" where
  "set_checkpoint_position n position idx = bt_insert n position idx"

definition Index_remove_node :: "NodeId \<Rightarrow> CheckpointIndex \<Rightarrow> CheckpointIndex" where
  "Index_remove_node n idx = bt_remove n idx"

section \<open>The file\<close>

definition CHECKPOINT_INDEX_FILE_NAME :: string where
  "CHECKPOINT_INDEX_FILE_NAME = ''checkpoints.json''"

definition CHECKPOINT_INDEX_TMP_FILE_NAME :: string where
  "CHECKPOINT_INDEX_TMP_FILE_NAME = ''checkpoints.json.tmp''"

definition CHECKPOINT_INDEX_VERSION :: u64 where
  "CHECKPOINT_INDEX_VERSION = 1"

definition parse_checkpoint_node_index :: "'v nojson \<Rightarrow> 'v \<Rightarrow> string + RecordPosition" where
  "parse_checkpoint_node_index J v =
     rbind (nj_member J v ''checkpoint_segment'') (\<lambda>segment_value.
     rbind (nj_string J segment_value) (\<lambda>segment_name.
     rbind (ok_or (SegmentName_parse segment_name) (nj_invalid J segment_value ''invalid checkpoint segment name'')) (\<lambda>checkpoint_segment.
     rbind (nj_member J v ''checkpoint_offset'') (\<lambda>offset_value.
     rbind (nj_u64 J offset_value) (\<lambda>checkpoint_offset.
     Inr (RecordPosition checkpoint_segment checkpoint_offset))))))"

definition parse_checkpoint_index :: "'v nojson \<Rightarrow> 'v \<Rightarrow> string + CheckpointIndex" where
  "parse_checkpoint_index J v =
     rbind (nj_member J v ''version'') (\<lambda>version_value.
     rbind (nj_u64 J version_value) (\<lambda>version.
     if version \<noteq> CHECKPOINT_INDEX_VERSION
     then Inl (nj_invalid J version_value ''unsupported checkpoint index version'')
     else rbind (nj_member J v ''nodes'') (\<lambda>nodes_value.
       rbind (nj_to_object J nodes_value) (\<lambda>kvs.
       fold_result (parse_node_member J (parse_checkpoint_node_index J)) [] kvs))))"

definition checkpoint_node_doc :: "RecordPosition \<Rightarrow> json_doc" where
  "checkpoint_node_doc p = JObject
     [(''checkpoint_segment'', JString (SegmentName_file_name (rp_segment p))),
      (''checkpoint_offset'', JU64 (rp_offset p))]"

definition checkpoint_index_doc :: "CheckpointIndex \<Rightarrow> json_doc" where
  "checkpoint_index_doc idx = JObject
     [(''version'', JU64 CHECKPOINT_INDEX_VERSION),
      (''nodes'', JObject (map (\<lambda>(n, p). (node_key n, checkpoint_node_doc p)) idx))]"

definition format_checkpoint_index :: "'v nojson \<Rightarrow> CheckpointIndex \<Rightarrow> string" where
  "format_checkpoint_index J idx = nj_format J (checkpoint_index_doc idx) @ [CHR 0x0A]"

text \<open>
  \<^verbatim>\<open>validate_checkpoint_position\<close>. It passes no counters and does not recover, so it only reads:
  the directory is an argument.
\<close>

definition validate_checkpoint_position ::
  "('le, 'lg) noraft \<Rightarrow> Disk \<Rightarrow> NodeId \<Rightarrow> RecordPosition \<Rightarrow> unit io_result" where
  "validate_checkpoint_position N d node_id position =
     (case content_at d (SegmentName_file_name (rp_segment position)) of
        None \<Rightarrow> Inl (invalid_data ''checkpoint index segment does not exist'')
      | Some content \<Rightarrow>
          let file = \<lparr>rd_content = content, rd_pos = 0\<rparr>;
              s = \<lparr>st_disk = d, st_metrics = StorageMetrics_default\<rparr> in
          rbind (fst (read_segment_header (SegmentName_file_name (rp_segment position)) file False False False s)) (\<lambda>_.
          if rp_offset position < of_nat SEGMENT_FILE_HEADER_LEN
          then Inl (invalid_data ''checkpoint index offset precedes records'')
          else if length content < unat (rp_offset position)
          then Inl (invalid_data ''checkpoint index offset exceeds segment length'')
          else rbind (fst (read_record_body (file\<lparr>rd_pos := unat (rp_offset position)\<rparr>, None))) (\<lambda>b.
            rbind (ok_or b (invalid_data ''checkpoint index offset does not point to a record'')) (\<lambda>body.
            rbind (decode_node_record N body) (\<lambda>node_record.
            if nr_node_id node_record \<noteq> node_id then Inl (invalid_data ''checkpoint index node ID mismatch'')
            else if \<not> is_checkpoint (nr_record node_record)
            then Inl (invalid_data ''checkpoint index does not point to a checkpoint'')
            else Inr ())))))"

definition validate_checkpoint_positions :: "('le, 'lg) noraft \<Rightarrow> Disk \<Rightarrow> CheckpointIndex \<Rightarrow> unit io_result" where
  "validate_checkpoint_positions N d idx =
     fold_result (\<lambda>_ (n, position). validate_checkpoint_position N d n position) () idx"

definition CheckpointIndex_load ::
  "('le, 'lg) noraft \<Rightarrow> 'v nojson \<Rightarrow> Disk \<Rightarrow> NodeRegistry \<Rightarrow> CheckpointIndex io_result" where
  "CheckpointIndex_load N J d registry =
     rbind (read_text_file d CHECKPOINT_INDEX_FILE_NAME) (\<lambda>t. case t of
       None \<Rightarrow> Inr []
     | Some text \<Rightarrow>
         rbind (map_err invalid_json (nj_parse J text)) (\<lambda>v.
         rbind (map_err invalid_json (parse_checkpoint_index J v)) (\<lambda>index.
         let index = bt_retain (\<lambda>n _. is_active registry n) index in
         rbind (validate_checkpoint_positions N d index) (\<lambda>_. Inr index))))"

definition CheckpointIndex_save :: "'v nojson \<Rightarrow> CheckpointIndex \<Rightarrow> ('x io_state_scheme, unit) io" where
  "CheckpointIndex_save J idx =
     replace_file CHECKPOINT_INDEX_FILE_NAME CHECKPOINT_INDEX_TMP_FILE_NAME (format_checkpoint_index J idx)"

end
