(* ===== verification/Segment_Laws.thy ===== *)
theory Segment_Laws
  imports Segment
begin

text \<open>
  Segment names print and parse back, discovery lists exactly the segment files in order, and the
  writer appends exactly the encoded frame at the position it returns.
\<close>

section \<open>Names\<close>

lemma of_char_digit: "d < 10 \<Longrightarrow> (of_char (digit_char d) :: nat) = 48 + d"
  by (simp add: digit_char_def)

lemma digit_char_props: "d < 10 \<Longrightarrow> is_ascii_digit (digit_char d) \<and> digit_value (digit_char d) = d"
  by (simp add: is_ascii_digit_def digit_value_def of_char_digit)

lemma digit_char_value: "is_ascii_digit c \<Longrightarrow> digit_value c < 10 \<and> digit_char (digit_value c) = c"
  by (auto simp: is_ascii_digit_def digit_value_def digit_char_def)

lemma digits_value_snoc: "digits_value (s @ [c]) = 10 * digits_value s + digit_value c"
  by (simp add: digits_value_def)

lemma show_nat_digits: "list_all is_ascii_digit (show_nat n) \<and> show_nat n \<noteq> [] \<and> digits_value (show_nat n) = n"
proof (induction n rule: show_nat.induct)
  case (1 n)
  show ?case
  proof (cases "n < 10")
    case True
    then show ?thesis
      using digit_char_props [OF True] by (simp add: show_nat.simps [of n] digits_value_def)
  next
    case False
    then show ?thesis
      using 1 digit_char_props [of "n mod 10"] by (simp add: show_nat.simps [of n] digits_value_snoc)
  qed
qed

lemma hd_show_nat: "0 < n \<Longrightarrow> hd (show_nat n) \<noteq> CHR ''0''"
proof (induction n rule: show_nat.induct)
  case (1 n)
  show ?case
  proof (cases "n < 10")
    case True
    then have "(of_char (digit_char n) :: nat) \<noteq> of_char CHR ''0''"
      using 1 by (simp only: of_char_digit) simp
    then show ?thesis using True by (auto simp: show_nat.simps [of n])
  next
    case False
    then show ?thesis
      using 1 show_nat_digits [of "n div 10"] by (simp add: show_nat.simps [of n])
  qed
qed

lemma show_nat_canonical:
  "list_all is_ascii_digit ds \<Longrightarrow> ds \<noteq> [] \<Longrightarrow> (1 < length ds \<longrightarrow> hd ds \<noteq> CHR ''0'') \<Longrightarrow>
     show_nat (digits_value ds) = ds"
proof (induction ds rule: rev_induct)
  case (snoc c ds)
  then have c: "digit_value c < 10" "digit_char (digit_value c) = c"
    using digit_char_value by auto
  show ?case
  proof (cases "ds = []")
    case True
    then show ?thesis using c by (simp add: show_nat.simps digits_value_def)
  next
    case False
    then have hd: "hd ds \<noteq> CHR ''0''" using snoc.prems(3) by (cases ds) auto
    then have IH: "show_nat (digits_value ds) = ds" using snoc False by simp
    have "digits_value ds \<noteq> 0"
    proof
      assume "digits_value ds = 0"
      then have "ds = show_nat 0" using IH by simp
      then have "hd ds = digit_char 0" by (simp add: show_nat.simps)
      moreover have "digit_char 0 = CHR ''0''"
        using of_char_eq_iff [where 'a = nat, of "digit_char 0" "CHR ''0''"] by (simp add: of_char_digit)
      ultimately show False using hd by simp
    qed
    then show ?thesis
      using c IH by (simp add: digits_value_snoc show_nat.simps [of "10 * digits_value ds + digit_value c"])
  qed
qed simp

lemma show_nat_inj: "show_nat m = show_nat n \<Longrightarrow> m = n"
  by (metis show_nat_digits)

lemma not_plus_digit: "is_ascii_digit c \<Longrightarrow> c \<noteq> CHR ''+''"
  by (auto simp: is_ascii_digit_def)

lemma parse_show_u64: "parse_u64 (show_nat (unat w)) = Some w"
proof -
  have "hd (show_nat (unat w)) \<noteq> CHR ''+''"
    using show_nat_digits [of "unat w"] not_plus_digit by (cases "show_nat (unat w)") auto
  then show ?thesis
    using show_nat_digits [of "unat w"] u64_bound [of w]
    by (simp add: parse_u64_def u64_try_from_def Let_def)
qed

lemma parse_u64_value: "list_all is_ascii_digit ds \<Longrightarrow> parse_u64 ds = Some w \<Longrightarrow> unat w = digits_value ds"
  using not_plus_digit
  by (cases ds) (auto simp: parse_u64_def u64_try_from_def Let_def unat_of_nat_u64 split: if_splits)

lemma SegmentName_parse_file_name: "SegmentName_parse (SegmentName_file_name n) = Some n"
proof -
  have hd: "\<not> (1 < length (show_nat (unat n)) \<and> hd (show_nat (unat n)) = CHR ''0'')"
    using hd_show_nat [of "unat n"] by (cases "unat n = 0") (auto simp: show_nat.simps)
  have "strip_prefix ''append-'' (SegmentName_file_name n) = Some (show_nat (unat n) @ SEGMENT_FILE_SUFFIX)"
    by (simp add: strip_prefix_def SegmentName_file_name_def)
  moreover have "strip_suffix SEGMENT_FILE_SUFFIX (show_nat (unat n) @ SEGMENT_FILE_SUFFIX) = Some (show_nat (unat n))"
    by (simp add: strip_suffix_def)
  ultimately show ?thesis
    using hd show_nat_digits [of "unat n"] by (simp add: SegmentName_parse_def parse_show_u64)
qed

lemma SegmentName_parse_only:
  assumes "SegmentName_parse s = Some n"
  shows "s = SegmentName_file_name n"
proof -
  obtain rest ds where rest: "strip_prefix ''append-'' s = Some rest" "strip_suffix SEGMENT_FILE_SUFFIX rest = Some ds"
    and ds: "list_all is_ascii_digit ds" "ds \<noteq> []" "1 < length ds \<longrightarrow> hd ds \<noteq> CHR ''0''" "parse_u64 ds = Some n"
    using assms by (auto simp: SegmentName_parse_def bind_eq_Some_conv split: if_splits)
  have "take (length ''append-'') s = ''append-''" "rest = drop (length ''append-'') s"
    using rest(1) by (auto simp: strip_prefix_def split: if_splits)
  then have "s = ''append-'' @ rest"
    by (metis append_take_drop_id)
  moreover have "rest = ds @ SEGMENT_FILE_SUFFIX"
    using rest(2) by (simp add: strip_suffix_def split: if_splits) (metis append_take_drop_id)
  moreover have "ds = show_nat (unat n)"
    using show_nat_canonical [OF ds(1-3)] parse_u64_value [OF ds(1,4)] by simp
  ultimately show ?thesis by (simp add: SegmentName_file_name_def)
qed

lemma SegmentName_parse_iff: "SegmentName_parse s = Some n \<longleftrightarrow> s = SegmentName_file_name n"
  using SegmentName_parse_file_name SegmentName_parse_only by blast

lemma SegmentName_file_name_inj [simp]: "SegmentName_file_name m = SegmentName_file_name n \<longleftrightarrow> m = n"
  using SegmentName_parse_file_name by (metis option.inject)

section \<open>Discovery\<close>

definition disk_ok :: "Disk \<Rightarrow> bool" where
  "disk_ok d \<longleftrightarrow> d_dir d = Directory \<and> distinct (map fst (d_files d))"

text \<open>The content of a segment and the names of all segments, in order.\<close>

definition seg :: "Disk \<Rightarrow> SegmentName \<Rightarrow> bytes option" where
  "seg d n = content_at d (SegmentName_file_name n)"

definition seg_names :: "Disk \<Rightarrow> SegmentName list" where
  "seg_names d = map sp_name (discover_segment_paths d)"

definition seg_path :: "SegmentName \<Rightarrow> SegmentPath" where
  "seg_path n = \<lparr>sp_name = n, sp_path = SegmentName_file_name n\<rparr>"

lemma seg_path_sel [simp]: "sp_name (seg_path n) = n" "sp_path (seg_path n) = SegmentName_file_name n"
  by (simp_all add: seg_path_def)

definition as_segment :: "string \<times> dirent \<Rightarrow> SegmentPath option" where
  "as_segment = (\<lambda>(file_name, e). case e of RegularFile _ \<Rightarrow>
     map_option (\<lambda>name. \<lparr>sp_name = name, sp_path = file_name\<rparr>) (SegmentName_parse file_name) | OtherEntry \<Rightarrow> None)"

lemma as_segment_iff:
  "as_segment (s, e) = Some p \<longleftrightarrow> (\<exists>n f. s = SegmentName_file_name n \<and> e = RegularFile f \<and> p = seg_path n)"
  by (cases e) (auto simp: as_segment_def seg_path_def SegmentName_parse_iff)

lemma discover_as_segment:
  "disk_ok d \<Longrightarrow> discover_segment_paths d = sort_key sp_name (List.map_filter as_segment (d_files d))"
  by (simp add: disk_ok_def discover_segment_paths_def as_segment_def)

lemma seg_exists_iff:
  assumes "disk_ok d"
  shows "seg d n \<noteq> None \<longleftrightarrow> (\<exists>f. (SegmentName_file_name n, RegularFile f) \<in> set (d_files d))"
  using assms
  by (auto simp: seg_def content_at_def file_at_def disk_get_def disk_ok_def split: option.splits dirent.splits)
    (metis map_of_is_SomeI option.inject dirent.distinct(1) option.distinct(1))+

lemma set_map_filter: "set (List.map_filter f xs) = {y. \<exists>x \<in> set xs. f x = Some y}"
  by (force simp: List.map_filter_def)

lemma set_discover:
  assumes "disk_ok d"
  shows "set (discover_segment_paths d) = seg_path ` {n. seg d n \<noteq> None}"
proof -
  have "set (discover_segment_paths d) = {p. \<exists>s e. (s, e) \<in> set (d_files d) \<and> as_segment (s, e) = Some p}"
    unfolding discover_as_segment [OF assms] set_sort set_map_filter by fast
  then show ?thesis
    unfolding seg_exists_iff [OF assms] as_segment_iff by blast
qed

lemma distinct_as_segment:
  "distinct (map fst xs) \<Longrightarrow> distinct (map sp_name (List.map_filter as_segment xs))"
proof (induction xs)
  case Nil
  show ?case by (simp add: List.map_filter_def)
next
  case (Cons x xs)
  obtain s e where x: "x = (s, e)" by fastforce
  have "sp_name p \<notin> sp_name ` set (List.map_filter as_segment xs)" if "as_segment x = Some p" for p
    using Cons.prems that by (force simp: x set_map_filter as_segment_iff)
  with Cons show ?case
    by (cases "as_segment x") (auto simp: List.map_filter_simps)
qed

lemma seg_names:
  assumes "disk_ok d"
  shows "discover_segment_paths d = map seg_path (seg_names d)"
    and "set (seg_names d) = {n. seg d n \<noteq> None}" and "sorted_wrt (<) (seg_names d)"
proof -
  show set: "set (seg_names d) = {n. seg d n \<noteq> None}"
    by (simp add: seg_names_def set_discover [OF assms] image_image)
  have "map seg_path (seg_names d) = map (\<lambda>p. seg_path (sp_name p)) (discover_segment_paths d)"
    by (simp add: seg_names_def)
  also have "\<dots> = map (\<lambda>p. p) (discover_segment_paths d)"
    by (rule map_cong [OF refl]) (auto simp: set_discover [OF assms])
  finally show "discover_segment_paths d = map seg_path (seg_names d)" by simp
  have "distinct (seg_names d)"
    unfolding seg_names_def discover_as_segment [OF assms]
    using distinct_as_segment [of "d_files d"] assms
    by (simp add: disk_ok_def distinct_map)
  moreover have "sorted (seg_names d)"
    by (simp add: seg_names_def discover_as_segment [OF assms])
  ultimately show "sorted_wrt (<) (seg_names d)" by (simp add: strict_sorted_iff)
qed

text \<open>The names are determined by which segments exist.\<close>

lemma seg_names_eqI:
  assumes "disk_ok d" and "sorted_wrt (<) ns" and "set ns = {n. seg d n \<noteq> None}"
  shows "seg_names d = ns"
  using strict_sorted_equal [of "seg_names d" ns] seg_names [OF assms(1)] assms(2,3) by simp

lemma select_active_last:
  assumes "disk_ok d" and "seg_names d \<noteq> []"
  shows "select_active_append_segment d = last (seg_names d)"
proof -
  have "Max (set (seg_names d)) = last (seg_names d)"
  proof (rule Max_eqI)
    show "last (seg_names d) \<in> set (seg_names d)" using assms(2) by simp
    show "n \<le> last (seg_names d)" if "n \<in> set (seg_names d)" for n
      using that seg_names(3) [OF assms(1)] sorted_wrt_append [of "(<)" "butlast (seg_names d)" "[last (seg_names d)]"] assms(2)
      by (cases "seg_names d" rule: rev_cases) (auto simp: sorted_wrt_append less_imp_le)
  qed simp
  then show ?thesis
    using assms(2) by (simp add: select_active_append_segment_def seg_names_def [symmetric] Let_def)
qed

section \<open>Effects on the directory\<close>

lemma file_at_put: "file_at (disk_put name (RegularFile f) d) = (file_at d)(name \<mapsto> f)"
  by (auto simp: file_at_def fun_eq_iff)

lemma content_at_put: "content_at (disk_put name (RegularFile f) d) = (content_at d)(name \<mapsto> f_content f)"
  by (auto simp: content_at_def file_at_put fun_eq_iff)

lemma disk_ok_put [simp]: "disk_ok d \<Longrightarrow> disk_ok (disk_put name e d)"
  by (simp add: disk_ok_def disk_put_def)

lemma file_at_update [simp]:
  "file_at (d\<lparr>d_locked := b\<rparr>) = file_at d" "file_at (d\<lparr>d_faults := c\<rparr>) = file_at d"
  by (simp_all add: file_at_def fun_eq_iff)

lemma content_at_update [simp]:
  "content_at (d\<lparr>d_locked := b\<rparr>) = content_at d" "content_at (d\<lparr>d_faults := c\<rparr>) = content_at d"
  by (simp_all add: content_at_def fun_eq_iff)

lemma seg_update [simp]:
  "seg (d\<lparr>d_locked := b\<rparr>) = seg d" "seg (d\<lparr>d_faults := c\<rparr>) = seg d"
  by (simp_all add: seg_def fun_eq_iff)

lemma disk_ok_update [simp]:
  "disk_ok (d\<lparr>d_locked := b\<rparr>) = disk_ok d" "disk_ok (d\<lparr>d_faults := c\<rparr>) = disk_ok d"
  by (simp_all add: disk_ok_def)

lemma set_content_effect:
  "content_at (set_content name bs d) = (if content_at d name = None then content_at d else (content_at d)(name \<mapsto> bs))"
  "disk_ok d \<Longrightarrow> disk_ok (set_content name bs d)"
  by (auto simp: set_content_def content_at_put content_at_def [of d] split: option.splits)

lemma append_content_effect:
  "content_at d name = Some c \<Longrightarrow> content_at (append_content name bs d) = (content_at d)(name \<mapsto> c @ bs)"
  "disk_ok d \<Longrightarrow> disk_ok (append_content name bs d)"
  by (auto simp: append_content_def set_content_effect split: option.splits)

lemma mark_durable_effect:
  "content_at (mark_durable name d) = content_at d" "disk_ok d \<Longrightarrow> disk_ok (mark_durable name d)"
  by (auto simp: mark_durable_def file_at_put content_at_def fun_eq_iff split: option.splits)

lemma content_at_del: "content_at (d\<lparr>d_files := dir_del name (d_files d)\<rparr>) = (content_at d)(name := None)"
  by (auto simp: content_at_def file_at_def fun_eq_iff)

lemma disk_ok_del: "disk_ok d \<Longrightarrow> disk_ok (d\<lparr>d_files := dir_del name (d_files d)\<rparr>)"
  by (simp add: disk_ok_def)

text \<open>A state that differs in its directory, its counters and the writer only.\<close>

definition set_faults :: "nat option list \<Rightarrow> 'x io_state_scheme \<Rightarrow> 'x io_state_scheme" where
  "set_faults fs = on_disk (\<lambda>d. d\<lparr>d_faults := fs\<rparr>)"

lemma on_disk_sel [simp]:
  "st_disk (on_disk g s) = g (st_disk s)" "st_metrics (on_disk g s) = st_metrics s"
  "io_state.more (on_disk g s) = io_state.more s"
  by (simp_all add: on_disk_def)

lemma on_metrics_sel [simp]:
  "st_disk (on_metrics g s) = st_disk s" "st_metrics (on_metrics g s) = g (st_metrics s)"
  "io_state.more (on_metrics g s) = io_state.more s"
  by (simp_all add: on_metrics_def)

lemma set_faults_sel [simp]:
  "st_disk (set_faults fs s) = (st_disk s)\<lparr>d_faults := fs\<rparr>" "st_metrics (set_faults fs s) = st_metrics s"
  "io_state.more (set_faults fs s) = io_state.more s"
  by (simp_all add: set_faults_def)

lemma writer_more:
  "io_state.more s = io_state.more t \<Longrightarrow> st_writer s = st_writer t"
  "io_state.more s = io_state.more t \<Longrightarrow> writer_state.more s = writer_state.more t"
  by (cases s; cases t; simp)+

lemma next_fault_ok: "\<exists>fs x. next_fault s = (Inr x, set_faults fs s)"
proof (cases "d_faults (st_disk s)")
  case Nil
  then have "next_fault s = (Inr None, set_faults [] s)"
    by (simp add: next_fault_def set_faults_def on_disk_def)
  then show ?thesis by blast
next
  case (Cons x fs)
  then have "next_fault s = (Inr x, set_faults fs s)"
    by (simp add: next_fault_def set_faults_def)
  then show ?thesis by blast
qed

lemma syscall_ok: "syscall act s = (Inr x, s') \<Longrightarrow> \<exists>fs. act (set_faults fs s) = (Inr x, s')"
  using next_fault_ok [of s] by (auto simp: syscall_def serr_def split: option.splits)

lemma sys_sync_ok: "sys_sync name s = (Inr (), s') \<Longrightarrow> \<exists>fs. s' = on_disk (mark_durable name) (set_faults fs s)"
  by (auto simp: sys_sync_def smodify_def dest!: syscall_ok)

lemma sys_sync_dir_ok: "sys_sync_dir s = (Inr (), s') \<Longrightarrow> \<exists>fs. s' = set_faults fs s"
  by (auto simp: sys_sync_dir_def sret_def dest!: syscall_ok)

lemma sys_write_all_ok:
  assumes "sys_write_all name bs s = (Inr (), s')" and "content_at (st_disk s) name = Some c"
  shows "\<exists>fs. s' = on_disk (append_content name bs) (set_faults fs s)" and "length c + length bs \<le> MAX_FILE_LEN"
proof -
  obtain fs x where f: "next_fault s = (Inr x, set_faults fs s)" using next_fault_ok by blast
  show "\<exists>fs. s' = on_disk (append_content name bs) (set_faults fs s)" "length c + length bs \<le> MAX_FILE_LEN"
    using assms f
    by (auto simp: sys_write_all_def smodify_def serr_def Let_def split: option.splits if_splits)
qed

lemma sys_create_new_ok:
  assumes "sys_create_new name s = (Inr (), s')"
  shows "disk_get (st_disk s) name = None" and "\<exists>fs. s' = on_disk (disk_put name empty_file) (set_faults fs s)"
  using assms
  by (auto simp: sys_create_new_def smodify_def serr_def dest!: syscall_ok split: option.splits)

lemma sys_open_create_ok:
  assumes "sys_open_create name s = (Inr (), s')"
  shows "\<exists>fs. (disk_get (st_disk s) name = None \<and> s' = on_disk (disk_put name empty_file) (set_faults fs s)) \<or>
    (\<exists>f. disk_get (st_disk s) name = Some (RegularFile f) \<and> s' = set_faults fs s)"
  using assms
  by (auto simp: sys_open_create_def smodify_def serr_def sret_def dest!: syscall_ok split: option.splits dirent.splits)

lemma sys_create_truncate_ok:
  "sys_create_truncate name s = (Inr (), s') \<Longrightarrow> \<exists>fs. s' = on_disk (disk_put name empty_file) (set_faults fs s)"
  by (auto simp: sys_create_truncate_def smodify_def serr_def dest!: syscall_ok split: option.splits dirent.splits)

lemma sys_rename_ok:
  assumes "sys_rename from to s = (Inr (), s')"
  shows "\<exists>fs f. disk_get (st_disk s) from = Some f \<and>
    s' = on_disk (\<lambda>d. disk_put to f (d\<lparr>d_files := dir_del from (d_files d)\<rparr>)) (set_faults fs s)"
  using assms
  by (auto simp: sys_rename_def smodify_def serr_def dest!: syscall_ok split: option.splits if_splits)

lemma sys_set_len_ok:
  "sys_set_len name n s = (Inr (), s') \<Longrightarrow> \<exists>fs. s' = on_disk (\<lambda>d. case content_at d name of
     Some c \<Rightarrow> set_content name (take n c @ replicate (n - length c) 0) d | None \<Rightarrow> d) (set_faults fs s)"
  by (auto simp: sys_set_len_def smodify_def dest!: syscall_ok)

section \<open>The writer\<close>

lemma seg_content_upd: "content_at d' = (content_at d)(SegmentName_file_name a \<mapsto> c) \<Longrightarrow> seg d' = (seg d)(a \<mapsto> c)"
  by (auto simp: seg_def fun_eq_iff)

definition writer_ok :: "'x writer_state_scheme \<Rightarrow> bool" where
  "writer_ok s \<longleftrightarrow> disk_ok (st_disk s) \<and>
     (\<exists>c. seg (st_disk s) (sw_active_segment (st_writer s)) = Some c \<and>
        SEGMENT_FILE_HEADER_LEN \<le> length c \<and> unat (sw_segment_len (st_writer s)) = length c) \<and>
     (\<forall>n. seg (st_disk s) n \<noteq> None \<longrightarrow> n \<le> sw_active_segment (st_writer s))"

lemma sync_current_segment_ok:
  assumes "sync_current_segment s = (Inr (), s')"
  shows "content_at (st_disk s') = content_at (st_disk s)" and "disk_ok (st_disk s) \<Longrightarrow> disk_ok (st_disk s')"
    and "io_state.more s' = io_state.more s" and "st_metrics s' = segment_synced (st_metrics s)"
  using assms
  by (auto simp: sync_current_segment_def count_metric_def smodify_def result_simps mark_durable_effect sget_def
      dest!: sys_sync_ok)

lemma SegmentWriter_sync_ok:
  assumes "SegmentWriter_sync s = (Inr (), s')"
  shows "content_at (st_disk s') = content_at (st_disk s)" and "disk_ok (st_disk s) \<Longrightarrow> disk_ok (st_disk s')"
    and "io_state.more s' = io_state.more s" and "m_unsynced_records (st_metrics s') = 0"
  using assms
  by (auto simp: SegmentWriter_sync_def sret_def sync_current_segment_ok split: if_splits)

lemma next_append_ok:
  assumes "SegmentName_next_append n = Inr m"
  shows "m = n + 1" and "n < m"
proof -
  have add: "checked_add n 1 = Some m" using assms by (auto simp: SegmentName_next_append_def result_simps)
  then show "m = n + 1" by (simp add: checked_add_def split: if_splits)
  show "n < m" using unat_checked_add [OF add] by (simp add: word_less_nat_alt)
qed

lemma create_active_segment_file_ok:
  assumes "create_active_segment_file name s = (Inr (), s')"
  shows "disk_get (st_disk s) name = None"
    and "content_at (st_disk s') = (content_at (st_disk s))(name \<mapsto> SEGMENT_FORMAT_MAGIC)"
    and "disk_ok (st_disk s) \<Longrightarrow> disk_ok (st_disk s')" and "io_state.more s' = io_state.more s"
    and "st_metrics s' = st_metrics s"
proof -
  obtain s1 where s1: "sys_create_new name s = (Inr (), s1)" and s2: "sys_write_all name SEGMENT_FORMAT_MAGIC s1 = (Inr (), s')"
    using assms by (auto simp: create_active_segment_file_def result_simps)
  obtain fs1 where e1: "s1 = on_disk (disk_put name empty_file) (set_faults fs1 s)" using sys_create_new_ok [OF s1] by blast
  have c1: "content_at (st_disk s1) name = Some []" by (simp add: e1 content_at_put empty_file_def)
  obtain fs2 where e2: "s' = on_disk (append_content name SEGMENT_FORMAT_MAGIC) (set_faults fs2 s1)"
    using sys_write_all_ok [OF s2 c1] by blast
  show "disk_get (st_disk s) name = None" by (rule sys_create_new_ok(1) [OF s1])
  have "content_at (st_disk s') = (content_at (st_disk s1))(name \<mapsto> SEGMENT_FORMAT_MAGIC)"
    using append_content_effect(1) [of "(st_disk s1)\<lparr>d_faults := fs2\<rparr>"] c1 by (simp add: e2)
  then show "content_at (st_disk s') = (content_at (st_disk s))(name \<mapsto> SEGMENT_FORMAT_MAGIC)"
    by (simp add: e1 content_at_put empty_file_def)
  show "disk_ok (st_disk s) \<Longrightarrow> disk_ok (st_disk s')" "io_state.more s' = io_state.more s" "st_metrics s' = st_metrics s"
    by (simp_all add: e2 e1 append_content_effect)
qed

text \<open>The steps of a successful rotation and of a successful append.\<close>

lemma SegmentWriter_rotate_steps:
  assumes "SegmentWriter_rotate s = (Inr (), s')"
  obtains a s1 s2 fs where "sync_current_segment s = (Inr (), s1)"
    and "SegmentName_next_append (sw_active_segment (st_writer s)) = Inr a"
    and "create_active_segment_file (SegmentName_file_name a) s1 = (Inr (), s2)"
    and "s' = on_metrics (segment_rotated a (of_nat SEGMENT_FILE_HEADER_LEN)) ((set_faults fs s2)
      \<lparr>st_writer := (st_writer s)\<lparr>sw_active_segment := a, sw_segment_len := of_nat SEGMENT_FILE_HEADER_LEN\<rparr>\<rparr>)"
proof -
  obtain a s1 s2 s3 where s1: "sync_current_segment s = (Inr (), s1)"
    and a: "SegmentName_next_append (sw_active_segment (st_writer s1)) = Inr a"
    and s2: "create_active_segment_file (SegmentName_file_name a) s1 = (Inr (), s2)" and s3: "sys_sync_dir s2 = (Inr (), s3)"
    and s': "s' = on_metrics (segment_rotated a (of_nat SEGMENT_FILE_HEADER_LEN))
      (s3\<lparr>st_writer := (st_writer s3)\<lparr>sw_active_segment := a, sw_segment_len := of_nat SEGMENT_FILE_HEADER_LEN\<rparr>\<rparr>)"
    using assms
    by (auto simp: SegmentWriter_rotate_def result_simps sget_def slift_def on_writer_def count_metric_def smodify_def)
  obtain fs where fs: "s3 = set_faults fs s2" using sys_sync_dir_ok [OF s3] by blast
  have w: "st_writer s1 = st_writer s" using writer_more(1) sync_current_segment_ok(3) [OF s1] by blast
  have "io_state.more s3 = io_state.more s1" using create_active_segment_file_ok(4) [OF s2] by (simp add: fs)
  then have "st_writer s3 = st_writer s1" by (rule writer_more(1))
  then show thesis using that [OF s1 _ s2, of fs] a s' w fs by simp
qed

lemma SegmentWriter_append_steps:
  assumes "SegmentWriter_append N n r s = (Inr p, s')"
  obtains frame wb s1 s2 len where "encode_record_frame N n r = Inr frame" and "u64_try_from (length frame) = Some wb"
    and "(if should_rotate (st_writer s) wb then SegmentWriter_rotate else sret ()) s = (Inr (), s1)"
    and "sys_write_all (SegmentName_file_name (sw_active_segment (st_writer s1))) frame s1 = (Inr (), s2)"
    and "checked_add (sw_segment_len (st_writer s1)) wb = Some len"
    and "p = RecordPosition (sw_active_segment (st_writer s1)) (sw_segment_len (st_writer s1))"
    and "s' = on_metrics (segment_written len) (on_metrics (record_written (metric_kind r) wb)
       (s2\<lparr>st_writer := (st_writer s1)\<lparr>sw_segment_len := len\<rparr>\<rparr>))"
proof -
  obtain frame wb s1 s2 len where steps: "encode_record_frame N n r = Inr frame" "u64_try_from (length frame) = Some wb"
    "(if should_rotate (st_writer s) wb then SegmentWriter_rotate else sret ()) s = (Inr (), s1)"
    and s2: "sys_write_all (SegmentName_file_name (sw_active_segment (st_writer s1))) frame s1 = (Inr (), s2)"
    and len: "checked_add (sw_segment_len (st_writer s1)) wb = Some len"
      "p = RecordPosition (sw_active_segment (st_writer s1)) (sw_segment_len (st_writer s1))"
    and s': "s' = on_metrics (segment_written len) (on_metrics (record_written (metric_kind r) wb)
       (s2\<lparr>st_writer := (st_writer s2)\<lparr>sw_segment_len := len\<rparr>\<rparr>))"
    using assms
    by (auto simp: SegmentWriter_append_def result_simps slift_def sget_def sret_def on_writer_def count_metric_def
        smodify_def Let_def)
  have "io_state.more s2 = io_state.more s1"
    using s2 next_fault_ok [of s1] by (auto simp: sys_write_all_def Let_def smodify_def serr_def split: option.splits if_splits)
  then have "st_writer s2 = st_writer s1" by (rule writer_more(1))
  then show thesis using that [OF steps s2 len] s' by simp
qed

lemma SegmentWriter_rotate_ok:
  assumes "SegmentWriter_rotate s = (Inr (), s')" and "disk_ok (st_disk s)"
  shows "\<exists>a. sw_active_segment (st_writer s) < a \<and> content_at (st_disk s) (SegmentName_file_name a) = None \<and>
    content_at (st_disk s') = (content_at (st_disk s))(SegmentName_file_name a \<mapsto> SEGMENT_FORMAT_MAGIC) \<and>
    disk_ok (st_disk s') \<and> writer_state.more s' = writer_state.more s \<and>
    st_writer s' = (st_writer s)\<lparr>sw_active_segment := a, sw_segment_len := of_nat SEGMENT_FILE_HEADER_LEN\<rparr>"
proof -
  obtain a s1 s2 fs where s1: "sync_current_segment s = (Inr (), s1)"
    and a: "SegmentName_next_append (sw_active_segment (st_writer s)) = Inr a"
    and s2: "create_active_segment_file (SegmentName_file_name a) s1 = (Inr (), s2)"
    and s': "s' = on_metrics (segment_rotated a (of_nat SEGMENT_FILE_HEADER_LEN)) ((set_faults fs s2)
      \<lparr>st_writer := (st_writer s)\<lparr>sw_active_segment := a, sw_segment_len := of_nat SEGMENT_FILE_HEADER_LEN\<rparr>\<rparr>)"
    using assms(1) by (rule SegmentWriter_rotate_steps)
  note sync = sync_current_segment_ok [OF s1] and new = create_active_segment_file_ok [OF s2]
  have "content_at (st_disk s) (SegmentName_file_name a) = None"
    using new(1) by (simp add: sync(1) [symmetric] content_at_def file_at_def)
  moreover have "content_at (st_disk s') = (content_at (st_disk s))(SegmentName_file_name a \<mapsto> SEGMENT_FORMAT_MAGIC)"
    using new(2) by (simp add: s' sync(1))
  moreover have "disk_ok (st_disk s')" using sync(2) [OF assms(2)] new(3) by (simp add: s')
  moreover have "writer_state.more s' = writer_state.more s"
    using writer_more(2) [of "set_faults fs s2" s2] writer_more(2) [OF new(4)] writer_more(2) [OF sync(3)]
    by (simp add: s' on_metrics_def)
  moreover have "st_writer s' = (st_writer s)\<lparr>sw_active_segment := a, sw_segment_len := of_nat SEGMENT_FILE_HEADER_LEN\<rparr>"
    by (simp add: s' on_metrics_def)
  ultimately show ?thesis using next_append_ok(2) [OF a] by blast
qed

lemma active_after_rotation:
  assumes "(if b then SegmentWriter_rotate else sret ()) s = (Inr (), s1)" and "writer_ok s"
  shows "\<exists>base. seg (st_disk s1) (sw_active_segment (st_writer s1)) = Some base \<and>
    unat (sw_segment_len (st_writer s1)) = length base \<and> SEGMENT_FILE_HEADER_LEN \<le> length base \<and>
    (sw_active_segment (st_writer s1) = sw_active_segment (st_writer s) \<and>
       seg (st_disk s) (sw_active_segment (st_writer s1)) = Some base \<or>
     sw_active_segment (st_writer s) < sw_active_segment (st_writer s1) \<and>
       seg (st_disk s) (sw_active_segment (st_writer s1)) = None \<and> base = SEGMENT_FORMAT_MAGIC) \<and>
    content_at (st_disk s1) =
      (content_at (st_disk s))(SegmentName_file_name (sw_active_segment (st_writer s1)) \<mapsto> base) \<and>
    disk_ok (st_disk s1) \<and> writer_state.more s1 = writer_state.more s"
proof (cases b)
  case True
  then obtain a where a: "sw_active_segment (st_writer s) < a"
      "content_at (st_disk s) (SegmentName_file_name a) = None"
      "content_at (st_disk s1) = (content_at (st_disk s))(SegmentName_file_name a \<mapsto> SEGMENT_FORMAT_MAGIC)"
      "disk_ok (st_disk s1)" "writer_state.more s1 = writer_state.more s"
      "st_writer s1 = (st_writer s)\<lparr>sw_active_segment := a, sw_segment_len := of_nat SEGMENT_FILE_HEADER_LEN\<rparr>"
    using SegmentWriter_rotate_ok [of s s1] assms by (auto simp: writer_ok_def)
  then show ?thesis
    by (intro exI [of _ SEGMENT_FORMAT_MAGIC])
      (simp add: seg_def SEGMENT_FORMAT_MAGIC_def SEGMENT_FILE_HEADER_LEN_def)
next
  case False
  with assms show ?thesis by (auto simp: sret_def writer_ok_def seg_def fun_eq_iff)
qed

text \<open>
  A successful append writes the frame behind the content of the active segment, or behind the
  header of a new segment that is then active, and returns where the frame starts.
\<close>

lemma SegmentWriter_append_ok:
  assumes "SegmentWriter_append N n r s = (Inr pos, s')" and "writer_ok s"
  obtains frame a base where "encode_record_frame N n r = Inr frame"
    and "pos = RecordPosition a (of_nat (length base))"
    and "content_at (st_disk s') = (content_at (st_disk s))(SegmentName_file_name a \<mapsto> base @ frame)"
    and "a = sw_active_segment (st_writer s) \<and> seg (st_disk s) a = Some base \<or>
      sw_active_segment (st_writer s) < a \<and> seg (st_disk s) a = None \<and> base = SEGMENT_FORMAT_MAGIC"
    and "sw_active_segment (st_writer s') = a" and "length (base @ frame) \<le> MAX_FILE_LEN"
    and "writer_ok s'" and "writer_state.more s' = writer_state.more s"
proof -
  obtain frame wb s1 s2 len where enc: "encode_record_frame N n r = Inr frame"
    and wb: "u64_try_from (length frame) = Some wb"
    and s1: "(if should_rotate (st_writer s) wb then SegmentWriter_rotate else sret ()) s = (Inr (), s1)"
    and s2: "sys_write_all (SegmentName_file_name (sw_active_segment (st_writer s1))) frame s1 = (Inr (), s2)"
    and len: "checked_add (sw_segment_len (st_writer s1)) wb = Some len"
    and pos: "pos = RecordPosition (sw_active_segment (st_writer s1)) (sw_segment_len (st_writer s1))"
    and s': "s' = on_metrics (segment_written len) (on_metrics (record_written (metric_kind r) wb)
       (s2\<lparr>st_writer := (st_writer s1)\<lparr>sw_segment_len := len\<rparr>\<rparr>))"
    using assms(1) by (rule SegmentWriter_append_steps)
  define a where "a = sw_active_segment (st_writer s1)"
  obtain base where base: "seg (st_disk s1) a = Some base" "unat (sw_segment_len (st_writer s1)) = length base"
      "SEGMENT_FILE_HEADER_LEN \<le> length base"
    and cases: "a = sw_active_segment (st_writer s) \<and> seg (st_disk s) a = Some base \<or>
      sw_active_segment (st_writer s) < a \<and> seg (st_disk s) a = None \<and> base = SEGMENT_FORMAT_MAGIC"
    and content1: "content_at (st_disk s1) = (content_at (st_disk s))(SegmentName_file_name a \<mapsto> base)"
    and ok1: "disk_ok (st_disk s1)" and more1: "writer_state.more s1 = writer_state.more s"
    using active_after_rotation [OF s1 assms(2)] unfolding a_def by blast
  have c1: "content_at (st_disk s1) (SegmentName_file_name a) = Some base" using base(1) by (simp add: seg_def)
  obtain fs where s2e: "s2 = on_disk (append_content (SegmentName_file_name a) frame) (set_faults fs s1)"
    and max: "length base + length frame \<le> MAX_FILE_LEN"
    using sys_write_all_ok [OF s2 [folded a_def] c1] by blast
  have content: "content_at (st_disk s') = (content_at (st_disk s))(SegmentName_file_name a \<mapsto> base @ frame)"
    using append_content_effect(1) [of "(st_disk s1)\<lparr>d_faults := fs\<rparr>"] c1 content1 by (simp add: s' s2e)
  have more2: "io_state.more s2 = io_state.more s1" by (simp add: s2e)
  have w: "st_writer s' = (st_writer s1)\<lparr>sw_segment_len := len\<rparr>" and more: "writer_state.more s' = writer_state.more s"
    using writer_more [OF more2] more1 by (simp_all add: s' on_metrics_def)
  have len': "unat len = length (base @ frame)"
    using unat_checked_add [OF len] wb base(2) by (auto simp: u64_try_from_def unat_of_nat_u64 split: if_splits)
  have top: "\<forall>n. seg (st_disk s) n \<noteq> None \<longrightarrow> n \<le> a"
    using assms(2) cases by (auto simp: writer_ok_def)
  have "writer_ok s'"
    unfolding writer_ok_def seg_content_upd [OF content] w
    using ok1 len' base(3) top
    by (auto simp: s' s2e a_def [symmetric] append_content_effect split: if_splits)
  moreover have "pos = RecordPosition a (of_nat (length base))"
    using pos by (simp add: a_def base(2) [symmetric])
  ultimately show thesis
    using that [OF enc _ content cases] max w more by (simp add: a_def)
qed

end
