(* ===== verification/Meta_Laws.thy ===== *)
theory Meta_Laws
  imports CheckpointIndex Segment_Laws
begin

text \<open>
  The node registry and the checkpoint index: their in-memory operations, the round trip of both
  through their JSON files, and the garbage collection barrier.
\<close>

section \<open>The registry in memory\<close>

lemma Registry_nodes_mem:
  "bt_wf reg \<Longrightarrow> fst ` set (Registry_nodes reg) = {n. is_active reg n}"
proof -
  assume "bt_wf reg"
  then have iff: "(n, e) \<in> set reg \<longleftrightarrow> bt_get reg n = Some e" for n e
    by (simp add: strict_sorted_iff)
  have "is_active reg n \<longleftrightarrow> (\<exists>e. (n, e) \<in> set reg \<and> \<not> re_removed e)" for n
    unfolding iff by (auto simp: is_active_def split: option.splits)
  then show ?thesis by (force simp: Registry_nodes_def)
qed

lemma fold_bts_insert:
  "bts_wf s \<Longrightarrow> bts_wf (fold bts_insert ns s) \<and> set (fold bts_insert ns s) = set ns \<union> set s"
  by (induction ns arbitrary: s) (auto simp: bts_wf_insert bts_insert_set)

lemma active_node_ids:
  assumes "bt_wf reg"
  shows "bts_wf (active_node_ids reg)" and "set (active_node_ids reg) = {n. is_active reg n}"
  using fold_bts_insert [of "[]" "map fst (Registry_nodes reg)"] Registry_nodes_mem [OF assms]
  by (auto simp: active_node_ids_def)

lemma Registry_create_ok:
  assumes "Registry_create_node n meta reg = Inr reg'"
  shows "bt_get reg n = None" and "reg' = bt_insert n \<lparr>re_metadata = meta, re_removed = False\<rparr> reg"
  using assms by (auto simp: Registry_create_node_def split: option.splits)

lemma Registry_remove_ok:
  assumes "Registry_remove_node n reg = Inr reg'"
  obtains e where "bt_get reg n = Some e" and "\<not> re_removed e" and "reg' = bt_insert n (e\<lparr>re_removed := True\<rparr>) reg"
  using assms by (auto simp: Registry_remove_node_def split: option.splits if_splits)

section \<open>Text\<close>

lemma bytes_text_bytes [simp]: "bytes_text (text_bytes s) = s"
proof -
  have "unat (of_nat (of_char c) :: u8) = of_char c" for c
    using nat_of_char_less_256 [of c] by (simp only: unat_of_nat) (simp add: take_bit_nat_eq_self)
  then show ?thesis by (induction s) (simp_all add: text_bytes_def bytes_text_def)
qed

section \<open>JSON files\<close>

lemma utf8_digits: "list_all is_ascii_digit s \<Longrightarrow> utf8_valid (text_bytes s)"
proof (rule utf8_ascii)
  assume "list_all is_ascii_digit s"
  then have "(of_nat (of_char c) :: u8) < 0x80" if "c \<in> set s" for c
    using that by (auto simp: list_all_iff is_ascii_digit_def word_less_nat_alt unat_of_nat take_bit_nat_eq_self)
  then show "list_all (\<lambda>b. b < 0x80) (text_bytes s)" by (simp add: text_bytes_def list_all_iff del: of_nat_of_char)
qed

lemma utf8_node_key: "utf8_valid (text_bytes (node_key n))"
  unfolding node_key_def using show_nat_digits by (intro utf8_digits) blast

lemma parse_node_key: "parse_u64 (node_key n) = Some n"
  by (simp add: node_key_def parse_show_u64)

lemma node_key_inj: "node_key m = node_key n \<Longrightarrow> m = n"
  by (metis parse_node_key option.inject)

text \<open>The members of an object that a value shows.\<close>

lemma shows_member:
  assumes "json_shows J (JObject ms) v" and "(k, doc) \<in> set ms"
  shows "\<exists>w. nj_member J v k = Inr w \<and> json_shows J doc w"
proof -
  obtain kvs where all2: "list_all2 (\<lambda>m kv. nj_unquoted J (fst kv) = Inr (fst m) \<and> snd m (snd kv))
        (map (map_prod id (json_shows J)) ms) kvs"
    and mem: "\<forall>i < length ms. nj_member J v (fst (ms ! i)) = Inr (snd (kvs ! i))"
    using assms(1) by auto
  obtain i where i: "i < length ms" "ms ! i = (k, doc)" using assms(2) by (auto simp: in_set_conv_nth)
  have "json_shows J doc (snd (kvs ! i))"
    using list_all2_nthD [OF all2, of i] i by simp
  then show ?thesis using mem i by force
qed

definition nodes_doc :: "('e \<Rightarrow> json_doc) \<Rightarrow> (NodeId, 'e) btmap \<Rightarrow> json_doc" where
  "nodes_doc entry_doc es = JObject (map (\<lambda>(n, e). (node_key n, entry_doc e)) es)"

text \<open>
  Both files map decimal node keys to entries. An entry type whose documents parse back gives a
  map whose documents parse back.
\<close>

locale node_map =
  fixes J :: "'v nojson"
    and parse_entry :: "'v \<Rightarrow> string + 'e"
    and entry_doc :: "'e \<Rightarrow> json_doc"
    and entry_ok :: "'e \<Rightarrow> bool"
  assumes entry: "json_shows J (entry_doc e) v \<Longrightarrow> parse_entry v = Inr e"
    and entry_doc_ok: "entry_ok e \<Longrightarrow> doc_ok J (entry_doc e)"
begin

lemma parse_members:
  assumes "list_all2 (\<lambda>m kv. nj_unquoted J (fst kv) = Inr (fst m) \<and> snd m (snd kv))
      (map (\<lambda>(n, e). (node_key n, json_shows J (entry_doc e))) es) kvs"
    and "bt_wf (acc @ es)"
  shows "fold_result (parse_node_member J parse_entry) acc kvs = Inr (acc @ es)"
  using assms
proof (induction es arbitrary: acc kvs)
  case Nil
  then show ?case by simp
next
  case (Cons x es)
  obtain n e where x: "x = (n, e)" by fastforce
  obtain kv kvs' where kvs: "kvs = kv # kvs'" "nj_unquoted J (fst kv) = Inr (node_key n)" "json_shows J (entry_doc e) (snd kv)"
    and rest: "list_all2 (\<lambda>m kv. nj_unquoted J (fst kv) = Inr (fst m) \<and> snd m (snd kv))
      (map (\<lambda>(n, e). (node_key n, json_shows J (entry_doc e))) es) kvs'"
    using Cons.prems(1) by (auto simp: x list_all2_Cons1)
  have less: "\<And>y. y \<in> fst ` set acc \<Longrightarrow> y < n" using Cons.prems(2) by (auto simp: x sorted_wrt_append)
  then have "bt_get acc n = None" by (metis less_irrefl map_of_eq_None_iff)
  then have "parse_node_member J parse_entry acc kv = Inr (acc @ [(n, e)])"
    using kvs less by (simp add: parse_node_member_def parse_node_key entry bt_insert_snoc)
  then show ?case
    using Cons.IH [OF rest, of "acc @ [(n, e)]"] Cons.prems(2) by (simp add: kvs(1) x)
qed

lemma parse_nodes:
  assumes "json_shows J (nodes_doc entry_doc es) v" and "bt_wf es"
  shows "rbind (nj_to_object J v) (fold_result (parse_node_member J parse_entry) []) = Inr es"
proof -
  have eq: "map (map_prod id (json_shows J) \<circ> (\<lambda>(n, e). (node_key n, entry_doc e))) es =
      map (\<lambda>(n, e). (node_key n, json_shows J (entry_doc e))) es"
    by (rule map_cong) auto
  obtain kvs where "nj_to_object J v = Inr kvs"
    "list_all2 (\<lambda>m kv. nj_unquoted J (fst kv) = Inr (fst m) \<and> snd m (snd kv))
      (map (\<lambda>(n, e). (node_key n, json_shows J (entry_doc e))) es) kvs"
    using assms(1) unfolding nodes_doc_def json_shows.simps map_map eq by blast
  then show ?thesis using parse_members [of es kvs "[]"] assms(2) by simp
qed

lemma nodes_doc_ok:
  assumes "bt_wf es" and "\<forall>(n, e) \<in> set es. entry_ok e"
  shows "doc_ok J (nodes_doc entry_doc es)"
proof -
  have "distinct (map node_key (map fst es))"
    using bt_wf_distinct [OF assms(1)] node_key_inj by (simp only: distinct_map) (auto intro: inj_onI)
  moreover have "map fst (map (\<lambda>(n, e). (node_key n, entry_doc e)) es) = map node_key (map fst es)"
    by auto
  ultimately show ?thesis
    using assms(2) entry_doc_ok
    by (auto simp: nodes_doc_def list_all_iff utf8_node_key comp_def split_def)
qed

end

section \<open>The registry file\<close>

lemma ascii_keys [simp]:
  "utf8_valid (text_bytes ''startup'')" "utf8_valid (text_bytes ''metadata'')" "utf8_valid (text_bytes ''removed'')"
  "utf8_valid (text_bytes ''version'')" "utf8_valid (text_bytes ''nodes'')"
  "utf8_valid (text_bytes ''checkpoint_segment'')" "utf8_valid (text_bytes ''checkpoint_offset'')"
  by (rule utf8_ascii, simp add: text_bytes_def)+

lemma utf8_file_name: "utf8_valid (text_bytes (SegmentName_file_name n))"
proof -
  have "utf8_valid (text_bytes ''append-'')" "utf8_valid (text_bytes SEGMENT_FILE_SUFFIX)"
    by (rule utf8_ascii, simp add: text_bytes_def SEGMENT_FILE_SUFFIX_def)+
  moreover have "utf8_valid (text_bytes (show_nat (unat n)))"
    using show_nat_digits [of "unat n"] by (intro utf8_digits) simp
  ultimately show ?thesis
    unfolding SegmentName_file_name_def text_bytes_append by (intro utf8_append)
qed

definition entry_ok :: "'v nojson \<Rightarrow> NodeRegistryEntry \<Rightarrow> bool" where
  "entry_ok J e \<longleftrightarrow> raw_ok J (nm_metadata (re_metadata e))"

definition registry_ok :: "'v nojson \<Rightarrow> NodeRegistry \<Rightarrow> bool" where
  "registry_ok J reg \<longleftrightarrow> bt_wf reg \<and> (\<forall>(n, e) \<in> set reg. entry_ok J e)"

lemma parse_registry_entry:
  assumes "json_shows J (registry_entry_doc e) v"
  shows "parse_node_registry_entry J v = Inr e"
proof -
  note member = shows_member [OF assms [unfolded registry_entry_doc_def]]
  obtain w1 w2 w3 where "nj_member J v ''startup'' = Inr w1" "json_shows J (JBool (nm_startup (re_metadata e))) w1"
    "nj_member J v ''metadata'' = Inr w2" "json_shows J (JRaw (nm_metadata (re_metadata e))) w2"
    "nj_member J v ''removed'' = Inr w3" "json_shows J (JBool (re_removed e)) w3"
    using member [of "''startup''"] member [of "''metadata''"] member [of "''removed''"] by auto
  then show ?thesis
    by (cases e; cases "re_metadata e") (simp add: parse_node_registry_entry_def)
qed

interpretation registry_json: node_map J "parse_node_registry_entry J" registry_entry_doc "entry_ok J"
  for J :: "'v nojson"
  by unfold_locales (auto simp: parse_registry_entry entry_ok_def registry_entry_doc_def)

lemma registry_doc_nodes: "registry_doc reg = JObject [(''version'', JU64 NODE_REGISTRY_VERSION), (''nodes'', nodes_doc registry_entry_doc reg)]"
  by (simp add: registry_doc_def nodes_doc_def)

lemma parse_registry_doc:
  assumes "json_shows J (registry_doc reg) v" and "bt_wf reg"
  shows "parse_node_registry J v = Inr reg"
proof -
  note member = shows_member [OF assms(1) [unfolded registry_doc_nodes]]
  obtain w1 w2 where "nj_member J v ''version'' = Inr w1" "nj_u64 J w1 = Inr NODE_REGISTRY_VERSION"
    "nj_member J v ''nodes'' = Inr w2" "json_shows J (nodes_doc registry_entry_doc reg) w2"
    using member [of "''version''"] member [of "''nodes''"] by (auto simp: nodes_doc_def)
  then show ?thesis
    using registry_json.parse_nodes [of J reg w2] assms(2) by (simp add: parse_node_registry_def)
qed

lemma read_text_file_content:
  assumes "content_at d path = Some (text_bytes text)" and "utf8_valid (text_bytes text)"
  shows "read_text_file d path = Inr (Some text)"
  using assms
  by (auto simp: read_text_file_def content_at_def file_at_def split: option.splits dirent.splits)

lemma utf8_newline: "utf8_valid (text_bytes s) \<Longrightarrow> utf8_valid (text_bytes (s @ [CHR 0x0A]))"
  by (simp add: utf8_append) (rule utf8_append, simp_all add: text_bytes_def)

text \<open>What \<^verbatim>\<open>save\<close> wrote, \<^verbatim>\<open>load\<close> reads back.\<close>

lemma NodeRegistry_load_saved:
  assumes "json_laws J" and "registry_ok J reg"
    and "content_at d NODE_REGISTRY_FILE_NAME = Some (text_bytes (format_node_registry J reg))"
  shows "NodeRegistry_load J d = Inr reg"
proof -
  have "doc_ok J (registry_doc reg)"
    using registry_json.nodes_doc_ok [of reg J] assms(2) by (simp add: registry_doc_nodes registry_ok_def)
  then obtain v where utf8: "utf8_valid (text_bytes (nj_format J (registry_doc reg)))"
    and v: "nj_parse J (format_node_registry J reg) = Inr v" "json_shows J (registry_doc reg) v"
    using assms(1) by (auto simp: json_laws_def format_node_registry_def)
  have "read_text_file d NODE_REGISTRY_FILE_NAME = Inr (Some (format_node_registry J reg))"
    using assms(3) utf8_newline [OF utf8] by (intro read_text_file_content) (simp_all add: format_node_registry_def)
  then show ?thesis
    using v parse_registry_doc [OF v(2)] assms(2) by (simp add: NodeRegistry_load_def registry_ok_def)
qed

section \<open>The checkpoint index\<close>

lemma parse_checkpoint_entry:
  assumes "json_shows J (checkpoint_node_doc p) v"
  shows "parse_checkpoint_node_index J v = Inr p"
proof -
  note member = shows_member [OF assms [unfolded checkpoint_node_doc_def]]
  obtain w1 w2 where "nj_member J v ''checkpoint_segment'' = Inr w1"
    "nj_string J w1 = Inr (SegmentName_file_name (rp_segment p))"
    "nj_member J v ''checkpoint_offset'' = Inr w2" "nj_u64 J w2 = Inr (rp_offset p)"
    using member [of "''checkpoint_segment''"] member [of "''checkpoint_offset''"] by auto
  then show ?thesis
    by (cases p) (simp add: parse_checkpoint_node_index_def SegmentName_parse_file_name)
qed

interpretation index_json: node_map J "parse_checkpoint_node_index J" checkpoint_node_doc "\<lambda>_. True"
  for J :: "'v nojson"
  by unfold_locales (auto simp: parse_checkpoint_entry checkpoint_node_doc_def utf8_file_name)

lemma checkpoint_index_doc_nodes:
  "checkpoint_index_doc idx =
     JObject [(''version'', JU64 CHECKPOINT_INDEX_VERSION), (''nodes'', nodes_doc checkpoint_node_doc idx)]"
  by (simp add: checkpoint_index_doc_def nodes_doc_def)

lemma parse_checkpoint_index_doc:
  assumes "json_shows J (checkpoint_index_doc idx) v" and "bt_wf idx"
  shows "parse_checkpoint_index J v = Inr idx"
proof -
  note member = shows_member [OF assms(1) [unfolded checkpoint_index_doc_nodes]]
  obtain w1 w2 where "nj_member J v ''version'' = Inr w1" "nj_u64 J w1 = Inr CHECKPOINT_INDEX_VERSION"
    "nj_member J v ''nodes'' = Inr w2" "json_shows J (nodes_doc checkpoint_node_doc idx) w2"
    using member [of "''version''"] member [of "''nodes''"] by (auto simp: nodes_doc_def)
  then show ?thesis
    using index_json.parse_nodes [of J idx w2] assms(2) by (simp add: parse_checkpoint_index_def)
qed

lemma CheckpointIndex_load_saved:
  assumes "json_laws J" and "bt_wf idx"
    and "content_at d CHECKPOINT_INDEX_FILE_NAME = Some (text_bytes (format_checkpoint_index J idx))"
  shows "CheckpointIndex_load N J d reg =
    (let index = bt_retain (\<lambda>n _. is_active reg n) idx in
     rbind (validate_checkpoint_positions N d index) (\<lambda>_. Inr index))"
proof -
  have "doc_ok J (checkpoint_index_doc idx)"
    using index_json.nodes_doc_ok [of idx J] assms(2) by (simp add: checkpoint_index_doc_nodes split_def)
  then obtain v where utf8: "utf8_valid (text_bytes (nj_format J (checkpoint_index_doc idx)))"
    and v: "nj_parse J (format_checkpoint_index J idx) = Inr v" "json_shows J (checkpoint_index_doc idx) v"
    using assms(1) by (auto simp: json_laws_def format_checkpoint_index_def)
  have "read_text_file d CHECKPOINT_INDEX_FILE_NAME = Inr (Some (format_checkpoint_index J idx))"
    using assms(3) utf8_newline [OF utf8] by (intro read_text_file_content) (simp_all add: format_checkpoint_index_def)
  then show ?thesis
    using v parse_checkpoint_index_doc [OF v(2) assms(2)] by (simp add: CheckpointIndex_load_def)
qed

text \<open>The hints for \<^verbatim>\<open>load_all\<close> and the garbage collection barrier.\<close>

lemma fold_option_append: "fold_option f acc (xs @ ys) = Option.bind (fold_option f acc xs) (\<lambda>acc. fold_option f acc ys)"
  by (induction xs arbitrary: acc) (auto split: option.splits)

lemma checkpoint_positions_fold:
  assumes "fold_option (\<lambda>positions n. map_option (\<lambda>p. bt_insert n p positions) (checkpoint_position idx n)) m ids = Some h"
    and "bt_wf m"
  shows "bt_wf h \<and> (\<forall>n. bt_get h n = (if n \<in> set ids then bt_get idx n else bt_get m n)) \<and>
    (\<forall>n \<in> set ids. bt_get idx n \<noteq> None) \<and> (ids \<noteq> [] \<longrightarrow> h \<noteq> [])"
  using assms
proof (induction ids arbitrary: m)
  case Nil
  then show ?case by simp
next
  case (Cons n ids)
  then obtain p where p: "bt_get idx n = Some p"
    and rest: "fold_option (\<lambda>positions n. map_option (\<lambda>p. bt_insert n p positions) (checkpoint_position idx n))
      (bt_insert n p m) ids = Some h"
    by (auto simp: checkpoint_position_def split: option.splits)
  have IH: "bt_wf h \<and> (\<forall>k. bt_get h k = (if k \<in> set ids then bt_get idx k else bt_get (bt_insert n p m) k)) \<and>
      (\<forall>k \<in> set ids. bt_get idx k \<noteq> None)"
    using Cons.IH [OF rest] Cons.prems(2) by (simp add: bt_wf_insert)
  then have "bt_get h n = Some p" using p by (auto simp: bt_get_insert)
  then have "h \<noteq> []" by auto
  with IH p show ?case by (auto simp: bt_get_insert)
qed

lemma checkpoint_positions_Some:
  assumes "checkpoint_positions idx ids = Some h"
  shows "bt_wf h" and "bt_get h n = (if n \<in> set ids then bt_get idx n else None)"
    and "n \<in> set ids \<Longrightarrow> bt_get idx n \<noteq> None" and "ids \<noteq> [] \<Longrightarrow> h \<noteq> []"
  using checkpoint_positions_fold [OF assms [unfolded checkpoint_positions_def]] by auto

lemma gc_barrier_fold:
  assumes "fold_option (\<lambda>oldest n. map_option (\<lambda>p.
      Some (case oldest of Some o' \<Rightarrow> min o' (rp_segment p) | None \<Rightarrow> rp_segment p)) (checkpoint_position idx n))
      m ids = Some r"
  shows "(\<forall>n \<in> set ids. \<exists>p k. bt_get idx n = Some p \<and> r = Some k \<and> k \<le> rp_segment p) \<and>
    (\<forall>k. m = Some k \<longrightarrow> (\<exists>j. r = Some j \<and> j \<le> k)) \<and> (ids = [] \<longrightarrow> r = m)"
  using assms
proof (induction ids arbitrary: m)
  case Nil
  then show ?case by simp
next
  case (Cons n ids)
  then obtain p where p: "bt_get idx n = Some p"
    and rest: "fold_option (\<lambda>oldest n. map_option (\<lambda>p.
      Some (case oldest of Some o' \<Rightarrow> min o' (rp_segment p) | None \<Rightarrow> rp_segment p)) (checkpoint_position idx n))
      (Some (case m of Some o' \<Rightarrow> min o' (rp_segment p) | None \<Rightarrow> rp_segment p)) ids = Some r"
    by (auto simp: checkpoint_position_def split: option.splits)
  show ?case
    using Cons.IH [OF rest] p by (fastforce split: option.splits)
qed

text \<open>The barrier never lets a segment go that holds, or lies behind, an active node's indexed checkpoint.\<close>

lemma gc_barrier_safe:
  assumes "gc_barrier idx ids = Some b" and "allows_delete b k" and "n \<in> set ids"
  shows "\<exists>p. bt_get idx n = Some p \<and> k < rp_segment p"
proof -
  obtain r where r: "fold_option (\<lambda>oldest n. map_option (\<lambda>p.
      Some (case oldest of Some o' \<Rightarrow> min o' (rp_segment p) | None \<Rightarrow> rp_segment p)) (checkpoint_position idx n))
      None ids = Some r" and b: "b = (case r of Some segment \<Rightarrow> Before segment | None \<Rightarrow> AllInactiveAppendSegments)"
    using assms(1) by (auto simp: gc_barrier_def)
  obtain p j where "bt_get idx n = Some p" "r = Some j" "j \<le> rp_segment p"
    using gc_barrier_fold [OF r] assms(3) by blast
  then show ?thesis using b assms(2) by force
qed

end
