(* ===== verification/MetricsJson.thy ===== *)
theory MetricsJson
  imports Meta_Laws
begin

text \<open>
  The JSON documents as which \<^verbatim>\<open>src/metrics.rs\<close> displays its counters, and the proof that the text
  determines every counter.
\<close>

section \<open>Documents\<close>

definition RecordKindMetrics_doc :: "RecordKindMetrics \<Rightarrow> json_doc" where
  "RecordKindMetrics_doc m = JObject
     [(''current_term'', JU64 (rk_current_term m)),
      (''voted_for'', JU64 (rk_voted_for m)),
      (''log_append'', JU64 (rk_log_append m)),
      (''snapshot_checkpoint'', JU64 (rk_snapshot_checkpoint m))]"

definition OperationKindMetrics_doc :: "OperationKindMetrics \<Rightarrow> json_doc" where
  "OperationKindMetrics_doc m = JObject
     [(''load'', JU64 (ok_load m)),
      (''save_current_term'', JU64 (ok_save_current_term m)),
      (''save_voted_for'', JU64 (ok_save_voted_for m)),
      (''append_entries'', JU64 (ok_append_entries m)),
      (''save_snapshot'', JU64 (ok_save_snapshot m)),
      (''remove_node'', JU64 (ok_remove_node m))]"

definition RejectedOperationMetrics_doc :: "RejectedOperationMetrics \<Rightarrow> json_doc" where
  "RejectedOperationMetrics_doc m = JObject
     [(''unknown_nodes'', OperationKindMetrics_doc (ro_unknown_nodes m)),
      (''removed_nodes'', OperationKindMetrics_doc (ro_removed_nodes m))]"

definition StorageMetrics_doc :: "StorageMetrics \<Rightarrow> json_doc" where
  "StorageMetrics_doc m = JObject
     [(''records_written'', RecordKindMetrics_doc (m_records_written m)),
      (''bytes_written'', RecordKindMetrics_doc (m_bytes_written m)),
      (''records_replayed'', RecordKindMetrics_doc (m_records_replayed m)),
      (''bytes_replayed'', RecordKindMetrics_doc (m_bytes_replayed m)),
      (''segment_rotations'', JU64 (m_segment_rotations m)),
      (''syncs'', JU64 (m_syncs m)),
      (''durable_syncs'', JU64 (m_durable_syncs m)),
      (''replay_truncations'', JU64 (m_replay_truncations m)),
      (''checksum_failures'', JU64 (m_checksum_failures m)),
      (''nodes_created'', JU64 (m_nodes_created m)),
      (''nodes_removed'', JU64 (m_nodes_removed m)),
      (''rejected_operations'', RejectedOperationMetrics_doc (m_rejected_operations m)),
      (''snapshot_checkpoints_saved'', JU64 (m_snapshot_checkpoints_saved m)),
      (''gc_runs'', JU64 (m_gc_runs m)),
      (''gc_segments_deleted'', JU64 (m_gc_segments_deleted m)),
      (''active_nodes'', JU64 (m_active_nodes m)),
      (''removed_nodes'', JU64 (m_removed_nodes m)),
      (''checkpoint_index_nodes'', JU64 (m_checkpoint_index_nodes m)),
      (''active_append_segment_id'', JU64 (m_active_append_segment_id m)),
      (''active_append_segment_len_bytes'', JU64 (m_active_append_segment_len_bytes m)),
      (''unsynced_records'', JU64 (m_unsynced_records m)),
      (''unsynced_bytes'', JU64 (m_unsynced_bytes m))]"

text \<open>\<^verbatim>\<open>display_json\<close>, and the \<^verbatim>\<open>Display\<close> implementations that call it.\<close>

definition display_json :: "'v nojson \<Rightarrow> json_doc \<Rightarrow> string" where
  "display_json J doc = nj_compact J doc"


definition RecordKindMetrics_display :: "'v nojson \<Rightarrow> RecordKindMetrics \<Rightarrow> string" where
  "RecordKindMetrics_display J m = display_json J (RecordKindMetrics_doc m)"

definition RejectedOperationMetrics_display :: "'v nojson \<Rightarrow> RejectedOperationMetrics \<Rightarrow> string" where
  "RejectedOperationMetrics_display J m = display_json J (RejectedOperationMetrics_doc m)"

definition OperationKindMetrics_display :: "'v nojson \<Rightarrow> OperationKindMetrics \<Rightarrow> string" where
  "OperationKindMetrics_display J m = display_json J (OperationKindMetrics_doc m)"

section \<open>Reading the text back\<close>




lemma metrics_keys [simp]:
  "utf8_valid (text_bytes ''current_term'')" "utf8_valid (text_bytes ''voted_for'')" "utf8_valid (text_bytes ''log_append'')"
  "utf8_valid (text_bytes ''snapshot_checkpoint'')" "utf8_valid (text_bytes ''load'')"
  "utf8_valid (text_bytes ''save_current_term'')" "utf8_valid (text_bytes ''save_voted_for'')"
  "utf8_valid (text_bytes ''append_entries'')" "utf8_valid (text_bytes ''save_snapshot'')"
  "utf8_valid (text_bytes ''remove_node'')" "utf8_valid (text_bytes ''unknown_nodes'')" "utf8_valid (text_bytes ''removed_nodes'')"
  "utf8_valid (text_bytes ''records_written'')" "utf8_valid (text_bytes ''bytes_written'')"
  "utf8_valid (text_bytes ''records_replayed'')" "utf8_valid (text_bytes ''bytes_replayed'')"
  "utf8_valid (text_bytes ''segment_rotations'')" "utf8_valid (text_bytes ''syncs'')" "utf8_valid (text_bytes ''durable_syncs'')"
  "utf8_valid (text_bytes ''replay_truncations'')" "utf8_valid (text_bytes ''checksum_failures'')"
  "utf8_valid (text_bytes ''nodes_created'')" "utf8_valid (text_bytes ''nodes_removed'')"
  "utf8_valid (text_bytes ''rejected_operations'')" "utf8_valid (text_bytes ''snapshot_checkpoints_saved'')"
  "utf8_valid (text_bytes ''gc_runs'')" "utf8_valid (text_bytes ''gc_segments_deleted'')" "utf8_valid (text_bytes ''active_nodes'')"
  "utf8_valid (text_bytes ''checkpoint_index_nodes'')" "utf8_valid (text_bytes ''active_append_segment_id'')"
  "utf8_valid (text_bytes ''active_append_segment_len_bytes'')" "utf8_valid (text_bytes ''unsynced_records'')"
  "utf8_valid (text_bytes ''unsynced_bytes'')"
  by (rule utf8_ascii, simp add: text_bytes_def)+

lemma metrics_docs_ok:
  "doc_ok J (RecordKindMetrics_doc k)" "doc_ok J (OperationKindMetrics_doc p)" "doc_ok J (RejectedOperationMetrics_doc r)"
  "doc_ok J (StorageMetrics_doc m)"
proof -
  show kinds: "doc_ok J (RecordKindMetrics_doc k)" "doc_ok J (OperationKindMetrics_doc p)" for k p
    by (simp_all add: RecordKindMetrics_doc_def OperationKindMetrics_doc_def)
  then show rejected: "doc_ok J (RejectedOperationMetrics_doc r)" for r by (simp add: RejectedOperationMetrics_doc_def)
  show "doc_ok J (StorageMetrics_doc m)" using kinds rejected by (simp add: StorageMetrics_doc_def)
qed

section \<open>Documents of the same shape\<close>

primrec shape :: "json_doc \<Rightarrow> json_doc" where
  "shape (JU64 n) = JU64 0"
| "shape (JBool b) = JBool False"
| "shape (JString s) = JString []"
| "shape (JRaw t) = JRaw []"
| "shape (JObject ms) = JObject (map (map_prod id shape) ms)"

lemma shows_inj: "json_shows J d v \<Longrightarrow> json_shows J d' v \<Longrightarrow> shape d = shape d' \<Longrightarrow> d = d'"
proof (induction d arbitrary: d' v)
  case (JObject ms)
  obtain ms' where d': "d' = JObject ms'" "map (map_prod id shape) ms = map (map_prod id shape) ms'"
    using JObject.prems(3) by (cases d') auto
  then have len: "length ms = length ms'" by (metis length_map)
  obtain kvs where kvs: "nj_to_object J v = Inr kvs"
    "list_all2 (\<lambda>m kv. nj_unquoted J (fst kv) = Inr (fst m) \<and> snd m (snd kv)) (map (map_prod id (json_shows J)) ms) kvs"
    "list_all2 (\<lambda>m kv. nj_unquoted J (fst kv) = Inr (fst m) \<and> snd m (snd kv)) (map (map_prod id (json_shows J)) ms') kvs"
    using JObject.prems(1,2) d'(1) by auto
  have "ms ! i = ms' ! i" if i: "i < length ms" for i
  proof -
    have "map (map_prod id shape) ms ! i = map (map_prod id shape) ms' ! i" using d'(2) by simp
    then have eq: "fst (ms ! i) = fst (ms' ! i)" "shape (snd (ms ! i)) = shape (snd (ms' ! i))"
      using i len by (auto simp: map_prod_def split_def)
    have "json_shows J (snd (ms ! i)) (snd (kvs ! i))" "json_shows J (snd (ms' ! i)) (snd (kvs ! i))"
      using kvs(2,3) i len by (auto simp: list_all2_conv_all_nth)
    then have "snd (ms ! i) = snd (ms' ! i)"
      using JObject.IH [of "ms ! i" "snd (ms ! i)"] i eq(2) by (meson nth_mem snds.intros)
    then show ?thesis using eq(1) by (rule prod_eqI [rotated])
  qed
  then show ?case using d'(1) len by (simp add: nth_equalityI)
qed (case_tac d'; simp)+

text \<open>The text of a document shows every number in it, and texts of documents of one shape are different.\<close>

lemma display_shows:
  assumes "json_laws J" and "doc_ok J d"
  obtains v where "nj_parse J (display_json J d) = Inr v" and "json_shows J d v"
  using assms by (auto simp: json_laws_def display_json_def)


lemma display_inj:
  assumes "json_laws J" and "doc_ok J d" and "doc_ok J d'" and "shape d = shape d'" and "display_json J d = display_json J d'"
  shows "d = d'"
proof -
  obtain v where "nj_parse J (display_json J d) = Inr v" "json_shows J d v" by (rule display_shows [OF assms(1,2)])
  moreover obtain v' where "nj_parse J (display_json J d') = Inr v'" "json_shows J d' v'" by (rule display_shows [OF assms(1,3)])
  ultimately show ?thesis using shows_inj assms(4,5) by auto
qed

lemmas metrics_docs = RecordKindMetrics_doc_def OperationKindMetrics_doc_def RejectedOperationMetrics_doc_def StorageMetrics_doc_def

lemma kind_docs_inj:
  "RecordKindMetrics_doc k = RecordKindMetrics_doc k' \<Longrightarrow> k = k'"
  "OperationKindMetrics_doc p = OperationKindMetrics_doc p' \<Longrightarrow> p = p'"
  "RejectedOperationMetrics_doc r = RejectedOperationMetrics_doc r' \<Longrightarrow> r = r'"
proof -
  show kinds: "RecordKindMetrics_doc k = RecordKindMetrics_doc k' \<Longrightarrow> k = k'"
    "OperationKindMetrics_doc p = OperationKindMetrics_doc p' \<Longrightarrow> p = p'" for k k' p p'
    by (simp_all add: metrics_docs)
  then show "RejectedOperationMetrics_doc r = RejectedOperationMetrics_doc r' \<Longrightarrow> r = r'"
    by (simp add: RejectedOperationMetrics_doc_def RejectedOperationMetrics.equality)
qed


lemma kinds_display_inj:
  assumes "json_laws J"
  shows "RecordKindMetrics_display J k = RecordKindMetrics_display J k' \<longleftrightarrow> k = k'"
    and "OperationKindMetrics_display J p = OperationKindMetrics_display J p' \<longleftrightarrow> p = p'"
    and "RejectedOperationMetrics_display J r = RejectedOperationMetrics_display J r' \<longleftrightarrow> r = r'"
  using display_inj [OF assms metrics_docs_ok(1) metrics_docs_ok(1), of k k']
    display_inj [OF assms metrics_docs_ok(2) metrics_docs_ok(2), of p p']
    display_inj [OF assms metrics_docs_ok(3) metrics_docs_ok(3), of r r'] kind_docs_inj
  by (auto simp: RecordKindMetrics_display_def OperationKindMetrics_display_def RejectedOperationMetrics_display_def metrics_docs)

section \<open>Names\<close>














end
