(* ===== verification/Replay.thy ===== *)
theory Replay
  imports CheckpointIndex
begin

text \<open>
  Replay of \<^verbatim>\<open>src/storage.rs\<close>: scanning and recovering segment files, finding the latest checkpoint
  of each node, and building node states from the records after it.
\<close>

section \<open>Loops over one segment file\<close>

text \<open>A loop over a list that threads an accumulator and the state.\<close>

fun sfold :: "('v \<Rightarrow> 'acc \<Rightarrow> ('s, 'acc) io) \<Rightarrow> 'v list \<Rightarrow> 'acc \<Rightarrow> ('s, 'acc) io" where
  "sfold f [] acc = sret acc"
| "sfold f (v # vs) acc = sbind (f v acc) (sfold f vs)"

text \<open>\<^verbatim>\<open>read_record_body\<close> and \<^verbatim>\<open>scan_record_frame\<close> with the caller's counters.\<close>

definition read_record :: "Reader \<Rightarrow> ('x io_state_scheme, bytes option \<times> Reader) io" where
  "read_record file s =
     (case read_record_body (file, Some (st_metrics s)) of
        (r, file', m) \<Rightarrow> (map_sum id (\<lambda>body. (body, file')) r, s\<lparr>st_metrics := the m\<rparr>))"

definition scan_record :: "Reader \<Rightarrow> ('x io_state_scheme, unit option \<times> Reader) io" where
  "scan_record file s =
     (case scan_record_frame (file, st_metrics s) of
        (r, file', m) \<Rightarrow> (map_sum id (\<lambda>found. (found, file')) r, s\<lparr>st_metrics := m\<rparr>))"

text \<open>
  What the loops do when no complete record is left: stop at the end of the file, drop a partial
  record of the active segment (truncating the file when it is being recovered), and reject a
  partial record anywhere else.
\<close>

definition end_of_records ::
  "string \<Rightarrow> bool \<Rightarrow> bool \<Rightarrow> nat \<Rightarrow> nat \<Rightarrow> 'acc \<Rightarrow> ('x io_state_scheme, 'acc) io" where
  "end_of_records path allow_partial recover_partial record_start file_len acc =
     (if record_start = file_len then sret acc
      else if allow_partial then
        sbind (count_metric replay_truncated) (\<lambda>_.
        sbind (if recover_partial then sys_set_len path record_start else sret ()) (\<lambda>_.
        sret acc))
      else serr (invalid_data ''partial record in inactive segment''))"

lemma read_record_advances:
  assumes "read_record file s = (Inr (Some body, file'), s')"
  shows "length (rd_content file') - rd_pos file' < length (rd_content file) - rd_pos file"
proof (cases "reader_ok file")
  case True
  then show ?thesis
    using assms
    by (auto simp: read_record_def read_record_body_view split: frame_view.splits dest: next_frame_length)
next
  case False
  then show ?thesis using assms
    by (auto simp: read_record_def read_record_body_def read_exact_def reader_ok_def)
qed

lemma scan_record_advances:
  assumes "scan_record file s = (Inr (Some u, file'), s')"
  shows "length (rd_content file') - rd_pos file' < length (rd_content file) - rd_pos file"
proof (cases "reader_ok file")
  case True
  then show ?thesis
    using assms
    by (auto simp: scan_record_def scan_record_frame_view split: frame_view.splits dest: next_frame_length)
next
  case False
  then show ?thesis using assms
    by (auto simp: scan_record_def scan_record_frame_def read_exact_def reader_ok_def)
qed

function segment_loop ::
  "string \<Rightarrow> bool \<Rightarrow> bool \<Rightarrow> (u64 \<Rightarrow> bytes \<Rightarrow> 'acc \<Rightarrow> ('x io_state_scheme, 'acc) io) \<Rightarrow>
     Reader \<Rightarrow> 'acc \<Rightarrow> ('x io_state_scheme, 'acc) io" where
  "segment_loop path allow_partial recover_partial on_record file acc s =
     (case read_record file s of
        (Inl e, s') \<Rightarrow> (Inl e, s')
      | (Inr (None, file'), s') \<Rightarrow>
          end_of_records path allow_partial recover_partial (rd_pos file) (length (rd_content file)) acc s'
      | (Inr (Some body, file'), s') \<Rightarrow>
          (case on_record (of_nat (rd_pos file)) body acc s' of
             (Inl e, s'') \<Rightarrow> (Inl e, s'')
           | (Inr acc', s'') \<Rightarrow> segment_loop path allow_partial recover_partial on_record file' acc' s''))"
  by pat_completeness auto
termination
  by (relation "measure (\<lambda>(path, a, r, k, file, acc, s). length (rd_content file) - rd_pos file)")
    (auto dest: sym [THEN read_record_advances])

function scan_loop :: "string \<Rightarrow> bool \<Rightarrow> Reader \<Rightarrow> ('x io_state_scheme, unit) io" where
  "scan_loop path allow_partial file s =
     (case scan_record file s of
        (Inl e, s') \<Rightarrow> (Inl e, s')
      | (Inr (None, file'), s') \<Rightarrow>
          end_of_records path allow_partial True (rd_pos file) (length (rd_content file)) () s'
      | (Inr (Some _, file'), s') \<Rightarrow> scan_loop path allow_partial file' s')"
  by pat_completeness auto
termination
  by (relation "measure (\<lambda>(path, a, file, s). length (rd_content file) - rd_pos file)")
    (auto dest: sym [THEN scan_record_advances])

declare segment_loop.simps [simp del] scan_loop.simps [simp del]

section \<open>One segment\<close>

definition scan_segment :: "string \<Rightarrow> bool \<Rightarrow> ('x io_state_scheme, unit) io" where
  "scan_segment path allow_partial =
     sbind (sys_open_read path) (\<lambda>file.
     sbind (read_segment_header path file allow_partial True True) (\<lambda>(found, file).
     if \<not> found then sret () else scan_loop path allow_partial file))"

definition in_filter :: "NodeId btset option \<Rightarrow> NodeId \<Rightarrow> bool" where
  "in_filter node_filter n = (case node_filter of None \<Rightarrow> True | Some nodes \<Rightarrow> n \<in> set nodes)"

definition scan_checkpoint_step ::
  "('le, 'lg) noraft \<Rightarrow> SegmentName \<Rightarrow> NodeId btset option \<Rightarrow> u64 \<Rightarrow> bytes \<Rightarrow>
     (NodeId, RecordPosition) btmap \<Rightarrow> ('x io_state_scheme, (NodeId, RecordPosition) btmap) io" where
  "scan_checkpoint_step N segment node_filter record_start body checkpoints =
     sbind (slift (decode_record_node_id body)) (\<lambda>node_id.
     if in_filter node_filter node_id then
       sbind (slift (decode_node_record N body)) (\<lambda>node_record.
       if is_checkpoint (nr_record node_record)
       then sret (bt_insert node_id (RecordPosition segment record_start) checkpoints)
       else sret checkpoints)
     else sret checkpoints)"

definition scan_checkpoint_positions ::
  "('le, 'lg) noraft \<Rightarrow> SegmentPath \<Rightarrow> bool \<Rightarrow> NodeId btset option \<Rightarrow> u64 option \<Rightarrow> bool \<Rightarrow>
     (NodeId, RecordPosition) btmap \<Rightarrow> ('x io_state_scheme, (NodeId, RecordPosition) btmap) io" where
  "scan_checkpoint_positions N segment allow_partial node_filter start_offset recover_partial checkpoints =
     sbind (sys_open_read (sp_path segment)) (\<lambda>file.
     sbind (read_segment_header (sp_path segment) file allow_partial recover_partial True) (\<lambda>(found, file).
     if \<not> found then sret checkpoints
     else let start_offset = (case start_offset of Some off \<Rightarrow> off | None \<Rightarrow> of_nat SEGMENT_FILE_HEADER_LEN) in
       if start_offset < of_nat SEGMENT_FILE_HEADER_LEN
       then serr (invalid_data ''checkpoint scan offset precedes records'')
       else if length (rd_content file) < unat start_offset
       then serr (invalid_data ''checkpoint scan offset exceeds segment length'')
       else segment_loop (sp_path segment) allow_partial recover_partial
         (scan_checkpoint_step N (sp_name segment) node_filter) (file\<lparr>rd_pos := unat start_offset\<rparr>) checkpoints))"

definition before_checkpoint :: "RecordPosition option \<Rightarrow> RecordPosition \<Rightarrow> bool" where
  "before_checkpoint checkpoint p = (case checkpoint of Some c \<Rightarrow> p < c | None \<Rightarrow> False)"

definition replay_step ::
  "('le, 'lg) noraft \<Rightarrow> SegmentName \<Rightarrow> NodeId btset option \<Rightarrow> (NodeId, RecordPosition) btmap \<Rightarrow>
     u64 \<Rightarrow> bytes \<Rightarrow> 'lg ReplayState \<Rightarrow> ('x io_state_scheme, 'lg ReplayState) io" where
  "replay_step N segment node_filter positions record_start body replay =
     sbind (slift (decode_record_node_id body)) (\<lambda>node_id.
     if \<not> in_filter node_filter node_id then sret replay
     else if before_checkpoint (bt_get positions node_id) (RecordPosition segment record_start)
     then sret replay
     else sbind (slift (decode_node_record N body)) (\<lambda>node_record.
       sbind (slift (ReplayState_apply N replay node_record)) (\<lambda>replay.
       sbind (slift (frame_len_from_body body)) (\<lambda>len.
       sbind (count_metric (record_replayed (metric_kind (nr_record node_record)) len)) (\<lambda>_.
       sret replay)))))"

definition replay_segment ::
  "('le, 'lg) noraft \<Rightarrow> SegmentPath \<Rightarrow> bool \<Rightarrow> NodeId btset option \<Rightarrow> (NodeId, RecordPosition) btmap \<Rightarrow> bool \<Rightarrow>
     'lg ReplayState \<Rightarrow> ('x io_state_scheme, 'lg ReplayState) io" where
  "replay_segment N segment allow_partial node_filter positions recover_partial replay =
     sbind (sys_open_read (sp_path segment)) (\<lambda>file.
     sbind (read_segment_header (sp_path segment) file allow_partial recover_partial True) (\<lambda>(found, file).
     if \<not> found then sret replay
     else segment_loop (sp_path segment) allow_partial recover_partial
       (replay_step N (sp_name segment) node_filter positions) file replay))"

definition replay_node_step ::
  "('le, 'lg) noraft \<Rightarrow> SegmentName \<Rightarrow> NodeId \<Rightarrow> RecordPosition option \<Rightarrow>
     u64 \<Rightarrow> bytes \<Rightarrow> 'lg NodeState \<Rightarrow> ('x io_state_scheme, 'lg NodeState) io" where
  "replay_node_step N segment target_node_id checkpoint record_start body state =
     sbind (slift (decode_record_node_id body)) (\<lambda>node_id.
     if node_id \<noteq> target_node_id then sret state
     else if before_checkpoint checkpoint (RecordPosition segment record_start) then sret state
     else sbind (slift (decode_node_record N body)) (\<lambda>node_record.
       sbind (slift (apply_record_to_state N state (nr_record node_record))) (\<lambda>state.
       sbind (slift (frame_len_from_body body)) (\<lambda>len.
       sbind (count_metric (record_replayed (metric_kind (nr_record node_record)) len)) (\<lambda>_.
       sret state)))))"

definition replay_node_segment ::
  "('le, 'lg) noraft \<Rightarrow> SegmentPath \<Rightarrow> bool \<Rightarrow> NodeId \<Rightarrow> RecordPosition option \<Rightarrow> bool \<Rightarrow>
     'lg NodeState \<Rightarrow> ('x io_state_scheme, 'lg NodeState) io" where
  "replay_node_segment N segment allow_partial target_node_id checkpoint recover_partial state =
     sbind (sys_open_read (sp_path segment)) (\<lambda>file.
     sbind (read_segment_header (sp_path segment) file allow_partial recover_partial True) (\<lambda>(found, file).
     if \<not> found then sret state
     else segment_loop (sp_path segment) allow_partial recover_partial
       (replay_node_step N (sp_name segment) target_node_id checkpoint) file state))"

section \<open>The directory\<close>

definition recover_storage_dir :: "SegmentName \<Rightarrow> ('x io_state_scheme, unit) io" where
  "recover_storage_dir active_segment =
     sbind (sget (\<lambda>s. discover_segment_paths (st_disk s))) (\<lambda>segments.
     sfold (\<lambda>segment _. scan_segment (sp_path segment) (sp_name segment = active_segment)) segments ())"

definition replay_active_segment :: "SegmentPath list \<Rightarrow> SegmentName \<Rightarrow> bool \<Rightarrow> SegmentName" where
  "replay_active_segment segments active_segment recover_partial =
     (if recover_partial then active_segment
      else if segments = [] then active_segment else sp_name (last segments))"

definition find_checkpoint_positions_from ::
  "('le, 'lg) noraft \<Rightarrow> SegmentName \<Rightarrow> NodeId btset option \<Rightarrow> RecordPosition option \<Rightarrow> bool \<Rightarrow>
     ('x io_state_scheme, (NodeId, RecordPosition) btmap) io" where
  "find_checkpoint_positions_from N active_segment node_filter start_position recover_partial =
     sbind (sget (\<lambda>s. discover_segment_paths (st_disk s))) (\<lambda>segments.
     let active_segment = replay_active_segment segments active_segment recover_partial in
     sfold (\<lambda>segment checkpoints.
       if (case start_position of Some start \<Rightarrow> sp_name segment < rp_segment start | None \<Rightarrow> False)
       then sret checkpoints
       else scan_checkpoint_positions N segment (sp_name segment = active_segment) node_filter
         (case start_position of
            Some start \<Rightarrow> if sp_name segment = rp_segment start then Some (rp_offset start) else None
          | None \<Rightarrow> None)
         recover_partial checkpoints) segments [])"

definition find_checkpoint_positions ::
  "('le, 'lg) noraft \<Rightarrow> SegmentName \<Rightarrow> NodeId btset option \<Rightarrow> bool \<Rightarrow>
     ('x io_state_scheme, (NodeId, RecordPosition) btmap) io" where
  "find_checkpoint_positions N active_segment node_filter recover_partial =
     find_checkpoint_positions_from N active_segment node_filter None recover_partial"

definition checkpoint_positions_for_replay ::
  "('le, 'lg) noraft \<Rightarrow> SegmentName \<Rightarrow> NodeId btset option \<Rightarrow> (NodeId, RecordPosition) btmap option \<Rightarrow> bool \<Rightarrow>
     ('x io_state_scheme, (NodeId, RecordPosition) btmap \<times> SegmentName option) io" where
  "checkpoint_positions_for_replay N active_segment node_filter checkpoint_hints recover_partial =
     (case checkpoint_hints of
        None \<Rightarrow>
          sbind (find_checkpoint_positions N active_segment node_filter recover_partial)
            (\<lambda>positions. sret (positions, None))
      | Some positions \<Rightarrow>
          if positions = [] then sret (positions, None)
          else let start_position = Min (snd ` set positions) in
            sbind (find_checkpoint_positions_from N active_segment node_filter (Some start_position) recover_partial)
              (\<lambda>discovered. sret (bt_extend positions discovered, Some (rp_segment start_position))))"

definition replay_storage_dir ::
  "('le, 'lg) noraft \<Rightarrow> SegmentName \<Rightarrow> NodeId btset option \<Rightarrow> (NodeId, RecordPosition) btmap option \<Rightarrow> bool \<Rightarrow>
     ('x io_state_scheme, 'lg ReplayState) io" where
  "replay_storage_dir N active_segment node_filter checkpoint_hints recover_partial =
     sbind (checkpoint_positions_for_replay N active_segment node_filter checkpoint_hints recover_partial)
       (\<lambda>(positions, replay_start_segment).
     sbind (sget (\<lambda>s. discover_segment_paths (st_disk s))) (\<lambda>segments.
     let active_segment = replay_active_segment segments active_segment recover_partial in
     sfold (\<lambda>segment replay.
       if (case replay_start_segment of Some start \<Rightarrow> sp_name segment < start | None \<Rightarrow> False)
       then sret replay
       else replay_segment N segment (sp_name segment = active_segment) node_filter positions
         recover_partial replay) segments []))"

definition replay_node_state ::
  "('le, 'lg) noraft \<Rightarrow> SegmentName \<Rightarrow> NodeId \<Rightarrow> RecordPosition option \<Rightarrow> bool \<Rightarrow>
     ('x io_state_scheme, 'lg NodeState) io" where
  "replay_node_state N active_segment node_id checkpoint_hint recover_partial =
     sbind (find_checkpoint_positions_from N active_segment (Some [node_id]) checkpoint_hint recover_partial)
       (\<lambda>positions.
     let checkpoint = bt_get positions node_id in
     sbind (sget (\<lambda>s. discover_segment_paths (st_disk s))) (\<lambda>segments.
     let active_segment = replay_active_segment segments active_segment recover_partial in
     sfold (\<lambda>segment state.
       if (case checkpoint of Some c \<Rightarrow> sp_name segment < rp_segment c | None \<Rightarrow> False)
       then sret state
       else replay_node_segment N segment (sp_name segment = active_segment) node_id checkpoint
         recover_partial state) segments (NodeState_default N)))"

end
