(* ===== verification/Segment_View.thy ===== *)
theory Segment_View
  imports Segment_Laws Replay
begin

text \<open>
  The abstract view of a segment file: the bodies of its complete records and the bytes behind the
  last of them. The loops over a file are folds over that list, so everything later reasons about
  lists of records.
\<close>

section \<open>The records of a file\<close>

function parse_bodies :: "bytes \<Rightarrow> bytes list \<times> bytes" where
  "parse_bodies bs =
     (case next_frame bs of
        Frame body \<Rightarrow> (let (bodies, rest) = parse_bodies (drop (8 + length body) bs) in (body # bodies, rest))
      | _ \<Rightarrow> ([], bs))"
  by pat_completeness auto
termination
  by (relation "measure length") (auto dest: next_frame_length)

declare parse_bodies.simps [simp del]

abbreviation frames :: "bytes list \<Rightarrow> bytes" where
  "frames bodies \<equiv> concat (map frame_of_body bodies)"

abbreviation small_bodies :: "bytes list \<Rightarrow> bool" where
  "small_bodies bodies \<equiv> list_all (\<lambda>b. length b \<le> 2 ^ 30) bodies"

definition not_frame :: "bytes \<Rightarrow> bool" where
  "not_frame bs \<longleftrightarrow> (\<forall>body. next_frame bs \<noteq> Frame body)"

lemma not_frame_Nil [simp]: "not_frame []" "next_frame [] = Torn"
  by (simp_all add: not_frame_def next_frame_def)

lemma parse_bodies_Frame:
  "next_frame bs = Frame body \<Longrightarrow> parse_bodies bs =
     (body # fst (parse_bodies (drop (8 + length body) bs)), snd (parse_bodies (drop (8 + length body) bs)))"
  by (subst parse_bodies.simps) (simp add: split_def Let_def)

lemma parse_bodies_not_frame: "not_frame bs \<Longrightarrow> parse_bodies bs = ([], bs)"
  by (subst parse_bodies.simps) (auto simp: not_frame_def split: frame_view.split)

lemma parse_bodies_frames:
  "small_bodies bodies \<Longrightarrow> not_frame rest \<Longrightarrow> parse_bodies (frames bodies @ rest) = (bodies, rest)"
proof (induction bodies)
  case Nil
  then show ?case by (simp add: parse_bodies_not_frame)
next
  case (Cons b bodies)
  then have "next_frame (frames (b # bodies) @ rest) = Frame b"
    using next_frame_of_body [of b "frames bodies @ rest"] by simp
  then show ?case using Cons by (simp add: parse_bodies_Frame)
qed

lemma parse_bodies_split:
  "bs = frames (fst (parse_bodies bs)) @ snd (parse_bodies bs) \<and> small_bodies (fst (parse_bodies bs)) \<and>
     not_frame (snd (parse_bodies bs))"
proof (induction bs rule: parse_bodies.induct)
  case (1 bs)
  show ?case
  proof (cases "not_frame bs")
    case True
    then show ?thesis by (simp add: parse_bodies_not_frame)
  next
    case False
    then obtain body where body: "next_frame bs = Frame body" by (auto simp: not_frame_def)
    let ?rest = "drop (8 + length body) bs"
    have IH: "?rest = frames (fst (parse_bodies ?rest)) @ snd (parse_bodies ?rest)"
        "small_bodies (fst (parse_bodies ?rest))" "not_frame (snd (parse_bodies ?rest))"
      using 1 [OF body] by auto
    have "bs = frame_of_body body @ frames (fst (parse_bodies ?rest)) @ snd (parse_bodies ?rest)"
      using next_frame_FrameD(2) [OF body] IH(1) by argo
    then show ?thesis
      using IH(2,3) next_frame_FrameD(1) [OF body] parse_bodies_Frame [OF body] by simp
  qed
qed

text \<open>The records with the offsets at which their frames start.\<close>

fun layout :: "nat \<Rightarrow> bytes list \<Rightarrow> (nat \<times> bytes) list" where
  "layout off [] = []"
| "layout off (b # bs) = (off, b) # layout (off + 8 + length b) bs"

lemma length_frames [simp]: "length (frames (b # bs)) = 8 + length b + length (frames bs)"
  by simp

lemma layout_append: "layout off (xs @ ys) = layout off xs @ layout (off + length (frames xs)) ys"
  by (induction xs arbitrary: off) (simp_all add: algebra_simps)

lemma layout_bodies [simp]: "map snd (layout off bs) = bs"
  by (induction bs arbitrary: off) simp_all

lemma layout_range: "(o', b) \<in> set (layout off bs) \<Longrightarrow> off \<le> o' \<and> o' + 8 + length b \<le> off + length (frames bs)"
proof (induction bs arbitrary: off)
  case (Cons x bs)
  then show ?case by (fastforce simp: algebra_simps)
qed simp

lemma layout_sorted: "sorted_wrt (<) (map fst (layout off bs))"
proof (induction bs arbitrary: off)
  case (Cons x bs)
  have "off < o'" if "(o', b) \<in> set (layout (off + 8 + length x) bs)" for o' b
    using layout_range [OF that] by simp
  with Cons show ?case by auto
qed simp

section \<open>Loops as folds\<close>

text \<open>What a loop does behind the last complete record.\<close>

definition tail_action ::
  "string \<Rightarrow> bool \<Rightarrow> bool \<Rightarrow> bytes \<Rightarrow> nat \<Rightarrow> 'acc \<Rightarrow> ('x io_state_scheme, 'acc) io" where
  "tail_action path allow_partial recover_partial rest file_len acc =
     (case next_frame rest of
        TooLarge \<Rightarrow> serr (invalid_data ''segment record is too large'')
      | BadChecksum _ \<Rightarrow>
          sbind (count_metric checksum_failed) (\<lambda>_. serr (invalid_data ''segment record checksum mismatch''))
      | _ \<Rightarrow> end_of_records path allow_partial recover_partial (file_len - length rest) file_len acc)"

lemma st_metrics_same [simp]: "s\<lparr>st_metrics := st_metrics s\<rparr> = s"
  by simp

lemma segment_loop_fold:
  "reader_ok file \<Longrightarrow>
     segment_loop path allow_partial recover_partial on_record file acc s =
     sbind (sfold (\<lambda>(off, body). on_record (of_nat off) body) (layout (rd_pos file) (fst (parse_bodies (unread file)))) acc)
       (tail_action path allow_partial recover_partial (snd (parse_bodies (unread file))) (length (rd_content file))) s"
proof (induction path allow_partial recover_partial on_record "file" acc s rule: segment_loop.induct)
  case (1 path allow_partial recover_partial on_record "file" acc s)
  let ?bs = "unread file"
  show ?case
  proof (cases "not_frame ?bs")
    case True
    have pos: "length (rd_content file) - length ?bs = rd_pos file"
      using 1(2) by (simp add: reader_ok_def)
    show ?thesis
      using True pos
      by (subst segment_loop.simps)
        (auto simp: parse_bodies_not_frame read_record_def read_record_body_view [OF 1(2)] tail_action_def not_frame_def
          count_metric_def on_metrics_def serr_def split: frame_view.splits)
  next
    case False
    then obtain body where body: "next_frame ?bs = Frame body" by (auto simp: not_frame_def)
    let ?file = "skip (8 + length body) file"
    have read: "read_record file s = (Inr (Some body, ?file), s)"
      by (simp add: read_record_def read_record_body_view [OF 1(2)] body)
    have ok: "reader_ok ?file"
      using next_frame_length [OF body] by (intro reader_ok_skip [OF 1(2)])
    have un: "unread ?file = drop (8 + length body) ?bs" by (simp only: unread_skip)
    note parse = parse_bodies_Frame [OF body]
    show ?thesis
    proof (cases "on_record (of_nat (rd_pos file)) body acc s")
      case (Pair res s'')
      show ?thesis
      proof (cases res)
        case (Inl e)
        then show ?thesis
          using read Pair by (subst segment_loop.simps) (simp add: parse sbind_def)
      next
        case (Inr acc')
        have "segment_loop path allow_partial recover_partial on_record ?file acc' s'' =
            sbind (sfold (\<lambda>(off, body). on_record (of_nat off) body)
                (layout (rd_pos file + 8 + length body) (fst (parse_bodies (drop (8 + length body) ?bs)))) acc')
              (tail_action path allow_partial recover_partial (snd (parse_bodies (drop (8 + length body) ?bs)))
                (length (rd_content file))) s''"
          using 1(1) [OF read [symmetric] refl refl refl Pair [symmetric, unfolded Inr] refl ok]
          by (simp only: un) (simp add: add.assoc [symmetric])
        then show ?thesis
          using read Pair Inr by (subst segment_loop.simps) (simp add: parse sbind_def add.assoc)
      qed
    qed
  qed
qed

lemma scan_loop_fold:
  "reader_ok file \<Longrightarrow>
     scan_loop path allow_partial file s =
     tail_action path allow_partial True (snd (parse_bodies (unread file))) (length (rd_content file)) () s"
proof (induction path allow_partial "file" s rule: scan_loop.induct)
  case (1 path allow_partial "file" s)
  let ?bs = "unread file"
  show ?case
  proof (cases "not_frame ?bs")
    case True
    have pos: "length (rd_content file) - length ?bs = rd_pos file"
      using 1(2) by (simp add: reader_ok_def)
    show ?thesis
      using True pos
      by (subst scan_loop.simps)
        (auto simp: parse_bodies_not_frame scan_record_def scan_record_frame_view [OF 1(2)] tail_action_def not_frame_def
          count_metric_def on_metrics_def serr_def split: frame_view.splits)
  next
    case False
    then obtain body where body: "next_frame ?bs = Frame body" by (auto simp: not_frame_def)
    let ?file = "skip (8 + length body) file"
    have read: "scan_record file s = (Inr (Some (), ?file), s)"
      by (simp add: scan_record_def scan_record_frame_view [OF 1(2)] body)
    have ok: "reader_ok ?file"
      using next_frame_length [OF body] by (intro reader_ok_skip [OF 1(2)])
    have un: "unread ?file = drop (8 + length body) ?bs" by (simp only: unread_skip)
    show ?thesis
      using 1(1) [OF read [symmetric] refl refl refl ok] parse_bodies_Frame [OF body]
      by (subst scan_loop.simps) (simp only: read un, simp)
  qed
qed

section \<open>Clean segments\<close>

text \<open>The header, then complete records up to the end of the file.\<close>

definition clean :: "bytes \<Rightarrow> bool" where
  "clean c \<longleftrightarrow> (\<exists>bodies. small_bodies bodies \<and> c = SEGMENT_FORMAT_MAGIC @ frames bodies)"

definition seg_bodies :: "bytes \<Rightarrow> bytes list" where
  "seg_bodies c = fst (parse_bodies (drop SEGMENT_FILE_HEADER_LEN c))"

lemma length_MAGIC [simp]: "length SEGMENT_FORMAT_MAGIC = SEGMENT_FILE_HEADER_LEN"
  by (simp add: SEGMENT_FORMAT_MAGIC_def SEGMENT_FILE_HEADER_LEN_def)

lemma seg_bodies_frames: "small_bodies bodies \<Longrightarrow> seg_bodies (SEGMENT_FORMAT_MAGIC @ frames bodies) = bodies"
  using parse_bodies_frames [of bodies "[]"] by (simp add: seg_bodies_def)

lemma clean_content: "clean c \<Longrightarrow> c = SEGMENT_FORMAT_MAGIC @ frames (seg_bodies c) \<and> small_bodies (seg_bodies c)"
  by (auto simp: clean_def seg_bodies_frames)

lemma clean_append:
  assumes "clean c" and "length body \<le> 2 ^ 30"
  shows "clean (c @ frame_of_body body)" and "seg_bodies (c @ frame_of_body body) = seg_bodies c @ [body]"
proof -
  have c: "c = SEGMENT_FORMAT_MAGIC @ frames (seg_bodies c)" "small_bodies (seg_bodies c)"
    using clean_content [OF assms(1)] by auto
  have eq: "c @ frame_of_body body = SEGMENT_FORMAT_MAGIC @ frames (seg_bodies c @ [body])"
    by (subst c(1)) simp
  show "clean (c @ frame_of_body body)"
    unfolding clean_def eq using c(2) assms(2) by (intro exI [of _ "seg_bodies c @ [body]"]) simp
  show "seg_bodies (c @ frame_of_body body) = seg_bodies c @ [body]"
    unfolding eq by (rule seg_bodies_frames) (use c(2) assms(2) in simp)
qed

lemma clean_MAGIC [simp]: "clean SEGMENT_FORMAT_MAGIC" "seg_bodies SEGMENT_FORMAT_MAGIC = []"
  using seg_bodies_frames [of "[]"] by (auto simp: clean_def intro: exI [of _ "[]"])

text \<open>
  What a write that was cut short can leave behind: a part of the header, or complete records
  followed by a part of one.
\<close>

definition recoverable :: "bytes \<Rightarrow> bool" where
  "recoverable c \<longleftrightarrow> (\<exists>k < SEGMENT_FILE_HEADER_LEN. c = take k SEGMENT_FORMAT_MAGIC) \<or>
     (\<exists>bodies rest. small_bodies bodies \<and> c = SEGMENT_FORMAT_MAGIC @ frames bodies @ rest \<and> next_frame rest = Torn)"

lemma recoverable_header: "recoverable (take k SEGMENT_FORMAT_MAGIC)" "seg_bodies (take k SEGMENT_FORMAT_MAGIC) = []"
proof -
  have "recoverable SEGMENT_FORMAT_MAGIC"
    unfolding recoverable_def by (rule disjI2, rule exI [of _ "[]"], rule exI [of _ "[]"]) simp
  then show "recoverable (take k SEGMENT_FORMAT_MAGIC)"
    by (cases "k < SEGMENT_FILE_HEADER_LEN") (auto simp: recoverable_def)
  show "seg_bodies (take k SEGMENT_FORMAT_MAGIC) = []"
    by (simp add: seg_bodies_def drop_take parse_bodies_not_frame)
qed

lemma recoverable_content:
  assumes "recoverable c"
  obtains (short) "length c < SEGMENT_FILE_HEADER_LEN" and "seg_bodies c = []"
  | (records) rest where "c = SEGMENT_FORMAT_MAGIC @ frames (seg_bodies c) @ rest" and "small_bodies (seg_bodies c)"
      and "next_frame rest = Torn"
proof (cases "\<exists>k < SEGMENT_FILE_HEADER_LEN. c = take k SEGMENT_FORMAT_MAGIC")
  case True
  then show ?thesis using short recoverable_header(2) by auto
next
  case False
  then obtain bodies rest where c: "small_bodies bodies" "c = SEGMENT_FORMAT_MAGIC @ frames bodies @ rest"
    "next_frame rest = Torn"
    using assms by (auto simp: recoverable_def)
  then have "not_frame rest" by (simp add: not_frame_def)
  with c have "seg_bodies c = bodies" by (simp add: seg_bodies_def parse_bodies_frames)
  then show ?thesis using records c by simp
qed

lemma clean_recoverable: "clean c \<Longrightarrow> recoverable c"
  unfolding clean_def recoverable_def using not_frame_Nil(2) by (metis append_Nil2)

text \<open>A frame of which only the first \<open>k\<close> bytes reached the file.\<close>

lemma recoverable_append:
  assumes "clean c" and "length body \<le> 2 ^ 30"
  shows "recoverable (c @ take k (frame_of_body body))"
    and "seg_bodies (c @ take k (frame_of_body body)) =
      (if 8 + length body \<le> k then seg_bodies c @ [body] else seg_bodies c)"
proof -
  let ?t = "take k (frame_of_body body)"
  have c: "c = SEGMENT_FORMAT_MAGIC @ frames (seg_bodies c)" "small_bodies (seg_bodies c)"
    using clean_content [OF assms(1)] by auto
  have "recoverable (c @ ?t) \<and> seg_bodies (c @ ?t) = (if 8 + length body \<le> k then seg_bodies c @ [body] else seg_bodies c)"
  proof (cases "8 + length body \<le> k")
    case True
    then show ?thesis using clean_append [OF assms] clean_recoverable by simp
  next
    case False
    then have torn: "next_frame ?t = Torn" using next_frame_torn [OF assms(2), of k] by simp
    then have "parse_bodies (frames (seg_bodies c) @ ?t) = (seg_bodies c, ?t)"
      by (intro parse_bodies_frames [OF c(2)]) (simp add: not_frame_def)
    moreover have drop: "drop SEGMENT_FILE_HEADER_LEN (c @ ?t) = frames (seg_bodies c) @ ?t"
      by (subst (1) c(1)) simp
    moreover have "c @ ?t = SEGMENT_FORMAT_MAGIC @ frames (seg_bodies c) @ ?t" using c(1) by simp
    ultimately show ?thesis
      using False c(2) torn unfolding recoverable_def seg_bodies_def [of "c @ ?t"] drop by auto
  qed
  then show "recoverable (c @ ?t)"
    and "seg_bodies (c @ ?t) = (if 8 + length body \<le> k then seg_bodies c @ [body] else seg_bodies c)"
    by auto
qed

text \<open>Reading a file from the start of one of its records yields the records from there on.\<close>

lemma recoverable_from:
  assumes "recoverable c" and "seg_bodies c = xs @ ys" and "SEGMENT_FILE_HEADER_LEN \<le> length c"
  obtains rest where "parse_bodies (drop (SEGMENT_FILE_HEADER_LEN + length (frames xs)) c) = (ys, rest)"
    and "next_frame rest = Torn" and "SEGMENT_FILE_HEADER_LEN + length (frames xs) \<le> length c"
    and "clean c \<Longrightarrow> rest = []"
  using assms(1)
proof (cases rule: recoverable_content)
  case short
  then show ?thesis using assms(3) by simp
next
  case (records rest)
  have c: "c = SEGMENT_FORMAT_MAGIC @ frames xs @ frames ys @ rest" "small_bodies ys"
    using records(1,2) assms(2) by auto
  have nf: "not_frame rest" using records(3) by (simp add: not_frame_def)
  have "parse_bodies (drop (SEGMENT_FILE_HEADER_LEN + length (frames xs)) c) = (ys, rest)"
    using parse_bodies_frames [OF c(2) nf] by (subst c(1)) simp
  moreover have "SEGMENT_FILE_HEADER_LEN + length (frames xs) \<le> length c"
    by (subst c(1)) simp
  moreover have "rest = []" if "clean c"
    using clean_content [OF that] records(1) by (metis append_assoc append_self_conv)
  ultimately show ?thesis using that records(3) by blast
qed

lemma clean_length: "clean c \<Longrightarrow> SEGMENT_FILE_HEADER_LEN \<le> length c"
  by (auto simp: clean_def)

lemma recoverable_header_read:
  assumes "recoverable c" and "SEGMENT_FILE_HEADER_LEN \<le> length c"
  shows "read_segment_header path \<lparr>rd_content = c, rd_pos = p\<rparr> allow_partial recover_partial counted s =
    (Inr (True, \<lparr>rd_content = c, rd_pos = SEGMENT_FILE_HEADER_LEN\<rparr>), s)"
  using assms(1)
proof (cases rule: recoverable_content)
  case short
  then show ?thesis using assms(2) by simp
next
  case (records rest)
  have "take SEGMENT_FILE_HEADER_LEN c = SEGMENT_FORMAT_MAGIC" by (subst records(1)) simp
  moreover have "0 < length c" using assms(2) by (cases c) (simp_all add: SEGMENT_FILE_HEADER_LEN_def)
  ultimately show ?thesis
    using assms(2) by (auto simp: read_segment_header_def read_exact_def Let_def sret_def)
qed

end
