(* ===== verification/Replay_Laws.thy ===== *)
theory Replay_Laws
  imports Segment_View
begin

text \<open>
  Replay computes the abstract history: on a directory of clean segments, scanning and replaying
  leave the directory alone and return what folding the records of the directory returns.
\<close>

section \<open>Computations that leave the directory alone\<close>

text \<open>The counters that decide whether there is anything to synchronise.\<close>

definition unsynced :: "StorageMetrics \<Rightarrow> u64 \<times> u64" where
  "unsynced m = (m_unsynced_records m, m_unsynced_bytes m)"

lemma unsynced_other [simp]:
  "unsynced (replay_truncated m) = unsynced m" "unsynced (checksum_failed m) = unsynced m"
  "unsynced (record_replayed k n m) = unsynced m" "unsynced (rejected_operation op err m) = unsynced m"
  "unsynced (segment_written n m) = unsynced m" "unsynced (sync_requested m) = unsynced m"
  "unsynced (node_created m) = unsynced m" "unsynced (node_removed m) = unsynced m"
  "unsynced (snapshot_checkpoint_saved m) = unsynced m" "unsynced (gc_ran m) = unsynced m"
  "unsynced (gc_deleted_segments n m) = unsynced m" "unsynced (node_counts_changed a b m) = unsynced m"
  "unsynced (checkpoint_index_changed n m) = unsynced m" "unsynced (segment_rotated i n m) = unsynced m"
  by (simp_all add: unsynced_def replay_truncated_def checksum_failed_def record_replayed_def rejected_operation_def
      segment_written_def sync_requested_def node_created_def node_removed_def snapshot_checkpoint_saved_def gc_ran_def
      gc_deleted_segments_def node_counts_changed_def checkpoint_index_changed_def segment_rotated_def
      segment_opened_def)

text \<open>On the directory \<open>d\<close>, \<open>m\<close> returns \<open>r\<close> and changes nothing but other counters.\<close>

definition quiet :: "Disk \<Rightarrow> ('x io_state_scheme, 'a) io \<Rightarrow> 'a io_result \<Rightarrow> bool" where
  "quiet d m r \<longleftrightarrow> (\<forall>s. st_disk s = d \<longrightarrow>
     fst (m s) = r \<and> st_disk (snd (m s)) = d \<and> io_state.more (snd (m s)) = io_state.more s \<and>
     unsynced (st_metrics (snd (m s))) = unsynced (st_metrics s))"

named_theorems quiet_intros \<open>composition of computations that leave the directory alone\<close>

lemma quiet_basic [quiet_intros]:
  "quiet d (sret x) (Inr x)" "quiet d (serr e) (Inl e)" "quiet d (slift r) r"
  "quiet d (sget (\<lambda>s. f (st_disk s))) (Inr (f d))"
  by (simp_all add: quiet_def io_defs)

lemma quiet_count [quiet_intros]: "(\<And>m. unsynced (g m) = unsynced m) \<Longrightarrow> quiet d (count_metric g) (Inr ())"
  by (simp add: quiet_def io_defs count_metric_def on_metrics_def)

lemma quiet_bind [quiet_intros]:
  assumes "quiet d m r" and "\<And>x. r = Inr x \<Longrightarrow> quiet d (f x) (g x)"
  shows "quiet d (sbind m f) (rbind r g)"
  unfolding quiet_def
proof (intro allI impI)
  fix s :: "'a io_state_scheme" assume s: "st_disk s = d"
  obtain res s1 where m: "m s = (res, s1)" by fastforce
  then have s1: "res = r" "st_disk s1 = d" "io_state.more s1 = io_state.more s"
    "unsynced (st_metrics s1) = unsynced (st_metrics s)"
    using assms(1) s by (auto simp: quiet_def)
  show "fst (sbind m f s) = rbind r g \<and> st_disk (snd (sbind m f s)) = d \<and>
      io_state.more (snd (sbind m f s)) = io_state.more s \<and> unsynced (st_metrics (snd (sbind m f s))) = unsynced (st_metrics s)"
  proof (cases r)
    case (Inl e)
    then show ?thesis using m s1 by (simp add: sbind_def)
  next
    case (Inr x)
    then show ?thesis using m s1 assms(2) [OF Inr] by (simp add: sbind_def quiet_def)
  qed
qed

lemma quiet_bind_Inr:
  "quiet d m (Inr x) \<Longrightarrow> quiet d (f x) r \<Longrightarrow> quiet d (sbind m f) r"
  using quiet_bind [of d m "Inr x" f "\<lambda>_. r"] by simp

lemma quiet_sget_disk: "quiet d (f (h d)) r \<Longrightarrow> quiet d (sbind (sget (\<lambda>s. h (st_disk s))) f) r"
  by (simp add: quiet_def)

lemma quiet_sfold [quiet_intros]:
  assumes "\<And>v acc. v \<in> set vs \<Longrightarrow> quiet d (f v acc) (g acc v)"
  shows "quiet d (sfold f vs acc) (fold_result g acc vs)"
  using assms
proof (induction vs arbitrary: acc)
  case Nil
  show ?case by (simp add: quiet_basic)
next
  case (Cons v vs)
  have "quiet d (sbind (f v acc) (sfold f vs)) (rbind (g acc v) (\<lambda>acc. fold_result g acc vs))"
    using Cons by (intro quiet_bind) auto
  then show ?case by simp
qed

lemma quiet_if: "(b \<Longrightarrow> quiet d m r) \<Longrightarrow> (\<not> b \<Longrightarrow> quiet d n q) \<Longrightarrow> quiet d (if b then m else n) (if b then r else q)"
  by simp

section \<open>The records of a directory\<close>

definition all_clean :: "Disk \<Rightarrow> bool" where
  "all_clean d \<longleftrightarrow> disk_ok d \<and> (\<forall>n c. seg d n = Some c \<longrightarrow> clean c \<and> length c \<le> MAX_FILE_LEN)"

text \<open>
  After a crash the last segment may end in the middle of a record or of its header; the other
  segments are clean.
\<close>

definition crash_ok :: "Disk \<Rightarrow> bool" where
  "crash_ok d \<longleftrightarrow> disk_ok d \<and> (\<forall>n c. seg d n = Some c \<longrightarrow> length c \<le> MAX_FILE_LEN \<and> recoverable c \<and>
     (clean c \<or> (\<forall>m. seg d m \<noteq> None \<longrightarrow> m \<le> n)))"

lemma all_clean_crash_ok: "all_clean d \<Longrightarrow> crash_ok d"
  by (simp add: all_clean_def crash_ok_def clean_recoverable)

text \<open>What a reader needs: it repairs nothing, or there is nothing to repair.\<close>

definition readable :: "Disk \<Rightarrow> bool \<Rightarrow> bool" where
  "readable d recover_partial \<longleftrightarrow> crash_ok d \<and> (recover_partial \<longrightarrow> all_clean d)"

lemma readable_crash_ok: "readable d recover_partial \<Longrightarrow> crash_ok d"
  by (simp add: readable_def)

definition seg_readable :: "Disk \<Rightarrow> SegmentName \<Rightarrow> bool \<Rightarrow> bool \<Rightarrow> bool" where
  "seg_readable d n allow_partial recover_partial \<longleftrightarrow>
     crash_ok d \<and> (\<forall>c. seg d n = Some c \<longrightarrow> clean c \<or> allow_partial \<and> \<not> recover_partial)"

definition seg_records :: "Disk \<Rightarrow> SegmentName \<Rightarrow> (RecordPosition \<times> bytes) list" where
  "seg_records d n = (case seg d n of None \<Rightarrow> [] | Some c \<Rightarrow>
     map (\<lambda>(off, body). (RecordPosition n (of_nat off), body)) (layout SEGMENT_FILE_HEADER_LEN (seg_bodies c)))"

definition dir_records :: "Disk \<Rightarrow> (RecordPosition \<times> bytes) list" where
  "dir_records d = concat (map (seg_records d) (seg_names d))"

definition decodable :: "('le, 'lg) noraft \<Rightarrow> Disk \<Rightarrow> bool" where
  "decodable N d \<longleftrightarrow> (\<forall>(p, body) \<in> set (dir_records d). \<exists>nr. decode_node_record N body = Inr nr)"

definition the_record :: "('le, 'lg) noraft \<Rightarrow> bytes \<Rightarrow> 'le NodeRecord" where
  "the_record N body = projr (decode_node_record N body)"

lemma layout_in_seg:
  assumes "crash_ok d" and "seg d n = Some c"
    and "(off, body) \<in> set (layout SEGMENT_FILE_HEADER_LEN (seg_bodies c))"
  shows "SEGMENT_FILE_HEADER_LEN \<le> off" and "off + 8 + length body \<le> length c"
    and "unat (of_nat off :: u64) = off"
proof -
  have rec: "recoverable c" and max: "length c \<le> MAX_FILE_LEN" using assms(1,2) by (auto simp: crash_ok_def)
  have len: "SEGMENT_FILE_HEADER_LEN + length (frames (seg_bodies c)) \<le> length c"
    using rec
  proof (cases rule: recoverable_content)
    case short
    then show ?thesis using assms(3) by simp
  next
    case (records rest)
    have "length c = SEGMENT_FILE_HEADER_LEN + length (frames (seg_bodies c)) + length rest"
      by (subst records(1)) (simp del: length_concat)
    then show ?thesis by simp
  qed
  show range: "SEGMENT_FILE_HEADER_LEN \<le> off" "off + 8 + length body \<le> length c"
    using layout_range [OF assms(3)] len by auto
  then show "unat (of_nat off :: u64) = off"
    using max by (intro unat_of_nat_u64) (simp add: MAX_FILE_LEN_def)
qed

lemma seg_records_mem:
  assumes "(p, body) \<in> set (seg_records d n)"
  obtains off c where "seg d n = Some c" and "p = RecordPosition n (of_nat off)"
    and "(off, body) \<in> set (layout SEGMENT_FILE_HEADER_LEN (seg_bodies c))"
proof (cases "seg d n")
  case None
  then show thesis using assms by (simp add: seg_records_def)
next
  case (Some c)
  then show thesis using assms that by (auto simp: seg_records_def)
qed

lemma seg_records_segment: "(p, body) \<in> set (seg_records d n) \<Longrightarrow> rp_segment p = n"
  by (auto elim: seg_records_mem)

lemma sorted_seg_records:
  assumes "crash_ok d"
  shows "sorted_wrt (<) (map fst (seg_records d n))"
proof (cases "seg d n")
  case (Some c)
  let ?L = "layout SEGMENT_FILE_HEADER_LEN (seg_bodies c)"
  have unat: "unat (of_nat off :: u64) = off" if "(off, b) \<in> set ?L" for off b
    using layout_in_seg(3) [OF assms Some that] .
  have "sorted_wrt (\<lambda>x y. fst x < fst y) ?L"
    using layout_sorted [of SEGMENT_FILE_HEADER_LEN "seg_bodies c"] by (simp add: sorted_wrt_map)
  then have "sorted_wrt (\<lambda>x y. RecordPosition n (of_nat (fst x)) < RecordPosition n (of_nat (fst y))) ?L"
    by (rule sorted_wrt_mono_rel [rotated]) (auto simp: less_RecordPosition_def word_less_nat_alt unat)
  then show ?thesis by (simp add: seg_records_def Some sorted_wrt_map split_def)
qed (simp add: seg_records_def)

lemma sorted_dir_records:
  assumes "crash_ok d"
  shows "sorted_wrt (<) (map fst (dir_records d))"
proof -
  have "sorted_wrt (<) (map fst (concat (map (seg_records d) ns)))" if "sorted_wrt (<) ns" for ns
    using that
  proof (induction ns)
    case (Cons n ns)
    have "p < q" if "(p, b) \<in> set (seg_records d n)" "(q, b') \<in> set (seg_records d m)" "m \<in> set ns" for p q b b' m
      using Cons.prems that seg_records_segment by (fastforce simp: less_RecordPosition_def)
    then show ?case
      using Cons sorted_seg_records [OF assms, of n] by (auto simp: sorted_wrt_append)
  qed simp
  then show ?thesis
    using seg_names(3) assms by (auto simp: dir_records_def crash_ok_def)
qed

section \<open>One segment\<close>

lemma quiet_open_read:
  "seg d n = Some c \<Longrightarrow> quiet d (sys_open_read (SegmentName_file_name n)) (Inr \<lparr>rd_content = c, rd_pos = 0\<rparr>)"
  by (auto simp: quiet_def sys_open_read_def seg_def content_at_def file_at_def split: option.splits dirent.splits)

text \<open>The loop over a clean file from one of its records is a fold over the records from there on.\<close>

lemma quiet_segment_loop:
  assumes "recoverable c" and "seg_bodies c = xs @ ys" and "SEGMENT_FILE_HEADER_LEN \<le> length c"
    and tail: "clean c \<or> allow_partial \<and> \<not> recover_partial"
    and step: "\<And>off body acc. (off, body) \<in> set (layout (SEGMENT_FILE_HEADER_LEN + length (frames xs)) ys) \<Longrightarrow>
      quiet d (on_record (of_nat off) body acc) (g acc (RecordPosition n (of_nat off), body))"
  shows "quiet d (segment_loop path allow_partial recover_partial on_record
      \<lparr>rd_content = c, rd_pos = SEGMENT_FILE_HEADER_LEN + length (frames xs)\<rparr> acc)
    (fold_result g acc (map (\<lambda>(off, body). (RecordPosition n (of_nat off), body))
      (layout (SEGMENT_FILE_HEADER_LEN + length (frames xs)) ys)))"
proof -
  let ?start = "SEGMENT_FILE_HEADER_LEN + length (frames xs)"
  let ?file = "\<lparr>rd_content = c, rd_pos = ?start\<rparr>"
  obtain rest where rest: "parse_bodies (drop ?start c) = (ys, rest)" "next_frame rest = Torn" "?start \<le> length c"
    "clean c \<Longrightarrow> rest = []"
    using recoverable_from [OF assms(1-3)] by blast
  have ok: "reader_ok ?file" using rest(3) by (simp add: reader_ok_def)
  have tail: "quiet d (tail_action path allow_partial recover_partial rest (length c) acc) (Inr acc)" for acc
    using rest(2,4) tail
    by (auto simp: tail_action_def end_of_records_def quiet_basic quiet_count intro!: quiet_bind_Inr)
  have fold: "quiet d (sfold (\<lambda>(off, body). on_record (of_nat off) body) (layout ?start ys) acc)
      (fold_result (\<lambda>acc (off, body). g acc (RecordPosition n (of_nat off), body)) acc (layout ?start ys))"
    using step by (intro quiet_sfold) auto
  have eq: "fold_result (\<lambda>acc (off, body). g acc (RecordPosition n (of_nat off), body)) acc xs =
      fold_result g acc (map (\<lambda>(off, body). (RecordPosition n (of_nat off), body)) xs)" for acc xs
    by (induction xs arbitrary: acc) (auto intro: rbind_cong)
  have "quiet d (sbind (sfold (\<lambda>(off, body). on_record (of_nat off) body) (layout ?start ys) acc)
      (tail_action path allow_partial recover_partial rest (length c)))
      (rbind (fold_result g acc (map (\<lambda>(off, body). (RecordPosition n (of_nat off), body)) (layout ?start ys))) Inr)"
    using fold tail unfolding eq by (rule quiet_bind)
  moreover have "segment_loop path allow_partial recover_partial on_record ?file acc =
      sbind (sfold (\<lambda>(off, body). on_record (of_nat off) body) (layout ?start ys) acc)
        (tail_action path allow_partial recover_partial rest (length c))"
    by (rule ext) (simp add: segment_loop_fold [OF ok] rest(1))
  ultimately show ?thesis by simp
qed

text \<open>A fold over some of the records of a segment.\<close>

lemma fold_result_filter:
  "fold_result (\<lambda>acc v. if P v then f acc v else Inr acc) acc vs = fold_result f acc (filter P vs)"
  by (induction vs arbitrary: acc) (auto intro: rbind_cong)

lemma decodable_record:
  assumes "decodable N d" and "(p, body) \<in> set (dir_records d)"
  shows "decode_node_record N body = Inr (the_record N body)"
    and "decode_record_node_id body = Inr (nr_node_id (the_record N body))"
proof -
  obtain nr where nr: "decode_node_record N body = Inr nr"
    using assms by (auto simp: decodable_def)
  then show "decode_node_record N body = Inr (the_record N body)" by (simp add: the_record_def)
  show "decode_record_node_id body = Inr (nr_node_id (the_record N body))"
    using nr by (auto simp: the_record_def decode_node_record_def decode_record_node_id_def result_simps)
qed

lemma dir_records_seg:
  assumes "crash_ok d" and "(p, body) \<in> set (seg_records d n)"
  shows "(p, body) \<in> set (dir_records d)"
proof -
  have "n \<in> set (seg_names d)"
    using assms seg_names(2) by (auto simp: crash_ok_def elim: seg_records_mem)
  with assms(2) show ?thesis by (auto simp: dir_records_def)
qed

section \<open>Pure steps\<close>

definition ckpt_step ::
  "('le, 'lg) noraft \<Rightarrow> NodeId btset option \<Rightarrow> (NodeId, RecordPosition) btmap \<Rightarrow> RecordPosition \<times> bytes \<Rightarrow>
     (NodeId, RecordPosition) btmap io_result" where
  "ckpt_step N node_filter checkpoints pb =
     (let nr = the_record N (snd pb) in
      Inr (if in_filter node_filter (nr_node_id nr) \<and> is_checkpoint (nr_record nr)
           then bt_insert (nr_node_id nr) (fst pb) checkpoints else checkpoints))"

definition node_step ::
  "('le, 'lg) noraft \<Rightarrow> NodeId \<Rightarrow> RecordPosition option \<Rightarrow> 'lg NodeState \<Rightarrow> RecordPosition \<times> bytes \<Rightarrow> 'lg NodeState io_result" where
  "node_step N n checkpoint state pb =
     (let nr = the_record N (snd pb) in
      if nr_node_id nr = n \<and> \<not> before_checkpoint checkpoint (fst pb)
      then apply_record_to_state N state (nr_record nr) else Inr state)"

definition all_step ::
  "('le, 'lg) noraft \<Rightarrow> NodeId btset option \<Rightarrow> (NodeId, RecordPosition) btmap \<Rightarrow> 'lg ReplayState \<Rightarrow> RecordPosition \<times> bytes \<Rightarrow>
     'lg ReplayState io_result" where
  "all_step N node_filter positions replay pb =
     (let nr = the_record N (snd pb) in
      if in_filter node_filter (nr_node_id nr) \<and> \<not> before_checkpoint (bt_get positions (nr_node_id nr)) (fst pb)
      then ReplayState_apply N replay nr else Inr replay)"

lemma frame_len_ok: "length body < 2 ^ 63 \<Longrightarrow> \<exists>len. frame_len_from_body body = Inr len"
  by (simp add: frame_len_from_body_def u64_try_from_def)

lemma dir_records_small:
  assumes "crash_ok d" and "(p, body) \<in> set (dir_records d)"
  shows "length body < 2 ^ 63"
proof -
  obtain n where "(p, body) \<in> set (seg_records d n)" using assms(2) by (auto simp: dir_records_def)
  then obtain off c where "seg d n = Some c" "(off, body) \<in> set (layout SEGMENT_FILE_HEADER_LEN (seg_bodies c))"
    by (rule seg_records_mem)
  then show ?thesis
    using layout_in_seg(2) [OF assms(1)] assms(1) by (fastforce simp: crash_ok_def MAX_FILE_LEN_def)
qed

lemma quiet_ckpt_step:
  assumes "decodable N d" and "(RecordPosition n off, body) \<in> set (dir_records d)"
  shows "quiet d (scan_checkpoint_step N n node_filter off body checkpoints)
    (ckpt_step N node_filter checkpoints (RecordPosition n off, body))"
  unfolding scan_checkpoint_step_def ckpt_step_def Let_def decodable_record [OF assms]
  by (auto simp: quiet_def sbind_def io_defs)

lemma quiet_node_step:
  assumes "crash_ok d" and "decodable N d" and "(RecordPosition n off, body) \<in> set (dir_records d)"
  shows "quiet d (replay_node_step N n target checkpoint off body state)
    (node_step N target checkpoint state (RecordPosition n off, body))"
proof -
  obtain len where "frame_len_from_body body = Inr len"
    using frame_len_ok [OF dir_records_small [OF assms(1,3)]] by blast
  then show ?thesis
    unfolding replay_node_step_def node_step_def Let_def decodable_record [OF assms(2,3)]
    by (auto simp: quiet_def sbind_def io_defs count_metric_def split: sum.splits)
qed

lemma quiet_all_step:
  assumes "crash_ok d" and "decodable N d" and "(RecordPosition n off, body) \<in> set (dir_records d)"
  shows "quiet d (replay_step N n node_filter positions off body replay)
    (all_step N node_filter positions replay (RecordPosition n off, body))"
proof -
  obtain len where "frame_len_from_body body = Inr len"
    using frame_len_ok [OF dir_records_small [OF assms(1,3)]] by blast
  then show ?thesis
    unfolding replay_step_def all_step_def Let_def decodable_record [OF assms(2,3)]
    by (auto simp: quiet_def sbind_def io_defs count_metric_def split: sum.splits)
qed

section \<open>The segment functions\<close>

lemma layout_mem_split:
  "(off, b) \<in> set (layout start bs) \<Longrightarrow> \<exists>xs ys. bs = xs @ b # ys \<and> off = start + length (frames xs)"
proof (induction bs arbitrary: start)
  case (Cons x bs)
  then consider "off = start" "b = x" | "(off, b) \<in> set (layout (start + 8 + length x) bs)" by auto
  then show ?case
  proof cases
    case 1
    then have "x # bs = [] @ b # bs \<and> off = start + length (frames [])" by simp
    then show ?thesis by blast
  next
    case 2
    then obtain xs ys where "bs = xs @ b # ys" "off = start + 8 + length x + length (frames xs)"
      using Cons.IH by blast
    then have "x # bs = (x # xs) @ b # ys \<and> off = start + length (frames (x # xs))" by simp
    then show ?thesis by blast
  qed
qed simp

lemma filter_from_sorted:
  fixes x :: "'p::linorder \<times> 'b"
  assumes "sorted_wrt (<) (map fst (xs @ x # ys))"
  shows "filter (\<lambda>y. fst x \<le> fst y) (xs @ x # ys) = x # ys"
proof -
  have "\<not> fst x \<le> fst y" if "y \<in> set xs" for y
    using assms that by (simp add: sorted_wrt_append not_le)
  then have "filter (\<lambda>y. fst x \<le> fst y) xs = []"
    by (simp add: filter_empty_conv)
  moreover have "filter (\<lambda>y. fst x \<le> fst y) ys = ys"
    using assms by (auto simp: sorted_wrt_append less_imp_le)
  ultimately show ?thesis by simp
qed

lemma seg_records_layout:
  "seg d n = Some c \<Longrightarrow> seg_records d n =
     map (\<lambda>(off, body). (RecordPosition n (of_nat off), body)) (layout SEGMENT_FILE_HEADER_LEN (seg_bodies c))"
  by (simp add: seg_records_def)

lemma seg_recoverable: "crash_ok d \<Longrightarrow> seg d n = Some c \<Longrightarrow> recoverable c"
  by (simp add: crash_ok_def)

lemma short_seg_records:
  assumes "crash_ok d" and "seg d n = Some c" and "length c < SEGMENT_FILE_HEADER_LEN"
  shows "seg_records d n = []"
  using seg_recoverable [OF assms(1,2)]
proof (cases rule: recoverable_content)
  case short
  then show ?thesis using assms(2) by (simp add: seg_records_def)
next
  case (records rest)
  have "SEGMENT_FILE_HEADER_LEN \<le> length c" by (subst records(1)) simp
  then show ?thesis using assms(3) by simp
qed

lemma quiet_loop_from:
  assumes "seg_readable d n allow_partial recover_partial" and "seg d n = Some c" and "seg_bodies c = xs @ ys"
    and "SEGMENT_FILE_HEADER_LEN \<le> length c"
    and step: "\<And>off body acc. (RecordPosition n off, body) \<in> set (dir_records d) \<Longrightarrow>
      quiet d (on_record off body acc) (g acc (RecordPosition n off, body))"
  shows "quiet d (segment_loop path allow_partial recover_partial on_record
      \<lparr>rd_content = c, rd_pos = SEGMENT_FILE_HEADER_LEN + length (frames xs)\<rparr> acc)
    (fold_result g acc (drop (length xs) (seg_records d n)))"
proof -
  let ?at = "\<lambda>(off, body). (RecordPosition n (of_nat off), body)"
  have ok: "crash_ok d" and tail: "clean c \<or> allow_partial \<and> \<not> recover_partial"
    using assms(1,2) by (auto simp: seg_readable_def)
  have recs: "seg_records d n = map ?at (layout SEGMENT_FILE_HEADER_LEN xs) @
      map ?at (layout (SEGMENT_FILE_HEADER_LEN + length (frames xs)) ys)"
    by (simp add: seg_records_layout [OF assms(2)] assms(3) layout_append)
  have "length (layout off bs) = length bs" for off bs
    by (metis layout_bodies length_map)
  then have drop: "drop (length xs) (seg_records d n) = map ?at (layout (SEGMENT_FILE_HEADER_LEN + length (frames xs)) ys)"
    by (simp add: recs)
  show ?thesis unfolding drop
  proof (rule quiet_segment_loop [OF seg_recoverable [OF ok assms(2)] assms(3,4) tail])
    fix off body acc assume "(off, body) \<in> set (layout (SEGMENT_FILE_HEADER_LEN + length (frames xs)) ys)"
    then have "(RecordPosition n (of_nat off), body) \<in> set (seg_records d n)"
      by (force simp: recs)
    then show "quiet d (on_record (of_nat off) body acc) (g acc (RecordPosition n (of_nat off), body))"
      by (intro step dir_records_seg [OF ok])
  qed
qed

lemma quiet_loop_start:
  assumes "seg_readable d n allow_partial recover_partial" and "seg d n = Some c"
    and "SEGMENT_FILE_HEADER_LEN \<le> length c"
    and "\<And>off body acc. (RecordPosition n off, body) \<in> set (dir_records d) \<Longrightarrow>
      quiet d (on_record off body acc) (g acc (RecordPosition n off, body))"
  shows "quiet d (segment_loop path allow_partial recover_partial on_record
      \<lparr>rd_content = c, rd_pos = SEGMENT_FILE_HEADER_LEN\<rparr> acc) (fold_result g acc (seg_records d n))"
  using quiet_loop_from [OF assms(1,2), of "[]" "seg_bodies c" on_record g] assms(3,4) by simp

text \<open>A file that is shorter than its header has no records, and its readers stop at the header.\<close>

lemma quiet_after_header:
  assumes "seg_readable d n allow_partial recover_partial" and "seg d n = Some c"
    and "SEGMENT_FILE_HEADER_LEN \<le> length c \<Longrightarrow> quiet d (m \<lparr>rd_content = c, rd_pos = SEGMENT_FILE_HEADER_LEN\<rparr>) r"
    and "seg_records d n = [] \<Longrightarrow> r = Inr acc"
  shows "quiet d (sbind (sys_open_read (SegmentName_file_name n)) (\<lambda>file.
      sbind (read_segment_header (SegmentName_file_name n) file allow_partial recover_partial counted) (\<lambda>(found, file).
      if \<not> found then sret acc else m file))) r"
proof (rule quiet_bind_Inr [OF quiet_open_read [OF assms(2)]])
  let ?file = "\<lparr>rd_content = c, rd_pos = 0\<rparr>"
  have ok: "crash_ok d" and tail: "clean c \<or> allow_partial \<and> \<not> recover_partial"
    using assms(1,2) by (auto simp: seg_readable_def)
  show "quiet d (sbind (read_segment_header (SegmentName_file_name n) ?file allow_partial recover_partial counted)
      (\<lambda>(found, file). if \<not> found then sret acc else m file)) r"
  proof (cases "SEGMENT_FILE_HEADER_LEN \<le> length c")
    case True
    then show ?thesis
      using assms(3) by (simp add: quiet_def recoverable_header_read [OF seg_recoverable [OF ok assms(2)]])
  next
    case False
    then have "allow_partial" "\<not> recover_partial" using tail clean_length by auto
    then have "quiet d (read_segment_header (SegmentName_file_name n) ?file allow_partial recover_partial counted)
        (Inr (False, ?file))"
      using False by (auto simp: read_segment_header_def Let_def quiet_basic quiet_count intro!: quiet_bind_Inr)
    moreover have "r = Inr acc" using False by (intro assms(4) short_seg_records [OF ok assms(2)]) simp
    ultimately show ?thesis by (simp only:) (rule quiet_bind_Inr, assumption, simp add: quiet_basic)
  qed
qed

lemma quiet_replay_node_segment:
  assumes "seg_readable d n allow_partial recover_partial" and "decodable N d" and "seg d n = Some c"
  shows "quiet d (replay_node_segment N (seg_path n) allow_partial target checkpoint recover_partial state)
    (fold_result (node_step N target checkpoint) state (seg_records d n))"
proof -
  have ok: "crash_ok d" using assms(1) by (simp add: seg_readable_def)
  show ?thesis unfolding replay_node_segment_def seg_path_sel
    by (rule quiet_after_header [OF assms(1,3)])
      (intro quiet_loop_start [OF assms(1,3)] quiet_node_step [OF ok assms(2)], simp_all)
qed

lemma quiet_replay_segment:
  assumes "seg_readable d n allow_partial recover_partial" and "decodable N d" and "seg d n = Some c"
  shows "quiet d (replay_segment N (seg_path n) allow_partial node_filter positions recover_partial replay)
    (fold_result (all_step N node_filter positions) replay (seg_records d n))"
proof -
  have ok: "crash_ok d" using assms(1) by (simp add: seg_readable_def)
  show ?thesis unfolding replay_segment_def seg_path_sel
    by (rule quiet_after_header [OF assms(1,3)])
      (intro quiet_loop_start [OF assms(1,3)] quiet_all_step [OF ok assms(2)], simp_all)
qed

text \<open>The records at or behind an optional start position.\<close>

definition from_start :: "RecordPosition option \<Rightarrow> (RecordPosition \<times> bytes) list \<Rightarrow> (RecordPosition \<times> bytes) list" where
  "from_start start xs = filter (\<lambda>x. \<not> before_checkpoint start (fst x)) xs"

lemma quiet_scan_checkpoint_positions:
  assumes "seg_readable d n allow_partial recover_partial" and "decodable N d" and "seg d n = Some c"
  shows "quiet d (scan_checkpoint_positions N (seg_path n) allow_partial node_filter None recover_partial checkpoints)
    (fold_result (ckpt_step N node_filter) checkpoints (seg_records d n))"
proof -
  have unat: "unat (of_nat SEGMENT_FILE_HEADER_LEN :: u64) = SEGMENT_FILE_HEADER_LEN"
    by (simp add: SEGMENT_FILE_HEADER_LEN_def)
  show ?thesis
    unfolding scan_checkpoint_positions_def seg_path_sel
  proof (rule quiet_after_header [OF assms(1,3)], goal_cases)
    case 1
    have "\<not> length c < unat (of_nat SEGMENT_FILE_HEADER_LEN :: u64)" using 1 by (simp only: unat not_less)
    then show ?case
      by (simp add: unat) (intro quiet_loop_start [OF assms(1,3) 1] quiet_ckpt_step [OF assms(2)])
  qed simp
qed

lemma quiet_scan_checkpoint_positions_from:
  assumes "seg_readable d n allow_partial recover_partial" and "decodable N d" and "seg d n = Some c"
    and "(RecordPosition n off, body) \<in> set (seg_records d n)"
  shows "quiet d (scan_checkpoint_positions N (seg_path n) allow_partial node_filter (Some off) recover_partial checkpoints)
    (fold_result (ckpt_step N node_filter) checkpoints (from_start (Some (RecordPosition n off)) (seg_records d n)))"
proof -
  have ok: "crash_ok d" using assms(1) by (simp add: seg_readable_def)
  obtain k where k: "off = of_nat k" "(k, body) \<in> set (layout SEGMENT_FILE_HEADER_LEN (seg_bodies c))"
    using assms(3,4) by (auto elim!: seg_records_mem)
  obtain xs ys where split: "seg_bodies c = xs @ body # ys" and k_eq: "k = SEGMENT_FILE_HEADER_LEN + length (frames xs)"
    using layout_mem_split [OF k(2)] by blast
  have off: "unat off = k" "SEGMENT_FILE_HEADER_LEN \<le> k" "k \<le> length c"
    using layout_in_seg [OF ok assms(3) k(2)] k(1) by auto
  have start: "(off < of_nat SEGMENT_FILE_HEADER_LEN) = False" "(length c < unat off) = False"
    "unat off = SEGMENT_FILE_HEADER_LEN + length (frames xs)"
    using off k_eq by (simp_all add: word_less_nat_alt SEGMENT_FILE_HEADER_LEN_def)
  have start_records: "from_start (Some (RecordPosition n off)) (seg_records d n) = drop (length xs) (seg_records d n)"
  proof -
    let ?at = "\<lambda>(off, body). (RecordPosition n (of_nat off), body)"
    have recs: "seg_records d n = map ?at (layout SEGMENT_FILE_HEADER_LEN xs) @
        (RecordPosition n off, body) # map ?at (layout (k + 8 + length body) ys)"
      by (simp add: seg_records_layout [OF assms(3)] split layout_append k_eq [symmetric] k(1))
    have len: "length (layout off bs) = length bs" for off bs
      by (metis layout_bodies length_map)
    show ?thesis
      using filter_from_sorted [of _ "(RecordPosition n off, body)"] sorted_seg_records [OF ok, of n]
      by (simp add: from_start_def before_checkpoint_def not_less recs len del: filter_append)
  qed
  show ?thesis
    unfolding scan_checkpoint_positions_def seg_path_sel start_records
  proof (rule quiet_after_header [OF assms(1,3)], goal_cases)
    case 1
    then show ?case
      by (simp only: Let_def option.case Reader.simps start(1,2) if_False, simp only: start(3))
        (intro quiet_loop_from [OF assms(1,3) split] quiet_ckpt_step [OF assms(2)])
  next
    case 2
    then show ?case using assms(4) by simp
  qed
qed

end
