(* ===== verification/Engine.thy ===== *)
theory Engine
  imports Replay
begin

text \<open>
  The storage engine and the read-only access of \<^verbatim>\<open>src/storage.rs\<close>: opening a directory, the node
  operations, garbage collection and synchronisation, each as a computation on the engine state,
  which keeps what it reached when an error is returned.
\<close>

section \<open>Opening\<close>

record engine = writer_state +
  st_registry :: NodeRegistry
  st_index :: CheckpointIndex

definition DEFAULT_MAX_SEGMENT_LEN :: u64 where
  "DEFAULT_MAX_SEGMENT_LEN = 128 * 1024 * 1024"

definition WRITE_LOCK_FILE_NAME :: string where
  "WRITE_LOCK_FILE_NAME = ''write.lock''"

definition create_dir_all_synced :: "('x io_state_scheme, unit) io" where
  "create_dir_all_synced =
     sbind (sget (\<lambda>s. d_dir (st_disk s))) (\<lambda>status. case status of
       Missing \<Rightarrow>
         sbind (syscall (smodify (on_disk (\<lambda>d. d\<lparr>d_dir := Directory, d_files := []\<rparr>)))) (\<lambda>_. sys_sync_dir)
     | Directory \<Rightarrow> sret ()
     | NotDirectory \<Rightarrow> serr (IoError AlreadyExists ''File exists''))"

definition acquire_write_lock :: "('x io_state_scheme, unit) io" where
  "acquire_write_lock =
     sbind (sys_open_create WRITE_LOCK_FILE_NAME) (\<lambda>_.
     sbind sys_try_lock (\<lambda>acquired.
     if acquired then sret ()
     else serr (IoError WouldBlock ''storage directory is already open for writing'')))"

text \<open>The part of \<^verbatim>\<open>with_max_segment_len\<close> that runs while the lock is held.\<close>

definition open_locked ::
  "('le, 'lg) noraft \<Rightarrow> 'v nojson \<Rightarrow> u64 \<Rightarrow>
     ('x io_state_scheme, NodeRegistry \<times> CheckpointIndex \<times> SegmentWriter) io" where
  "open_locked N J max_segment_len =
     sbind (sget (\<lambda>s. select_active_append_segment (st_disk s))) (\<lambda>active_segment.
     sbind (recover_storage_dir active_segment) (\<lambda>_.
     sbind (sget st_disk) (\<lambda>d.
     sbind (slift (NodeRegistry_load J d)) (\<lambda>registry.
     sbind (slift (CheckpointIndex_load N J d registry)) (\<lambda>checkpoint_index.
     sbind (count_metric (registry_loaded (of_nat (active_node_count registry)) (of_nat (removed_node_count registry)))) (\<lambda>_.
     sbind (count_metric (checkpoint_index_loaded (of_nat (length checkpoint_index)))) (\<lambda>_.
     sbind (SegmentWriter_open active_segment max_segment_len) (\<lambda>writer.
     sret (registry, checkpoint_index, writer)))))))))"

definition release_lock :: "Disk \<Rightarrow> Disk" where
  "release_lock d = d\<lparr>d_locked := False\<rparr>"

text \<open>
  \<^verbatim>\<open>StorageEngine::with_max_segment_len\<close>: the engine or the error, and the directory afterwards. An
  error after the lock was taken drops the lock file handle and with it the lock.
\<close>

definition with_max_segment_len ::
  "('le, 'lg) noraft \<Rightarrow> 'v nojson \<Rightarrow> u64 \<Rightarrow> Disk \<Rightarrow> engine io_result \<times> Disk" where
  "with_max_segment_len N J max_segment_len d =
     (if max_segment_len = 0 then (Inl (invalid_input ''max segment length must be non-zero''), d)
      else let s = \<lparr>st_disk = d, st_metrics = StorageMetrics_default\<rparr> in
      case sbind create_dir_all_synced (\<lambda>_. acquire_write_lock) s of
        (Inl e, s) \<Rightarrow> (Inl e, st_disk s)
      | (Inr _, s) \<Rightarrow>
          (case open_locked N J max_segment_len s of
             (Inl e, s) \<Rightarrow> (Inl e, release_lock (st_disk s))
           | (Inr (registry, checkpoint_index, writer), s) \<Rightarrow>
               (Inr \<lparr>st_disk = st_disk s, st_metrics = st_metrics s, st_writer = writer,
                     st_registry = registry, st_index = checkpoint_index\<rparr>, st_disk s)))"

definition StorageEngine_new :: "('le, 'lg) noraft \<Rightarrow> 'v nojson \<Rightarrow> Disk \<Rightarrow> engine io_result \<times> Disk" where
  "StorageEngine_new N J = with_max_segment_len N J DEFAULT_MAX_SEGMENT_LEN"

text \<open>Dropping the engine: the directory it leaves behind.\<close>

definition close_engine :: "engine \<Rightarrow> Disk" where
  "close_engine s = release_lock (st_disk s)"

section \<open>Node operations\<close>

definition set_registry :: "NodeRegistry \<Rightarrow> (engine, unit) io" where
  "set_registry reg = smodify (\<lambda>s. s\<lparr>st_registry := reg\<rparr>)"

definition set_index :: "CheckpointIndex \<Rightarrow> (engine, unit) io" where
  "set_index idx = smodify (\<lambda>s. s\<lparr>st_index := idx\<rparr>)"

definition refresh_registry_metrics :: "(engine, unit) io" where
  "refresh_registry_metrics =
     sbind (sget st_registry) (\<lambda>reg.
     count_metric (node_counts_changed (of_nat (active_node_count reg)) (of_nat (removed_node_count reg))))"

definition refresh_checkpoint_index_metrics :: "(engine, unit) io" where
  "refresh_checkpoint_index_metrics =
     sbind (sget st_index) (\<lambda>idx. count_metric (checkpoint_index_changed (of_nat (length idx))))"

definition Engine_ensure_node_exists :: "NodeId \<Rightarrow> StorageOperationKind \<Rightarrow> (engine, unit) io" where
  "Engine_ensure_node_exists node_id operation =
     sbind (sget st_registry) (\<lambda>registry.
     if is_active registry node_id then sret ()
     else if is_removed registry node_id then
       sbind (count_metric (rejected_operation operation RemovedNode)) (\<lambda>_. serr node_removed_error)
     else sbind (count_metric (rejected_operation operation UnknownNode)) (\<lambda>_. serr node_not_found_error))"

text \<open>The loop of \<^verbatim>\<open>collect_garbage\<close>: a file that is already gone is not counted.\<close>

definition gc_step :: "SegmentName \<Rightarrow> GcBarrier \<Rightarrow> SegmentPath \<Rightarrow> u64 \<Rightarrow> (engine, u64) io" where
  "gc_step active_segment barrier segment deleted s =
     (if sp_name segment = active_segment then (Inr deleted, s)
      else if \<not> allows_delete barrier (sp_name segment) then (Inr deleted, s)
      else case sys_remove_file (sp_path segment) s of
        (Inr _, s) \<Rightarrow> (Inr (deleted + 1), s)
      | (Inl e, s) \<Rightarrow> if kind_of e = NotFound then (Inr deleted, s) else (Inl e, s))"

definition collect_garbage :: "(engine, unit) io" where
  "collect_garbage =
     sbind (count_metric gc_ran) (\<lambda>_.
     sbind (sget (\<lambda>s. gc_barrier (st_index s) (active_node_ids (st_registry s)))) (\<lambda>barrier. case barrier of
       None \<Rightarrow> sret ()
     | Some barrier \<Rightarrow>
         sbind (sget (\<lambda>s. discover_segment_paths (st_disk s))) (\<lambda>segments.
         sbind (sget (\<lambda>s. sw_active_segment (st_writer s))) (\<lambda>active_segment.
         sbind (sfold (gc_step active_segment barrier) segments 0) (\<lambda>deleted.
         if deleted \<noteq> 0
         then sbind (count_metric (gc_deleted_segments deleted)) (\<lambda>_. sys_sync_dir)
         else sret ())))))"

definition create_node :: "('le, 'lg) noraft \<Rightarrow> 'v nojson \<Rightarrow> NodeId \<Rightarrow> NodeMetadata \<Rightarrow> (engine, unit) io" where
  "create_node N J node_id metadata =
     sbind (sget st_registry) (\<lambda>registry.
     sbind (slift (Registry_create_node node_id metadata registry)) (\<lambda>registry.
     sbind (SegmentWriter_append N node_id (Checkpoint (initial_checkpoint N))) (\<lambda>append.
     sbind SegmentWriter_sync (\<lambda>_.
     sbind (sget st_index) (\<lambda>checkpoint_index.
     let checkpoint_index = set_checkpoint_position node_id append checkpoint_index in
     sbind (CheckpointIndex_save J checkpoint_index) (\<lambda>_.
     sbind (NodeRegistry_save J registry) (\<lambda>_.
     sbind (set_registry registry) (\<lambda>_.
     sbind (set_index checkpoint_index) (\<lambda>_.
     sbind (count_metric node_created) (\<lambda>_.
     sbind refresh_registry_metrics (\<lambda>_.
     refresh_checkpoint_index_metrics)))))))))))"

definition node_metadata :: "engine \<Rightarrow> NodeId \<Rightarrow> NodeMetadata option" where
  "node_metadata s n = Registry_metadata (st_registry s) n"

definition Engine_nodes :: "engine \<Rightarrow> (NodeId \<times> NodeMetadata) list" where
  "Engine_nodes s = Registry_nodes (st_registry s)"

definition Engine_load :: "('le, 'lg) noraft \<Rightarrow> NodeId \<Rightarrow> (engine, 'lg NodeState) io" where
  "Engine_load N node_id =
     sbind (Engine_ensure_node_exists node_id OpLoad) (\<lambda>_.
     sbind (sget (\<lambda>s. checkpoint_position (st_index s) node_id)) (\<lambda>checkpoint.
     sbind (sget (\<lambda>s. sw_active_segment (st_writer s))) (\<lambda>active_segment.
     replay_node_state N active_segment node_id checkpoint True)))"

text \<open>The last loop of \<^verbatim>\<open>load_all\<close>: one state for every active node.\<close>

definition collect_states :: "('le, 'lg) noraft \<Rightarrow> 'lg ReplayState \<Rightarrow> NodeId btset \<Rightarrow> (NodeId, 'lg NodeState) btmap" where
  "collect_states N replay node_ids =
     fst (foldl (\<lambda>(nodes, replay) n.
        (bt_insert n (case bt_get replay n of Some s \<Rightarrow> s | None \<Rightarrow> NodeState_default N) nodes, bt_remove n replay))
       ([], replay) node_ids)"

definition Engine_load_all :: "('le, 'lg) noraft \<Rightarrow> (engine, (NodeId, 'lg NodeState) btmap) io" where
  "Engine_load_all N =
     sbind (sget (\<lambda>s. active_node_ids (st_registry s))) (\<lambda>node_ids.
     if node_ids = [] then sret []
     else sbind (sget (\<lambda>s. checkpoint_positions (st_index s) node_ids)) (\<lambda>checkpoint_hints.
       sbind (sget (\<lambda>s. sw_active_segment (st_writer s))) (\<lambda>active_segment.
       sbind (replay_storage_dir N active_segment (Some node_ids) checkpoint_hints True) (\<lambda>replay.
       sret (collect_states N replay node_ids)))))"

definition save_record :: "('le, 'lg) noraft \<Rightarrow> NodeId \<Rightarrow> 'le Record \<Rightarrow> StorageOperationKind \<Rightarrow> (engine, unit) io" where
  "save_record N node_id r operation =
     sbind (Engine_ensure_node_exists node_id operation) (\<lambda>_.
     sbind (SegmentWriter_append N node_id r) (\<lambda>_. sret ()))"

definition save_current_term :: "('le, 'lg) noraft \<Rightarrow> NodeId \<Rightarrow> Term \<Rightarrow> (engine, unit) io" where
  "save_current_term N node_id t = save_record N node_id (CurrentTerm t) OpSaveCurrentTerm"

definition save_voted_for :: "('le, 'lg) noraft \<Rightarrow> NodeId \<Rightarrow> NodeId option \<Rightarrow> (engine, unit) io" where
  "save_voted_for N node_id v = save_record N node_id (VotedFor v) OpSaveVotedFor"

definition append_entries :: "('le, 'lg) noraft \<Rightarrow> NodeId \<Rightarrow> 'le LogAppend \<Rightarrow> (engine, unit) io" where
  "append_entries N node_id a = save_record N node_id (Append a) OpAppendEntries"

definition save_snapshot :: "('le, 'lg) noraft \<Rightarrow> 'v nojson \<Rightarrow> NodeId \<Rightarrow> 'le SnapshotCheckpoint \<Rightarrow> (engine, unit) io" where
  "save_snapshot N J node_id checkpoint =
     sbind (Engine_ensure_node_exists node_id OpSaveSnapshot) (\<lambda>_.
     sbind (slift (SnapshotCheckpoint_validate N checkpoint)) (\<lambda>_.
     sbind (SegmentWriter_append N node_id (Checkpoint checkpoint)) (\<lambda>append.
     sbind SegmentWriter_sync (\<lambda>_.
     sbind (sget st_index) (\<lambda>checkpoint_index.
     let checkpoint_index = set_checkpoint_position node_id append checkpoint_index in
     sbind (CheckpointIndex_save J checkpoint_index) (\<lambda>_.
     sbind (set_index checkpoint_index) (\<lambda>_.
     sbind refresh_checkpoint_index_metrics (\<lambda>_.
     sbind collect_garbage (\<lambda>_.
     count_metric snapshot_checkpoint_saved)))))))))"

definition remove_node :: "'v nojson \<Rightarrow> NodeId \<Rightarrow> (engine, unit) io" where
  "remove_node J node_id =
     sbind (Engine_ensure_node_exists node_id OpRemoveNode) (\<lambda>_.
     sbind (sget st_registry) (\<lambda>registry.
     sbind (slift (Registry_remove_node node_id registry)) (\<lambda>registry.
     sbind (NodeRegistry_save J registry) (\<lambda>_.
     sbind (set_registry registry) (\<lambda>_.
     sbind (sget st_index) (\<lambda>checkpoint_index.
     let checkpoint_index = Index_remove_node node_id checkpoint_index in
     sbind (CheckpointIndex_save J checkpoint_index) (\<lambda>_.
     sbind (set_index checkpoint_index) (\<lambda>_.
     sbind collect_garbage (\<lambda>_.
     sbind (count_metric node_removed) (\<lambda>_.
     sbind refresh_registry_metrics (\<lambda>_.
     refresh_checkpoint_index_metrics)))))))))))"

definition Engine_sync :: "(engine, unit) io" where
  "Engine_sync = sbind (count_metric sync_requested) (\<lambda>_. SegmentWriter_sync)"

section \<open>Read-only access\<close>

record ReadOnlyStorage = io_state +
  ro_registry :: NodeRegistry
  ro_index :: CheckpointIndex

definition ReadOnly_open :: "('le, 'lg) noraft \<Rightarrow> 'v nojson \<Rightarrow> Disk \<Rightarrow> ReadOnlyStorage io_result" where
  "ReadOnly_open N J d =
     (case d_dir d of
        Missing \<Rightarrow> Inl not_found
      | NotDirectory \<Rightarrow> Inl (invalid_input ''storage path is not a directory'')
      | Directory \<Rightarrow>
          rbind (NodeRegistry_load J d) (\<lambda>registry.
          rbind (CheckpointIndex_load N J d registry) (\<lambda>checkpoint_index.
          Inr \<lparr>st_disk = d,
               st_metrics = checkpoint_index_loaded (of_nat (length checkpoint_index))
                 (registry_loaded (of_nat (active_node_count registry)) (of_nat (removed_node_count registry))
                   StorageMetrics_default),
               ro_registry = registry, ro_index = checkpoint_index\<rparr>)))"

definition ensure_node_exists :: "NodeRegistry \<Rightarrow> NodeId \<Rightarrow> unit io_result" where
  "ensure_node_exists registry node_id =
     (if is_active registry node_id then Inr ()
      else if is_removed registry node_id then Inl node_removed_error
      else Inl node_not_found_error)"

definition ReadOnly_load :: "('le, 'lg) noraft \<Rightarrow> NodeId \<Rightarrow> (ReadOnlyStorage, 'lg NodeState) io" where
  "ReadOnly_load N node_id =
     sbind (sget ro_registry) (\<lambda>registry.
     sbind (slift (ensure_node_exists registry node_id)) (\<lambda>_.
     sbind (sget (\<lambda>s. checkpoint_position (ro_index s) node_id)) (\<lambda>checkpoint.
     sbind (sget (\<lambda>s. select_active_append_segment (st_disk s))) (\<lambda>active_segment.
     replay_node_state N active_segment node_id checkpoint False))))"

definition ReadOnly_load_all :: "('le, 'lg) noraft \<Rightarrow> (ReadOnlyStorage, (NodeId, 'lg NodeState) btmap) io" where
  "ReadOnly_load_all N =
     sbind (sget (\<lambda>s. active_node_ids (ro_registry s))) (\<lambda>node_ids.
     if node_ids = [] then sret []
     else sbind (sget (\<lambda>s. checkpoint_positions (ro_index s) node_ids)) (\<lambda>checkpoint_hints.
       sbind (sget (\<lambda>s. select_active_append_segment (st_disk s))) (\<lambda>active_segment.
       sbind (replay_storage_dir N active_segment (Some node_ids) checkpoint_hints False) (\<lambda>replay.
       sret (collect_states N replay node_ids)))))"

text \<open>The free functions \<^verbatim>\<open>load\<close>, \<^verbatim>\<open>load_all\<close> and \<^verbatim>\<open>nodes\<close>, with the directory they leave behind.\<close>

definition with_read_only ::
  "('le, 'lg) noraft \<Rightarrow> 'v nojson \<Rightarrow> (ReadOnlyStorage, 'a) io \<Rightarrow> Disk \<Rightarrow> 'a io_result \<times> Disk" where
  "with_read_only N J m d =
     (case ReadOnly_open N J d of
        Inl e \<Rightarrow> (Inl e, d)
      | Inr s \<Rightarrow> (case m s of (r, s') \<Rightarrow> (r, st_disk s')))"

definition load_node :: "('le, 'lg) noraft \<Rightarrow> 'v nojson \<Rightarrow> Disk \<Rightarrow> NodeId \<Rightarrow> 'lg NodeState io_result \<times> Disk" where
  "load_node N J d node_id = with_read_only N J (ReadOnly_load N node_id) d"

definition load_all :: "('le, 'lg) noraft \<Rightarrow> 'v nojson \<Rightarrow> Disk \<Rightarrow> (NodeId, 'lg NodeState) btmap io_result \<times> Disk" where
  "load_all N J d = with_read_only N J (ReadOnly_load_all N) d"

definition nodes :: "('le, 'lg) noraft \<Rightarrow> 'v nojson \<Rightarrow> Disk \<Rightarrow> (NodeId, NodeMetadata) btmap io_result \<times> Disk" where
  "nodes N J d = with_read_only N J
     (sbind (sget ro_registry) (\<lambda>registry. sret (fold (\<lambda>e. bt_insert (fst e) (snd e)) (Registry_nodes registry) []))) d"

end
