(* ===== verification/Replay_Spec.thy ===== *)
theory Replay_Spec
  imports Replay_Laws Engine
begin

text \<open>
  The abstract meaning of a storage directory: the history of each node, which is the list of its
  records in the order of the segments, and the state of a node, which is what folding the history
  from the latest checkpoint on yields. The replay functions are shown to compute it.
\<close>

section \<open>Directory scans as folds\<close>

lemma fold_result_concat:
  "fold_result g acc (concat xss) = fold_result (fold_result g) acc xss"
  by (induction xss arbitrary: acc) (auto simp: fold_result_append intro: rbind_cong)

lemma fold_result_map: "fold_result g acc (map f xs) = fold_result (\<lambda>acc x. g acc (f x)) acc xs"
  by (induction xs arbitrary: acc) (auto intro: rbind_cong)

lemma from_start_concat: "from_start start (concat xss) = concat (map (from_start start) xss)"
  by (simp add: from_start_def [abs_def] filter_concat)

lemma from_start_None [simp]: "from_start None xs = xs"
  by (simp add: from_start_def before_checkpoint_def)

lemma from_start_low:
  assumes "n < rp_segment p"
  shows "from_start (Some p) (seg_records d n) = []"
proof -
  have "q < p" if "(q, body) \<in> set (seg_records d n)" for q body
    using assms seg_records_segment [OF that] by (simp add: less_RecordPosition_def)
  then show ?thesis by (auto simp: from_start_def before_checkpoint_def filter_empty_conv)
qed

lemma from_start_high:
  assumes "rp_segment p < n"
  shows "from_start (Some p) (seg_records d n) = seg_records d n"
proof -
  have "\<not> q < p" if "(q, body) \<in> set (seg_records d n)" for q body
    using assms seg_records_segment [OF that] by (auto simp: less_RecordPosition_def)
  then show ?thesis by (auto simp: from_start_def before_checkpoint_def filter_id_conv)
qed

definition start_ok :: "Disk \<Rightarrow> RecordPosition option \<Rightarrow> bool" where
  "start_ok d start \<longleftrightarrow> (\<forall>p. start = Some p \<longrightarrow> p \<in> fst ` set (dir_records d))"

lemma start_record:
  assumes "crash_ok d" and "p \<in> fst ` set (dir_records d)"
  obtains body where "(p, body) \<in> set (seg_records d (rp_segment p))"
  using assms by (auto simp: dir_records_def) (metis seg_records_segment)

lemma seg_name_content:
  assumes "crash_ok d" and "n \<in> set (seg_names d)"
  obtains c where "seg d n = Some c"
  using assms seg_names(2) [of d] by (auto simp: crash_ok_def)

text \<open>The segment at which a reader accepts a partial record is the only one that can have it.\<close>

abbreviation replay_active :: "Disk \<Rightarrow> SegmentName \<Rightarrow> bool \<Rightarrow> SegmentName" where
  "replay_active d active recover_partial \<equiv> replay_active_segment (map seg_path (seg_names d)) active recover_partial"

lemma readable_seg:
  assumes "readable d recover_partial" and "n \<in> set (seg_names d)"
  shows "seg_readable d n (n = replay_active d active recover_partial) recover_partial"
proof (cases recover_partial)
  case True
  then show ?thesis using assms(1) by (auto simp: readable_def seg_readable_def all_clean_def)
next
  case False
  have ok: "crash_ok d" "disk_ok d" using assms(1) by (auto simp: readable_def crash_ok_def)
  have active: "replay_active d active recover_partial = last (seg_names d)"
    using assms(2) False by (auto simp: replay_active_segment_def last_map)
  have "last (seg_names d) \<in> set (seg_names d)" using assms(2) by (intro last_in_set) auto
  then have "seg d (last (seg_names d)) \<noteq> None" using seg_names(2) [OF ok(2)] by auto
  moreover have "n \<le> last (seg_names d)"
    using seg_names(3) [OF ok(2)] assms(2)
    by (cases "seg_names d" rule: rev_cases) (auto simp: sorted_wrt_append less_imp_le)
  ultimately have "clean c \<or> n = last (seg_names d)" if "seg d n = Some c" for c
    using ok(1) that by (fastforce simp: crash_ok_def)
  then show ?thesis using ok(1) False active by (simp add: seg_readable_def)
qed

lemma quiet_segments:
  assumes clean: "crash_ok d"
    and seg: "\<And>n c acc. n \<in> set (seg_names d) \<Longrightarrow> seg d n = Some c \<Longrightarrow>
      quiet d (f (seg_path n) acc) (fold_result g acc (h (seg_records d n)))"
  shows "quiet d (sfold f (map seg_path (seg_names d)) acc)
    (fold_result g acc (concat (map (\<lambda>n. h (seg_records d n)) (seg_names d))))"
proof -
  have "quiet d (sfold f (map seg_path (seg_names d)) acc)
      (fold_result (\<lambda>acc p. fold_result g acc (h (seg_records d (sp_name p)))) acc (map seg_path (seg_names d)))"
  proof (rule quiet_sfold)
    fix p acc assume "p \<in> set (map seg_path (seg_names d))"
    then obtain n where n: "p = seg_path n" "n \<in> set (seg_names d)" by auto
    obtain c where "seg d n = Some c" using seg_name_content [OF clean n(2)] .
    from seg [OF n(2) this] show "quiet d (f p acc) (fold_result g acc (h (seg_records d (sp_name p))))"
      by (simp add: n(1))
  qed
  then show ?thesis by (simp add: fold_result_concat fold_result_map)
qed

lemma quiet_find_checkpoint_positions_from:
  assumes "readable d recover_partial" and "decodable N d" and "start_ok d start"
  shows "quiet d (find_checkpoint_positions_from N active node_filter start recover_partial)
    (fold_result (ckpt_step N node_filter) [] (from_start start (dir_records d)))"
proof -
  have ok: "crash_ok d" "disk_ok d" using assms(1) by (auto simp: readable_def crash_ok_def)
  note names = seg_names(1) [OF ok(2)]
  let ?active = "replay_active d active recover_partial"
  let ?scan = "\<lambda>segment checkpoints.
      if (case start of Some start \<Rightarrow> sp_name segment < rp_segment start | None \<Rightarrow> False) then sret checkpoints
      else scan_checkpoint_positions N segment (sp_name segment = ?active) node_filter
        (case start of Some start \<Rightarrow> if sp_name segment = rp_segment start then Some (rp_offset start) else None
         | None \<Rightarrow> None) recover_partial checkpoints"
  have "quiet d (?scan (seg_path n) acc)
      (fold_result (ckpt_step N node_filter) acc (from_start start (seg_records d n)))"
    if n: "n \<in> set (seg_names d)" and c: "seg d n = Some c" for n c acc
  proof (cases start)
    case None
    then show ?thesis by (simp add: quiet_scan_checkpoint_positions [OF readable_seg [OF assms(1) n] assms(2) c])
  next
    case (Some p)
    consider "n < rp_segment p" | "n = rp_segment p" | "rp_segment p < n" by (rule linorder_cases)
    then show ?thesis
    proof cases
      case 1
      then show ?thesis by (simp add: Some from_start_low quiet_basic)
    next
      case 2
      obtain body where body: "(p, body) \<in> set (seg_records d n)"
        using start_record [OF ok(1)] assms(3) Some 2 by (auto simp: start_ok_def)
      have p: "RecordPosition n (rp_offset p) = p" using 2 by (cases p) simp
      show ?thesis
        by (simp add: Some 2 [symmetric]
            quiet_scan_checkpoint_positions_from [OF readable_seg [OF assms(1) n] assms(2) c, of "rp_offset p", unfolded p, OF body])
    next
      case 3
      then show ?thesis
        by (auto simp: Some from_start_high intro: quiet_scan_checkpoint_positions [OF readable_seg [OF assms(1) n] assms(2) c])
    qed
  qed
  then have "quiet d (sfold ?scan (map seg_path (seg_names d)) [])
      (fold_result (ckpt_step N node_filter) [] (concat (map (\<lambda>n. from_start start (seg_records d n)) (seg_names d))))"
    by (intro quiet_segments [OF ok(1)])
  then show ?thesis
    unfolding find_checkpoint_positions_from_def
    by (intro quiet_sget_disk [where h = discover_segment_paths])
      (simp add: names Let_def dir_records_def from_start_concat comp_def)
qed

section \<open>Histories\<close>

type_synonym placed = "RecordPosition \<times> bytes"

definition node_of :: "('le, 'lg) noraft \<Rightarrow> placed \<Rightarrow> NodeId" where
  "node_of N pb = nr_node_id (the_record N (snd pb))"

definition record_of :: "('le, 'lg) noraft \<Rightarrow> placed \<Rightarrow> 'le Record" where
  "record_of N pb = nr_record (the_record N (snd pb))"

definition history :: "('le, 'lg) noraft \<Rightarrow> NodeId \<Rightarrow> placed list \<Rightarrow> 'le Record list" where
  "history N n xs = map (record_of N) (filter (\<lambda>pb. node_of N pb = n) xs)"

text \<open>The records from the latest checkpoint on; all of them where there is none.\<close>

fun since_checkpoint :: "'le Record list \<Rightarrow> 'le Record list" where
  "since_checkpoint [] = []"
| "since_checkpoint (r # rs) = (if list_ex is_checkpoint rs then since_checkpoint rs else r # rs)"

definition state_of :: "('le, 'lg) noraft \<Rightarrow> 'le Record list \<Rightarrow> 'lg NodeState io_result" where
  "state_of N rs = fold_result (apply_record_to_state N) (NodeState_default N) (since_checkpoint rs)"

definition node_result :: "('le, 'lg) noraft \<Rightarrow> Disk \<Rightarrow> NodeId \<Rightarrow> 'lg NodeState io_result" where
  "node_result N d n = state_of N (history N n (dir_records d))"

fun last_ckpt :: "('le, 'lg) noraft \<Rightarrow> NodeId \<Rightarrow> placed list \<Rightarrow> RecordPosition option" where
  "last_ckpt N n [] = None"
| "last_ckpt N n (pb # xs) =
     (case last_ckpt N n xs of Some p \<Rightarrow> Some p
      | None \<Rightarrow> if node_of N pb = n \<and> is_checkpoint (record_of N pb) then Some (fst pb) else None)"

definition ckpt_at :: "('le, 'lg) noraft \<Rightarrow> NodeId \<Rightarrow> placed list \<Rightarrow> RecordPosition \<Rightarrow> bool" where
  "ckpt_at N n xs p \<longleftrightarrow> (\<exists>pb \<in> set xs. fst pb = p \<and> node_of N pb = n \<and> is_checkpoint (record_of N pb))"

lemma last_ckpt_Some: "last_ckpt N n xs = Some p \<Longrightarrow> ckpt_at N n xs p"
  by (induction xs) (auto simp: ckpt_at_def split: option.splits if_splits)

lemma last_ckpt_None: "last_ckpt N n xs = None \<longleftrightarrow> \<not> list_ex is_checkpoint (history N n xs)"
  by (induction xs) (auto simp: history_def split: option.splits)

lemma last_ckpt_ge:
  assumes "sorted_wrt (<) (map fst xs)" and "ckpt_at N n xs p"
  shows "\<exists>q. last_ckpt N n xs = Some q \<and> p \<le> q"
  using assms
proof (induction xs)
  case Nil
  then show ?case by (simp add: ckpt_at_def)
next
  case (Cons pb xs)
  show ?case
  proof (cases "ckpt_at N n xs p")
    case True
    then show ?thesis using Cons by auto
  next
    case False
    then have p: "fst pb = p" "node_of N pb = n" "is_checkpoint (record_of N pb)"
      using Cons.prems(2) by (auto simp: ckpt_at_def)
    show ?thesis
    proof (cases "last_ckpt N n xs")
      case (Some q)
      then have "\<exists>x \<in> set xs. fst x = q" using last_ckpt_Some by (fastforce simp: ckpt_at_def)
      then show ?thesis using Cons.prems(1) p Some by (auto intro: less_imp_le)
    qed (use p in simp)
  qed
qed

lemma last_ckpt_from_start:
  assumes "last_ckpt N n xs = Some q" and "\<not> before_checkpoint start q"
  shows "last_ckpt N n (from_start start xs) = Some q"
  using assms
proof (induction xs)
  case (Cons pb xs)
  have "last_ckpt N n (from_start start xs) = None" if "last_ckpt N n xs = None"
    using that by (auto simp: last_ckpt_None history_def from_start_def list_ex_iff)
  with Cons show ?case
    by (auto simp: from_start_def split: option.splits if_splits)
qed simp

lemma history_since_checkpoint:
  assumes "sorted_wrt (<) (map fst xs)"
  shows "history N n (from_start (last_ckpt N n xs) xs) = since_checkpoint (history N n xs)"
  using assms
proof (induction xs)
  case Nil
  then show ?case by (simp add: history_def from_start_def)
next
  case (Cons pb xs)
  have IH: "history N n (from_start (last_ckpt N n xs) xs) = since_checkpoint (history N n xs)"
    using Cons by simp
  have before: "\<forall>x \<in> set xs. fst pb < fst x" using Cons.prems by simp
  show ?case
  proof (cases "last_ckpt N n xs")
    case None
    then have none: "\<not> list_ex is_checkpoint (history N n xs)" by (simp add: last_ckpt_None)
    then have same: "since_checkpoint (history N n xs) = history N n xs"
      by (cases "history N n xs") auto
    have "from_start (Some (fst pb)) (pb # xs) = pb # xs"
      using before by (auto simp: from_start_def before_checkpoint_def filter_id_conv)
    then show ?thesis using None none same by (simp add: history_def)
  next
    case (Some p)
    then obtain x where x: "x \<in> set xs" "fst x = p" using last_ckpt_Some by (fastforce simp: ckpt_at_def)
    then have "from_start (Some p) (pb # xs) = from_start (Some p) xs"
      using before by (force simp: from_start_def before_checkpoint_def)
    moreover have "list_ex is_checkpoint (history N n xs)"
      using Some last_ckpt_None [of N n xs] by simp
    ultimately show ?thesis using IH Some by (simp add: history_def)
  qed
qed

section \<open>Replay of one node\<close>

lemma node_step_fold:
  "fold_result (node_step N n checkpoint) s xs =
     fold_result (apply_record_to_state N) s (history N n (from_start checkpoint xs))"
  by (induction xs arbitrary: s)
    (auto simp: node_step_def node_of_def record_of_def history_def from_start_def Let_def intro: rbind_cong)

lemma ckpt_step_fold:
  assumes "bt_wf m"
  shows "\<exists>m'. fold_result (ckpt_step N node_filter) m xs = Inr m' \<and> bt_wf m' \<and>
    (\<forall>n. bt_get m' n = (if in_filter node_filter n then
       case last_ckpt N n xs of Some p \<Rightarrow> Some p | None \<Rightarrow> bt_get m n else bt_get m n))"
  using assms
proof (induction xs arbitrary: m)
  case Nil
  then show ?case by simp
next
  case (Cons pb xs)
  let ?m = "if in_filter node_filter (node_of N pb) \<and> is_checkpoint (record_of N pb)
    then bt_insert (node_of N pb) (fst pb) m else m"
  have step: "ckpt_step N node_filter m pb = Inr ?m"
    by (simp add: ckpt_step_def node_of_def record_of_def Let_def)
  have "bt_wf ?m" using Cons.prems by (simp add: bt_wf_insert)
  from Cons.IH [OF this] obtain m' where m': "fold_result (ckpt_step N node_filter) ?m xs = Inr m'" "bt_wf m'"
    and get: "\<And>n. bt_get m' n = (if in_filter node_filter n then
       case last_ckpt N n xs of Some p \<Rightarrow> Some p | None \<Rightarrow> bt_get ?m n else bt_get ?m n)"
    by blast
  have "bt_get ?m n = (if in_filter node_filter n \<and> node_of N pb = n \<and> is_checkpoint (record_of N pb)
      then Some (fst pb) else bt_get m n)" for n
    by (auto simp: bt_get_insert)
  with m' get show ?case
    unfolding fold_result.simps step rbind.simps
    by (intro exI [of _ m']) (auto split: option.splits)
qed

definition hint_ok :: "('le, 'lg) noraft \<Rightarrow> Disk \<Rightarrow> NodeId \<Rightarrow> RecordPosition option \<Rightarrow> bool" where
  "hint_ok N d n hint \<longleftrightarrow> (\<forall>p. hint = Some p \<longrightarrow> ckpt_at N n (dir_records d) p)"

lemma hint_start_ok: "hint_ok N d n hint \<Longrightarrow> start_ok d hint"
  by (auto simp: hint_ok_def start_ok_def ckpt_at_def)

lemma last_ckpt_hint:
  assumes "crash_ok d" and "hint_ok N d n hint"
  shows "last_ckpt N n (from_start hint (dir_records d)) = last_ckpt N n (dir_records d)"
proof (cases hint)
  case (Some p)
  then obtain q where "last_ckpt N n (dir_records d) = Some q" "p \<le> q"
    using assms last_ckpt_ge [OF sorted_dir_records [OF assms(1)], of N n p] by (auto simp: hint_ok_def)
  then show ?thesis
    using last_ckpt_from_start [of N n "dir_records d" q hint] by (simp add: Some before_checkpoint_def not_less)
qed simp

lemma quiet_replay_node_state:
  assumes "readable d recover_partial" and "decodable N d" and "hint_ok N d n hint"
  shows "quiet d (replay_node_state N active n hint recover_partial) (node_result N d n)"
proof -
  let ?xs = "dir_records d" and ?c = "last_ckpt N n (dir_records d)"
  have ok: "crash_ok d" "disk_ok d" using assms(1) by (auto simp: readable_def crash_ok_def)
  note names = seg_names(1) [OF ok(2)]
  let ?active = "replay_active d active recover_partial"
  obtain m where m: "fold_result (ckpt_step N (Some [n])) [] (from_start hint ?xs) = Inr m" and get: "bt_get m n = ?c"
  proof -
    obtain m where m: "fold_result (ckpt_step N (Some [n])) [] (from_start hint ?xs) = Inr m"
      and "\<forall>k. bt_get m k = (if in_filter (Some [n]) k then
        case last_ckpt N k (from_start hint ?xs) of Some p \<Rightarrow> Some p | None \<Rightarrow> bt_get [] k else bt_get [] k)"
      using ckpt_step_fold [of "[]" N "Some [n]" "from_start hint ?xs"] by auto
    then have "bt_get m n = ?c"
      by (simp add: in_filter_def last_ckpt_hint [OF ok(1) assms(3)] split: option.split)
    with m show thesis by (rule that)
  qed
  let ?replay = "\<lambda>segment state.
      if (case ?c of Some c \<Rightarrow> sp_name segment < rp_segment c | None \<Rightarrow> False) then sret state
      else replay_node_segment N segment (sp_name segment = ?active) n ?c recover_partial state"
  have "quiet d (?replay (seg_path k) s) (fold_result (node_step N n ?c) s (seg_records d k))"
    if k: "k \<in> set (seg_names d)" and c: "seg d k = Some c" for k c s
  proof (cases "case ?c of Some c \<Rightarrow> k < rp_segment c | None \<Rightarrow> False")
    case True
    then obtain p where "?c = Some p" "k < rp_segment p" by (auto split: option.splits)
    then show ?thesis by (simp add: node_step_fold from_start_low history_def quiet_basic)
  next
    case False
    then show ?thesis by (simp only: seg_path_sel if_False quiet_replay_node_segment [OF readable_seg [OF assms(1) k] assms(2) c])
  qed
  then have "quiet d (sfold ?replay (map seg_path (seg_names d)) (NodeState_default N))
      (fold_result (node_step N n ?c) (NodeState_default N) ?xs)"
    unfolding dir_records_def by (intro quiet_segments [OF ok(1), where h = "\<lambda>x. x"])
  then have replay: "quiet d (sfold ?replay (map seg_path (seg_names d)) (NodeState_default N)) (node_result N d n)"
    by (simp add: node_result_def state_of_def node_step_fold history_since_checkpoint [OF sorted_dir_records [OF ok(1)]])
  show ?thesis
    unfolding replay_node_state_def
    by (rule quiet_bind_Inr [OF quiet_find_checkpoint_positions_from [OF assms(1,2) hint_start_ok [OF assms(3)],
            where node_filter = "Some [n]", unfolded m]])
      (simp only: get Let_def, rule quiet_sget_disk [where h = discover_segment_paths], simp only: names replay)
qed

section \<open>Replay of all nodes\<close>

definition state_in :: "('le, 'lg) noraft \<Rightarrow> 'lg ReplayState \<Rightarrow> NodeId \<Rightarrow> 'lg NodeState" where
  "state_in N replay n = (case bt_get replay n of Some s \<Rightarrow> s | None \<Rightarrow> NodeState_default N)"

lemma ReplayState_apply_state_in:
  "ReplayState_apply N replay nr =
     rbind (apply_record_to_state N (state_in N replay (nr_node_id nr)) (nr_record nr)) (\<lambda>s.
       Inr (bt_insert (nr_node_id nr) s replay))"
  by (simp add: ReplayState_apply_def state_in_def Let_def)

lemma state_in_insert: "state_in N (bt_insert k s replay) n = (if n = k then s else state_in N replay n)"
  by (simp add: state_in_def bt_get_insert)

text \<open>The record that a step of \<^verbatim>\<open>replay_segment\<close> applies, if it applies one.\<close>

definition applies :: "('le, 'lg) noraft \<Rightarrow> NodeId btset option \<Rightarrow> (NodeId, RecordPosition) btmap \<Rightarrow> placed \<Rightarrow> bool" where
  "applies N node_filter positions pb \<longleftrightarrow>
     in_filter node_filter (node_of N pb) \<and> \<not> before_checkpoint (bt_get positions (node_of N pb)) (fst pb)"

lemma all_step_eq:
  "all_step N node_filter positions replay pb =
     (if applies N node_filter positions pb
      then rbind (apply_record_to_state N (state_in N replay (node_of N pb)) (record_of N pb)) (\<lambda>s.
        Inr (bt_insert (node_of N pb) s replay))
      else Inr replay)"
  by (simp add: all_step_def applies_def node_of_def record_of_def ReplayState_apply_state_in Let_def)

definition pending :: "('le, 'lg) noraft \<Rightarrow> (NodeId, RecordPosition) btmap \<Rightarrow> NodeId \<Rightarrow> placed list \<Rightarrow> 'le Record list" where
  "pending N positions n xs = history N n (from_start (bt_get positions n) xs)"

lemma pending_Cons:
  assumes "in_filter node_filter n"
  shows "pending N positions n (pb # xs) =
    (if node_of N pb = n \<and> applies N node_filter positions pb
     then record_of N pb # pending N positions n xs else pending N positions n xs)"
  using assms by (auto simp: pending_def history_def from_start_def applies_def)

lemma all_step_sound:
  assumes "fold_result (all_step N node_filter positions) m xs = Inr m'" and n: "in_filter node_filter n"
  shows "fold_result (apply_record_to_state N) (state_in N m n) (pending N positions n xs) = Inr (state_in N m' n)"
  using assms(1)
proof (induction xs arbitrary: m)
  case Nil
  then show ?case by (simp add: pending_def history_def from_start_def)
next
  case (Cons pb xs)
  obtain m1 where step: "all_step N node_filter positions m pb = Inr m1"
    and rest: "fold_result (all_step N node_filter positions) m1 xs = Inr m'"
    using Cons.prems by (auto simp: result_simps)
  note IH = Cons.IH [OF rest]
  show ?case
  proof (cases "applies N node_filter positions pb")
    case True
    then obtain s where "apply_record_to_state N (state_in N m (node_of N pb)) (record_of N pb) = Inr s"
      "m1 = bt_insert (node_of N pb) s m"
      using step by (auto simp: all_step_eq result_simps)
    then show ?thesis
      using IH True by (auto simp: pending_Cons [OF n] state_in_insert)
  next
    case False
    then show ?thesis using IH step by (simp add: pending_Cons [OF n] all_step_eq)
  qed
qed

lemma all_step_complete:
  assumes "\<And>n. in_filter node_filter n \<Longrightarrow>
    \<exists>s. fold_result (apply_record_to_state N) (state_in N m n) (pending N positions n xs) = Inr s"
  shows "\<exists>m'. fold_result (all_step N node_filter positions) m xs = Inr m'"
  using assms
proof (induction xs arbitrary: m)
  case Nil
  then show ?case by simp
next
  case (Cons pb xs)
  show ?case
  proof (cases "applies N node_filter positions pb")
    case True
    let ?k = "node_of N pb"
    have k: "in_filter node_filter ?k" using True by (simp add: applies_def)
    obtain s where s: "apply_record_to_state N (state_in N m ?k) (record_of N pb) = Inr s"
      using Cons.prems [OF k] True by (auto simp: pending_Cons [OF k] result_simps)
    have "\<exists>s'. fold_result (apply_record_to_state N) (state_in N (bt_insert ?k s m) n) (pending N positions n xs) = Inr s'"
      if n: "in_filter node_filter n" for n
      using Cons.prems [OF n] True s by (auto simp: pending_Cons [OF n] state_in_insert split: if_splits)
    from Cons.IH [OF this] show ?thesis
      using True s by (simp add: all_step_eq)
  next
    case False
    have "\<exists>s'. fold_result (apply_record_to_state N) (state_in N m n) (pending N positions n xs) = Inr s'"
      if n: "in_filter node_filter n" for n
      using Cons.prems [OF n] False by (simp add: pending_Cons [OF n])
    from Cons.IH [OF this] show ?thesis
      using False by (simp add: all_step_eq)
  qed
qed

definition hints_ok :: "('le, 'lg) noraft \<Rightarrow> Disk \<Rightarrow> NodeId btset \<Rightarrow> (NodeId, RecordPosition) btmap option \<Rightarrow> bool" where
  "hints_ok N d ids hints \<longleftrightarrow> (\<forall>h. hints = Some h \<longrightarrow> h \<noteq> [] \<and> bt_wf h \<and>
     (\<forall>n \<in> set ids. \<exists>p. bt_get h n = Some p) \<and> (\<forall>(n, p) \<in> set h. ckpt_at N n (dir_records d) p))"

text \<open>The positions replay starts from, and a segment before which no node of interest has records left to apply.\<close>

definition positions_ok ::
  "('le, 'lg) noraft \<Rightarrow> Disk \<Rightarrow> NodeId btset \<Rightarrow> (NodeId, RecordPosition) btmap \<times> SegmentName option \<Rightarrow> bool" where
  "positions_ok N d ids = (\<lambda>(positions, start).
     (\<forall>n \<in> set ids. bt_get positions n = last_ckpt N n (dir_records d)) \<and>
     (\<forall>k. start = Some k \<longrightarrow> (\<forall>n \<in> set ids. \<exists>p. last_ckpt N n (dir_records d) = Some p \<and> k \<le> rp_segment p)))"

text \<open>With hints for all nodes, the records from the oldest hint on contain every newest checkpoint.\<close>

lemma hinted_positions:
  assumes sorted: "crash_ok d" and hints: "hints_ok N d ids (Some h)" and start: "start = Min (snd ` set h)" and n: "n \<in> set ids"
  obtains q where "last_ckpt N n (dir_records d) = Some q" and "start \<le> q" and "last_ckpt N n (from_start (Some start) (dir_records d)) = Some q"
proof -
  obtain p where p: "(n, p) \<in> set h" "ckpt_at N n (dir_records d) p"
    using hints n by (fastforce simp: hints_ok_def dest: map_of_SomeD)
  then obtain q where q: "last_ckpt N n (dir_records d) = Some q" "p \<le> q"
    using last_ckpt_ge [OF sorted_dir_records [OF sorted], of N n p] by auto
  have "start \<le> p" using p(1) unfolding start by (intro Min_le) (auto intro: rev_image_eqI)
  then have le: "start \<le> q" using q(2) by simp
  have "last_ckpt N n (from_start (Some start) (dir_records d)) = Some q"
    using q(1) le by (intro last_ckpt_from_start) (simp_all add: before_checkpoint_def not_less)
  then show thesis using that q(1) le by simp
qed

lemma hints_start_ok: "hints_ok N d ids (Some h) \<Longrightarrow> start_ok d (Some (Min (snd ` set h)))"
proof -
  assume hints: "hints_ok N d ids (Some h)"
  then have "Min (snd ` set h) \<in> snd ` set h" by (intro Min_in) (auto simp: hints_ok_def)
  then show ?thesis using hints by (fastforce simp: hints_ok_def start_ok_def ckpt_at_def)
qed

lemma quiet_checkpoint_positions_for_replay:
  assumes "readable d recover_partial" and "decodable N d" and "hints_ok N d ids hints"
  shows "\<exists>r. positions_ok N d ids r \<and>
    quiet d (checkpoint_positions_for_replay N active (Some ids) hints recover_partial) (Inr r)"
proof (cases hints)
  case None
  obtain m where m: "fold_result (ckpt_step N (Some ids)) [] (from_start None (dir_records d)) = Inr m"
    and get: "\<forall>n. bt_get m n = (if in_filter (Some ids) n then
      case last_ckpt N n (from_start None (dir_records d)) of Some p \<Rightarrow> Some p | None \<Rightarrow> bt_get [] n else bt_get [] n)"
    using ckpt_step_fold [of "[]" N "Some ids" "from_start None (dir_records d)"] by auto
  have "quiet d (find_checkpoint_positions N active (Some ids) recover_partial) (Inr m)"
    unfolding find_checkpoint_positions_def m [symmetric]
    by (rule quiet_find_checkpoint_positions_from [OF assms(1,2)]) (simp add: start_ok_def)
  then have "quiet d (checkpoint_positions_for_replay N active (Some ids) hints recover_partial) (Inr (m, None))"
    unfolding checkpoint_positions_for_replay_def None option.case
    by (rule quiet_bind_Inr) (rule quiet_basic)
  moreover have "positions_ok N d ids (m, None)"
    using get by (auto simp: positions_ok_def in_filter_def split: option.splits)
  ultimately show ?thesis by blast
next
  case (Some h)
  let ?start = "Min (snd ` set h)" and ?xs = "dir_records d"
  have hints: "hints_ok N d ids (Some h)" and h: "h \<noteq> []" using assms(3) Some by (auto simp: hints_ok_def)
  note hinted = hinted_positions [OF readable_crash_ok [OF assms(1)] hints refl]
  obtain m where m: "fold_result (ckpt_step N (Some ids)) [] (from_start (Some ?start) ?xs) = Inr m" and wf: "bt_wf m"
    and get: "\<forall>n. bt_get m n = (if in_filter (Some ids) n then
      case last_ckpt N n (from_start (Some ?start) ?xs) of Some p \<Rightarrow> Some p | None \<Rightarrow> bt_get [] n else bt_get [] n)"
    using ckpt_step_fold [of "[]" N "Some ids" "from_start (Some ?start) ?xs"] by auto
  have get_m: "bt_get (bt_extend h m) n = last_ckpt N n ?xs \<and> (\<exists>q. last_ckpt N n ?xs = Some q \<and> ?start \<le> q)" if n: "n \<in> set ids" for n
    by (rule hinted [OF n]) (use get n wf in \<open>simp add: in_filter_def bt_get_extend map_add_def\<close>)
  have "quiet d (find_checkpoint_positions_from N active (Some ids) (Some ?start) recover_partial) (Inr m)"
    unfolding m [symmetric] by (rule quiet_find_checkpoint_positions_from [OF assms(1,2) hints_start_ok [OF hints]])
  then have "quiet d (checkpoint_positions_for_replay N active (Some ids) hints recover_partial)
      (Inr (bt_extend h m, Some (rp_segment ?start)))"
    using h unfolding checkpoint_positions_for_replay_def Some option.case Let_def
    by (simp only: if_False) (rule quiet_bind_Inr, assumption, rule quiet_basic)
  moreover have "positions_ok N d ids (bt_extend h m, Some (rp_segment ?start))"
    using get_m by (fastforce simp: positions_ok_def less_eq_RecordPosition_def)
  ultimately show ?thesis by blast
qed

lemma applies_high:
  assumes "positions_ok N d ids (positions, Some k)" and "n < k" and "pb \<in> set (seg_records d n)"
  shows "\<not> applies N (Some ids) positions pb"
proof
  assume app: "applies N (Some ids) positions pb"
  then have id: "node_of N pb \<in> set ids" by (simp add: applies_def in_filter_def)
  then obtain p where p: "last_ckpt N (node_of N pb) (dir_records d) = Some p" "k \<le> rp_segment p"
    "bt_get positions (node_of N pb) = Some p"
    using assms(1) by (auto simp: positions_ok_def)
  have "rp_segment (fst pb) = n" using assms(3) seg_records_segment [of "fst pb" "snd pb"] by simp
  then have "rp_segment (fst pb) < rp_segment p" using less_le_trans [OF assms(2) p(2)] by simp
  then have "fst pb < p" by (simp add: less_RecordPosition_def)
  then show False using app p(3) by (simp add: applies_def before_checkpoint_def)
qed

lemma fold_result_skip: "(\<And>x acc. x \<in> set xs \<Longrightarrow> g acc x = Inr acc) \<Longrightarrow> fold_result g acc xs = Inr acc"
  by (induction xs) auto

lemma quiet_replay_storage_dir:
  fixes N :: "('le, 'lg) noraft"
  assumes "readable d recover_partial" and "decodable N d" and "hints_ok N d ids hints"
  shows "\<exists>r. quiet d (replay_storage_dir N active (Some ids) hints recover_partial ::
      ('x io_state_scheme, 'lg ReplayState) io) r \<and>
    (\<forall>m. r = Inr m \<longrightarrow> (\<forall>n \<in> set ids. node_result N d n = Inr (state_in N m n))) \<and>
    ((\<forall>n \<in> set ids. \<exists>s. node_result N d n = Inr s) \<longrightarrow> (\<exists>m. r = Inr m))"
proof -
  let ?xs = "dir_records d"
  have ok: "crash_ok d" "disk_ok d" using assms(1) by (auto simp: readable_def crash_ok_def)
  note names = seg_names(1) [OF ok(2)]
  let ?active = "replay_active d active recover_partial"
  obtain positions start where pos_ok: "positions_ok N d ids (positions, start)"
    and q: "quiet d (checkpoint_positions_for_replay N active (Some ids) hints recover_partial ::
      ('x io_state_scheme, _) io) (Inr (positions, start))"
    using quiet_checkpoint_positions_for_replay [OF assms] by (metis surj_pair)
  let ?r = "fold_result (all_step N (Some ids) positions) [] ?xs"
  let ?replay = "\<lambda>segment replay.
      if (case start of Some k \<Rightarrow> sp_name segment < k | None \<Rightarrow> False) then sret replay
      else replay_segment N segment (sp_name segment = ?active) (Some ids) positions recover_partial replay"
  have "quiet d (?replay (seg_path k) m) (fold_result (all_step N (Some ids) positions) m (seg_records d k))"
    if k: "k \<in> set (seg_names d)" and c: "seg d k = Some c" for k c m
  proof (cases "case start of Some j \<Rightarrow> k < j | None \<Rightarrow> False")
    case True
    then obtain j where j: "start = Some j" "k < j" by (auto split: option.splits)
    have "fold_result (all_step N (Some ids) positions) m (seg_records d k) = Inr m"
      using applies_high [OF pos_ok [unfolded j(1)] j(2)] by (intro fold_result_skip) (simp add: all_step_eq)
    then show ?thesis using j by (simp add: quiet_basic)
  next
    case False
    then show ?thesis by (simp only: seg_path_sel if_False quiet_replay_segment [OF readable_seg [OF assms(1) k] assms(2) c])
  qed
  then have replay: "quiet d (sfold ?replay (map seg_path (seg_names d)) []) ?r"
    unfolding dir_records_def by (intro quiet_segments [OF ok(1), where h = "\<lambda>x. x"])
  have "quiet d (replay_storage_dir N active (Some ids) hints recover_partial ::
      ('x io_state_scheme, 'lg ReplayState) io) ?r"
    unfolding replay_storage_dir_def
    by (rule quiet_bind_Inr [OF q])
      (simp only: case_prod_conv Let_def, rule quiet_sget_disk [where h = discover_segment_paths], simp only: names replay)
  moreover have res: "fold_result (apply_record_to_state N) (state_in N [] n) (pending N positions n ?xs) = node_result N d n"
    if "n \<in> set ids" for n
    using pos_ok that history_since_checkpoint [OF sorted_dir_records [OF ok(1)], of N n]
    by (simp add: positions_ok_def pending_def node_result_def state_of_def state_in_def)
  have "node_result N d n = Inr (state_in N m n)" if "?r = Inr m" "n \<in> set ids" for m n
    using all_step_sound [OF that(1), of n] res [OF that(2)] that(2) by (simp add: in_filter_def)
  moreover have "\<exists>m. ?r = Inr m" if "\<forall>n \<in> set ids. \<exists>s. node_result N d n = Inr s"
    using that res by (intro all_step_complete) (auto simp: in_filter_def)
  ultimately show ?thesis by (intro exI [of _ ?r]) auto
qed

lemma collect_states_fold:
  assumes "distinct ids"
  shows "bt_wf acc \<Longrightarrow> \<exists>acc'. fst (foldl (\<lambda>(acc, replay) n.
        (bt_insert n (case bt_get replay n of Some s \<Rightarrow> s | None \<Rightarrow> NodeState_default N) acc, bt_remove n replay))
       (acc, replay) ids) = acc' \<and> bt_wf acc' \<and>
     (\<forall>k. bt_get acc' k = (if k \<in> set ids then Some (state_in N replay k) else bt_get acc k))"
  using assms
proof (induction ids arbitrary: acc replay)
  case Nil
  then show ?case by simp
next
  case (Cons n ids)
  have other: "state_in N (bt_remove n replay) k = state_in N replay k" if "k \<in> set ids" for k
    using Cons.prems(2) that by (auto simp: state_in_def bt_get_remove)
  show ?case
    using Cons.IH [of "bt_insert n (state_in N replay n) acc" "bt_remove n replay"] Cons.prems other
    by (auto simp: btree_simps state_in_def)
qed

lemma collect_states_get:
  assumes "distinct ids"
  shows "bt_wf (collect_states N replay ids)"
    and "bt_get (collect_states N replay ids) k = (if k \<in> set ids then Some (state_in N replay k) else None)"
  using collect_states_fold [OF assms, of "[]" N replay] by (auto simp: collect_states_def)

end
