(* ===== verification/Effects.thy ===== *)
theory Effects
  imports Segment_View Engine
begin

text \<open>
  What the storage operations can do to the directory, whether they succeed or fail at any system
  call: the files they touch, and the bytes that a write that was cut short leaves behind.
\<close>

section \<open>Computations that move the directory along a preorder\<close>

definition obeys :: "(Disk \<Rightarrow> Disk \<Rightarrow> bool) \<Rightarrow> ('x io_state_scheme, 'a) io \<Rightarrow> bool" where
  "obeys R m \<longleftrightarrow> (\<forall>s. R (st_disk s) (st_disk (snd (m s))))"

lemma obeysD: "obeys R m \<Longrightarrow> m s = (r, s') \<Longrightarrow> R (st_disk s) (st_disk s')"
  by (auto simp: obeys_def dest: spec [of _ s])

locale disk_preorder =
  fixes R :: "Disk \<Rightarrow> Disk \<Rightarrow> bool"
  assumes refl: "R d d" and trans: "R d e \<Longrightarrow> R e f \<Longrightarrow> R d f"
begin

lemma pure:
  "obeys R (sret x)" "obeys R (serr e)" "obeys R (slift r)" "obeys R (sget h)"
  "obeys R (count_metric g)"
  by (simp_all add: obeys_def io_defs count_metric_def refl)

lemma bind:
  assumes "obeys R m" and "\<And>x. obeys R (f x)"
  shows "obeys R (sbind m f)"
  unfolding obeys_def
proof
  fix s
  obtain r s1 where m: "m s = (r, s1)" by fastforce
  have "R (st_disk s) (st_disk s1)" using obeysD [OF assms(1) m] .
  moreover have "R (st_disk s1) (st_disk (snd (f x s1)))" for x
    using assms(2) by (simp add: obeys_def)
  ultimately show "R (st_disk s) (st_disk (snd (sbind m f s)))"
    using m trans by (cases r) (auto simp: sbind_def)
qed

lemma loop: "(\<And>v acc. v \<in> set vs \<Longrightarrow> obeys R (f v acc)) \<Longrightarrow> obeys R (sfold f vs acc)"
  by (induction vs arbitrary: acc) (auto intro: pure bind)

lemma update: "(\<And>d. R d (g d)) \<Longrightarrow> obeys R (smodify (on_disk g))"
  by (simp add: obeys_def io_defs)

lemma writer_update: "obeys R (on_writer g)"
  by (simp add: obeys_def on_writer_def io_defs refl)

lemma conditional: "(b \<Longrightarrow> obeys R m) \<Longrightarrow> (\<not> b \<Longrightarrow> obeys R n) \<Longrightarrow> obeys R (if b then m else n)"
  by simp

end

section \<open>Touched files\<close>

text \<open>
  Only the entries of \<open>X\<close> may differ, no entry becomes anything but a regular file, and the
  directory and its lock stay as they are.
\<close>

definition touch :: "string set \<Rightarrow> Disk \<Rightarrow> Disk \<Rightarrow> bool" where
  "touch X d d' \<longleftrightarrow> d_dir d' = d_dir d \<and> d_locked d' = d_locked d \<and>
     (distinct (map fst (d_files d)) \<longrightarrow> distinct (map fst (d_files d'))) \<and>
     (\<forall>k. k \<notin> X \<longrightarrow> disk_get d' k = disk_get d k) \<and>
     (\<forall>k. disk_get d' k = Some OtherEntry \<longrightarrow> disk_get d k = Some OtherEntry)"

interpretation touching: disk_preorder "touch X" for X
  by unfold_locales (auto simp: touch_def)

lemma disk_put_sel [simp]:
  "d_dir (disk_put name e d) = d_dir d" "d_locked (disk_put name e d) = d_locked d"
  "d_files (disk_put name e d) = dir_set name e (d_files d)" "d_faults (disk_put name e d) = d_faults d"
  by (simp_all add: disk_put_def)

lemma touch_put: "name \<in> X \<Longrightarrow> touch X d (disk_put name (RegularFile f) d)"
  by (auto simp: touch_def)

lemma touch_simple:
  "touch X d (d\<lparr>d_faults := fs\<rparr>)" "name \<in> X \<Longrightarrow> touch X d (d\<lparr>d_files := dir_del name (d_files d)\<rparr>)"
  by (auto simp: touch_def)

lemma touch_content:
  assumes "name \<in> X"
  shows "touch X d (set_content name bs d)" and "touch X d (append_content name bs d)" and "touch X d (mark_durable name d)"
proof -
  show content: "touch X d (set_content name bs d)" for bs
    using touch_put [OF assms] by (auto simp: set_content_def touching.refl split: option.split)
  show "touch X d (append_content name bs d)"
    using content by (auto simp: append_content_def touching.refl split: option.split)
  show "touch X d (mark_durable name d)"
    using touch_put [OF assms] by (auto simp: mark_durable_def touching.refl split: option.split)
qed

lemma touch_mono: "touch X d d' \<Longrightarrow> X \<subseteq> Y \<Longrightarrow> touch Y d d'"
  by (auto simp: touch_def)

lemma touch_disk_ok: "touch X d d' \<Longrightarrow> disk_ok d \<Longrightarrow> disk_ok d'"
  by (simp add: touch_def disk_ok_def)

lemma touch_content_at: "touch X d d' \<Longrightarrow> k \<notin> X \<Longrightarrow> content_at d' k = content_at d k"
  by (simp add: touch_def content_at_def file_at_def)

lemma touch_next_fault: "obeys (touch X) next_fault"
  unfolding obeys_def next_fault_def
  by (auto simp: touching.refl touch_simple split: list.split)

lemma touch_syscall: "obeys (touch X) act \<Longrightarrow> obeys (touch X) (syscall act)"
  unfolding syscall_def
  by (intro touching.bind touch_next_fault) (auto intro: touching.pure split: option.split)

lemma touch_sys:
  assumes "name \<in> X"
  shows "obeys (touch X) (sys_write_all name bs)" and "obeys (touch X) (sys_sync name)"
    and "obeys (touch X) (sys_set_len name n)" and "obeys (touch X) (sys_open_create name)"
    and "obeys (touch X) (sys_create_new name)" and "obeys (touch X) (sys_create_truncate name)"
    and "obeys (touch X) (sys_remove_file name)"
proof -
  note intros = touching.bind touching.pure touching.update touching.conditional touch_syscall touch_next_fault
    touch_content [OF assms] touch_put [OF assms] touch_simple(2) [OF assms] touching.refl
  show "obeys (touch X) (sys_write_all name bs)"
    unfolding sys_write_all_def Let_def by (auto intro!: intros split: option.split)
  show "obeys (touch X) (sys_sync name)"
    unfolding sys_sync_def by (intro intros)
  show "obeys (touch X) (sys_set_len name n)"
    unfolding sys_set_len_def by (auto intro!: intros split: option.split)
  show "obeys (touch X) (sys_open_create name)" "obeys (touch X) (sys_create_new name)"
    "obeys (touch X) (sys_create_truncate name)" "obeys (touch X) (sys_remove_file name)"
    unfolding sys_open_create_def sys_create_new_def sys_create_truncate_def sys_remove_file_def empty_file_def
    by (auto intro!: intros split: option.split dirent.split)
qed

lemma touch_sync_dir: "obeys (touch X) sys_sync_dir"
  unfolding sys_sync_dir_def by (intro touch_syscall touching.pure)


lemma sbind_cases:
  assumes "sbind m f s = (r, s')"
  obtains e where "m s = (Inl e, s')" and "r = Inl e"
  | x s1 where "m s = (Inr x, s1)" and "f x s1 = (r, s')"
  using assms by (auto simp: sbind_def split: prod.splits sum.splits)

lemma syscall_any:
  assumes "syscall act s = (r, s')"
  obtains fs where "r = Inl os_error" and "s' = set_faults fs s" | fs where "act (set_faults fs s) = (r, s')"
  using next_fault_ok [of s] assms
  by (auto simp: syscall_def serr_def split: option.splits)

text \<open>A write is cut short after some of its bytes.\<close>

lemma sys_write_all_any:
  assumes "sys_write_all name bs s = (r, s')" and "content_at (st_disk s) name = Some c" and "length c \<le> MAX_FILE_LEN"
  obtains fs k where "s' = on_disk (append_content name (take k bs)) (set_faults fs s)"
    and "length c + length (take k bs) \<le> MAX_FILE_LEN" and "r = Inr () \<Longrightarrow> take k bs = bs"
proof -
  obtain fs x where f: "next_fault s = (Inr x, set_faults fs s)" using next_fault_ok by blast
  show thesis
  proof (cases x)
    case None
    then show thesis
      using assms f that [of "MAX_FILE_LEN - length c" fs] that [of "length bs" fs]
      by (auto simp: sys_write_all_def smodify_def serr_def Let_def split: if_splits)
  next
    case (Some k)
    then show thesis
      using assms f that [of "min k (MAX_FILE_LEN - length c)" fs]
      by (auto simp: sys_write_all_def serr_def Let_def)
  qed
qed

section \<open>Replacing a metadata file\<close>

definition write_tmp_file :: "string \<Rightarrow> bytes \<Rightarrow> ('x io_state_scheme, unit) io" where
  "write_tmp_file tmp bs = sbind (sys_create_truncate tmp) (\<lambda>_. sbind (sys_write_all tmp bs) (\<lambda>_. sys_sync tmp))"

lemma replace_file_split:
  "replace_file path tmp text = sbind (write_tmp_file tmp (text_bytes text)) (\<lambda>_. sbind (sys_rename tmp path) (\<lambda>_. sys_sync_dir))"
  by (rule ext) (auto simp: replace_file_def write_tmp_file_def sbind_def split: prod.splits sum.splits)

lemma write_tmp_file_touch: "obeys (touch {tmp}) (write_tmp_file tmp bs)"
  unfolding write_tmp_file_def by (intro touching.bind touch_sys) simp_all

lemma write_tmp_file_ok:
  assumes "write_tmp_file tmp bs s = (Inr (), s')"
  obtains f where "disk_get (st_disk s') tmp = Some (RegularFile f)" and "f_content f = bs"
    and "io_state.more s' = io_state.more s" and "st_metrics s' = st_metrics s"
proof -
  obtain s1 s2 where steps: "sys_create_truncate tmp s = (Inr (), s1)" "sys_write_all tmp bs s1 = (Inr (), s2)"
    "sys_sync tmp s2 = (Inr (), s')"
    using assms by (auto simp: write_tmp_file_def result_simps)
  obtain fs1 where s1: "s1 = on_disk (disk_put tmp empty_file) (set_faults fs1 s)"
    using sys_create_truncate_ok [OF steps(1)] by blast
  have c1: "content_at (st_disk s1) tmp = Some []" by (simp add: s1 content_at_put empty_file_def)
  obtain fs2 where s2: "s2 = on_disk (append_content tmp bs) (set_faults fs2 s1)"
    using sys_write_all_ok(1) [OF steps(2) c1] by blast
  have c2: "content_at (st_disk s2) tmp = Some bs"
    using append_content_effect(1) [of "(st_disk s1)\<lparr>d_faults := fs2\<rparr>" tmp "[]"] c1 by (simp add: s2)
  obtain fs3 where s3: "s' = on_disk (mark_durable tmp) (set_faults fs3 s2)" using sys_sync_ok [OF steps(3)] by blast
  have "content_at (st_disk s') tmp = Some bs" using c2 by (simp add: s3 mark_durable_effect)
  then obtain f where "disk_get (st_disk s') tmp = Some (RegularFile f)" "f_content f = bs"
    by (auto simp: content_at_def file_at_def split: option.splits dirent.splits)
  then show thesis using that by (simp add: s3 s2 s1)
qed

text \<open>Whatever fails, the file has its old entry or the whole new text.\<close>

lemma replace_file_effect:
  assumes "path \<noteq> tmp" and "replace_file path tmp text s = (r, s')"
  shows "touch {path, tmp} (st_disk s) (st_disk s') \<and>
    (content_at (st_disk s') path = Some (text_bytes text) \<or>
      r \<noteq> Inr () \<and> disk_get (st_disk s') path = disk_get (st_disk s) path) \<and>
    (r = Inr () \<longrightarrow> io_state.more s' = io_state.more s \<and> st_metrics s' = st_metrics s)"
    (is "?goal s'")
  using assms(2) unfolding replace_file_split
proof (cases rule: sbind_cases)
  case (1 e)
  then show ?thesis
    using touch_mono [OF obeysD [OF write_tmp_file_touch 1(1)], of "{path, tmp}"]
      obeysD [OF write_tmp_file_touch 1(1)] assms(1) by (auto simp: touch_def)
next
  case (2 x s1)
  have t1: "touch {tmp} (st_disk s) (st_disk s1)" using obeysD [OF write_tmp_file_touch 2(1)] .
  obtain f where f: "disk_get (st_disk s1) tmp = Some (RegularFile f)" "f_content f = text_bytes text"
      "io_state.more s1 = io_state.more s" "st_metrics s1 = st_metrics s"
    using write_tmp_file_ok [of tmp "text_bytes text" s s1] 2(1) by auto
  show ?thesis using 2(2)
  proof (cases rule: sbind_cases)
    case (1 e)
    from 1(1) have "\<exists>fs. s' = set_faults fs s1"
      unfolding sys_rename_def by (rule syscall_any) (auto simp: serr_def smodify_def f split: if_splits)
    then have "touch {tmp} (st_disk s) (st_disk s')" using touching.trans [OF t1] touch_simple(1) by auto
    with 1(2) show ?thesis
      using touch_mono [of "{tmp}" _ _ "{path, tmp}"] assms(1) by (auto simp: touch_def)
  next
    case (2 w s2)
    obtain fs where s2: "s2 = on_disk (\<lambda>d. disk_put path (RegularFile f) (d\<lparr>d_files := dir_del tmp (d_files d)\<rparr>)) (set_faults fs s1)"
      using sys_rename_ok [of tmp path s1 s2] 2(1) f(1) by (cases w) auto
    have "touch {path, tmp} (st_disk s1) (st_disk s2)"
      unfolding s2 on_disk_sel set_faults_sel
      by (rule touching.trans [OF touch_simple(1) touching.trans [OF touch_simple(2) touch_put]]) auto
    then have "touch {path, tmp} (st_disk s) (st_disk s')"
      using touching.trans obeysD [OF touch_sync_dir 2(2)] touch_mono [OF t1, of "{path, tmp}"] by blast
    moreover have "content_at (st_disk s') path = Some (text_bytes text)"
      using touch_content_at [OF obeysD [OF touch_sync_dir [of "{}"] 2(2)]] f(2) by (simp add: s2 content_at_put)
    ultimately show ?thesis
      using sys_sync_dir_ok [of s2 s'] 2(2) f by (auto simp: s2)
  qed
qed

section \<open>Appending to the segments\<close>

abbreviation segment_files :: "string set" where
  "segment_files \<equiv> range SegmentName_file_name"

lemma touch_writer:
  "obeys (touch segment_files) sync_current_segment" "obeys (touch segment_files) SegmentWriter_sync"
  "obeys (touch segment_files) SegmentWriter_rotate" "obeys (touch segment_files) (SegmentWriter_append N n r)"
proof -
  note intros = touching.bind touching.pure touching.conditional touch_sys touch_sync_dir touching.writer_update rangeI
  show sync: "obeys (touch segment_files) sync_current_segment"
    unfolding sync_current_segment_def by (intro intros)
  show "obeys (touch segment_files) SegmentWriter_sync"
    unfolding SegmentWriter_sync_def by (intro intros sync)
  show rotate: "obeys (touch segment_files) SegmentWriter_rotate"
    unfolding SegmentWriter_rotate_def create_active_segment_file_def by (intro intros sync)
  show "obeys (touch segment_files) (SegmentWriter_append N n r)"
    unfolding SegmentWriter_append_def Let_def by (intro intros rotate)
qed


text \<open>Synchronising changes no content.\<close>

definition same_content :: "Disk \<Rightarrow> Disk \<Rightarrow> bool" where
  "same_content d d' \<longleftrightarrow> content_at d' = content_at d"

interpretation content: disk_preorder same_content
  by unfold_locales (simp_all add: same_content_def)

lemma same_content_syscall: "obeys same_content act \<Longrightarrow> obeys same_content (syscall act)"
proof -
  assume act: "obeys same_content act"
  have "obeys same_content next_fault"
    unfolding obeys_def next_fault_def by (auto simp: same_content_def split: list.split)
  then show ?thesis
    unfolding syscall_def by (intro content.bind) (auto intro: content.pure act split: option.split)
qed

lemma same_content_sys_sync: "obeys same_content (sys_sync name)"
  unfolding sys_sync_def
  by (intro same_content_syscall content.update) (simp add: same_content_def mark_durable_effect)

lemma same_content_sync_dir: "obeys same_content sys_sync_dir"
  unfolding sys_sync_dir_def by (intro same_content_syscall content.pure)

lemma same_content_sync: "obeys same_content sync_current_segment" "obeys same_content SegmentWriter_sync"
  unfolding SegmentWriter_sync_def sync_current_segment_def
  by (intro content.bind content.pure content.conditional same_content_sys_sync)+

lemma sys_create_new_any:
  assumes "sys_create_new name s = (r, s')"
  obtains fs e where "s' = set_faults fs s" and "r = Inl e"
  | fs where "disk_get (st_disk s) name = None" and "s' = on_disk (disk_put name empty_file) (set_faults fs s)"
proof -
  from assms have "(\<exists>fs e. s' = set_faults fs s \<and> r = Inl e) \<or>
      (\<exists>fs. disk_get (st_disk s) name = None \<and> s' = on_disk (disk_put name empty_file) (set_faults fs s))"
    unfolding sys_create_new_def
    by (rule syscall_any) (auto simp: serr_def smodify_def split: option.splits)
  then show thesis using that by blast
qed

lemma create_active_segment_file_any:
  assumes "create_active_segment_file name s = (r, s')"
  shows "content_at (st_disk s') = content_at (st_disk s) \<or>
    content_at (st_disk s) name = None \<and>
    (\<exists>k. content_at (st_disk s') = (content_at (st_disk s))(name \<mapsto> take k SEGMENT_FORMAT_MAGIC))"
  using assms unfolding create_active_segment_file_def
proof (cases rule: sbind_cases)
  case (1 e)
  from 1(1) show ?thesis
    by (cases rule: sys_create_new_any)
      (auto simp: content_at_put empty_file_def content_at_def file_at_def intro: exI [of _ 0])
next
  case (2 x s1)
  then obtain fs where new: "disk_get (st_disk s) name = None" "s1 = on_disk (disk_put name empty_file) (set_faults fs s)"
    using sys_create_new_ok [of name s s1] by auto
  have c1: "content_at (st_disk s1) = (content_at (st_disk s))(name \<mapsto> [])"
    by (simp add: new(2) content_at_put empty_file_def)
  obtain fs k where "s' = on_disk (append_content name (take k SEGMENT_FORMAT_MAGIC)) (set_faults fs s1)"
  proof (rule sys_write_all_any [OF 2(2)])
    show "content_at (st_disk s1) name = Some []" by (simp add: c1)
  qed simp_all
  then have "content_at (st_disk s') = (content_at (st_disk s))(name \<mapsto> take k SEGMENT_FORMAT_MAGIC)"
    using append_content_effect(1) [of "(st_disk s1)\<lparr>d_faults := fs\<rparr>" name "[]"] c1 by simp
  moreover have "content_at (st_disk s) name = None" using new(1) by (simp add: content_at_def file_at_def)
  ultimately show ?thesis by blast
qed

text \<open>What a rotation leaves: nothing new, or a next segment with a part of the header.\<close>

lemma SegmentWriter_rotate_any:
  fixes s :: "'x writer_state_scheme"
  assumes "SegmentWriter_rotate s = (r, s')"
  shows "content_at (st_disk s') = content_at (st_disk s) \<or>
    (\<exists>a k. sw_active_segment (st_writer s) < a \<and> content_at (st_disk s) (SegmentName_file_name a) = None \<and>
      content_at (st_disk s') = (content_at (st_disk s))(SegmentName_file_name a \<mapsto> take k SEGMENT_FORMAT_MAGIC))"
    (is "?goal s'")
  using assms unfolding SegmentWriter_rotate_def
proof (cases rule: sbind_cases)
  case (1 e)
  then show ?thesis using obeysD [OF same_content_sync(1) 1(1)] by (simp add: same_content_def)
next
  case (2 x s1)
  have sync: "content_at (st_disk s1) = content_at (st_disk s)" "st_writer s1 = st_writer s"
    using sync_current_segment_ok [of s s1] writer_more(1) 2(1) by auto
  show ?thesis
  proof (cases "SegmentName_next_append (sw_active_segment (st_writer s))")
    case (Inl e)
    then show ?thesis using 2(2) sync by (simp add: result_simps sbind_def io_defs)
  next
    case (Inr a)
    let ?after = "\<lambda>_ :: unit. sbind sys_sync_dir (\<lambda>_.
       sbind (on_writer (\<lambda>w. w\<lparr>sw_active_segment := a, sw_segment_len := of_nat SEGMENT_FILE_HEADER_LEN\<rparr>)) (\<lambda>_.
       count_metric (segment_rotated a (of_nat SEGMENT_FILE_HEADER_LEN)))) :: ('x writer_state_scheme, unit) io"
    have "sbind (create_active_segment_file (SegmentName_file_name a)) ?after s1 = (r, s')"
      using 2(2) Inr sync(2) by simp
    then obtain q s2 where q: "create_active_segment_file (SegmentName_file_name a) s1 = (q, s2)"
        and "content_at (st_disk s') = content_at (st_disk s2)"
    proof (cases rule: sbind_cases)
      case (2 y s2)
      have "obeys same_content (?after y)"
        by (intro content.bind content.pure content.writer_update same_content_sync_dir)
      from obeysD [OF this 2(2)] 2(1) that show thesis by (simp add: same_content_def)
    qed simp
    then show ?thesis
      using create_active_segment_file_any [OF q] next_append_ok(2) [OF Inr] sync(1) by auto
  qed
qed

text \<open>A write through the writer, after which only the state of the writer and counters change.\<close>

lemma write_active_any:
  assumes run: "sbind (sget st_writer) (\<lambda>w. sbind (sys_write_all (SegmentName_file_name (sw_active_segment w)) frame) (\<lambda>_. rest w)) s = (res, s')"
    and rest: "\<And>w t. st_disk (snd (rest w t)) = st_disk t"
    and c: "content_at (st_disk s) (SegmentName_file_name (sw_active_segment (st_writer s))) = Some base" and max: "length base \<le> MAX_FILE_LEN"
  obtains k where "content_at (st_disk s') =
      (content_at (st_disk s))(SegmentName_file_name (sw_active_segment (st_writer s)) \<mapsto> base @ take k frame)"
    and "length (base @ take k frame) \<le> MAX_FILE_LEN"
proof -
  let ?f = "SegmentName_file_name (sw_active_segment (st_writer s))"
  have "sbind (sys_write_all ?f frame) (\<lambda>_. rest (st_writer s)) s = (res, s')" using run by simp
  then obtain q s2 where q: "sys_write_all ?f frame s = (q, s2)" and s2: "st_disk s' = st_disk s2"
  proof (cases rule: sbind_cases)
    case (2 u s2)
    then show thesis using that rest [of "st_writer s" s2] by simp
  qed simp
  obtain fs k where k: "s2 = on_disk (append_content ?f (take k frame)) (set_faults fs s)"
    "length base + length (take k frame) \<le> MAX_FILE_LEN"
    using sys_write_all_any [OF q c max] by blast
  have "content_at (st_disk s') = (content_at (st_disk s))(?f \<mapsto> base @ take k frame)"
    using append_content_effect(1) [of "(st_disk s)\<lparr>d_faults := fs\<rparr>"] c by (simp add: s2 k(1))
  then show thesis using that k(2) by simp
qed

text \<open>
  What an append leaves, whether it succeeds or not: nothing new, a next segment with a part of the
  header, or a part of the frame behind the content of the active segment or of a next one.
\<close>

lemma SegmentWriter_append_any:
  assumes "SegmentWriter_append N n r s = (res, s')" and "writer_ok s"
    and "\<forall>c. seg (st_disk s) (sw_active_segment (st_writer s)) = Some c \<longrightarrow> length c \<le> MAX_FILE_LEN"
  obtains (same) "content_at (st_disk s') = content_at (st_disk s)"
  | (header) a k where "sw_active_segment (st_writer s) < a" and "seg (st_disk s) a = None"
      and "content_at (st_disk s') = (content_at (st_disk s))(SegmentName_file_name a \<mapsto> take k SEGMENT_FORMAT_MAGIC)"
  | (frame) a base frame k where "encode_record_frame N n r = Inr frame"
      and "a = sw_active_segment (st_writer s) \<and> seg (st_disk s) a = Some base \<or>
        sw_active_segment (st_writer s) < a \<and> seg (st_disk s) a = None \<and> base = SEGMENT_FORMAT_MAGIC"
      and "content_at (st_disk s') = (content_at (st_disk s))(SegmentName_file_name a \<mapsto> base @ take k frame)"
      and "length (base @ take k frame) \<le> MAX_FILE_LEN"
proof -
  consider (reject) "s' = s" | (go) frame wb where "encode_record_frame N n r = Inr frame" "u64_try_from (length frame) = Some wb"
    using assms(1) by (cases "encode_record_frame N n r"; cases "u64_try_from (length (projr (encode_record_frame N n r)))")
      (auto simp: SegmentWriter_append_def)
  then show thesis
  proof cases
    case reject
    then show thesis using same by simp
  next
    case (go frame wb)
    let ?rest = "\<lambda>w. sbind (slift (ok_or (checked_add (sw_segment_len w) wb) (invalid_data ''segment length overflow''))) (\<lambda>len.
       sbind (on_writer (\<lambda>w. w\<lparr>sw_segment_len := len\<rparr>)) (\<lambda>_.
       sbind (count_metric (record_written (metric_kind r) wb)) (\<lambda>_.
       sbind (count_metric (segment_written len)) (\<lambda>_.
       sret (RecordPosition (sw_active_segment w) (sw_segment_len w))))))"
    have "sbind (if should_rotate (st_writer s) wb then SegmentWriter_rotate else sret ()) (\<lambda>_. sbind (sget st_writer) (\<lambda>w.
        sbind (sys_write_all (SegmentName_file_name (sw_active_segment w)) frame) (\<lambda>_. ?rest w))) s = (res, s')"
      using assms(1) go by (simp add: SegmentWriter_append_def Let_def)
    then show thesis
    proof (cases rule: sbind_cases)
      case (1 e)
      then show thesis
        using SegmentWriter_rotate_any [of s "Inl e" s'] same header by (auto simp: sret_def seg_def split: if_splits)
    next
      case (2 x s1)
      let ?a = "sw_active_segment (st_writer s1)"
      obtain base where base: "seg (st_disk s1) ?a = Some base"
        and cases: "?a = sw_active_segment (st_writer s) \<and> seg (st_disk s) ?a = Some base \<or>
          sw_active_segment (st_writer s) < ?a \<and> seg (st_disk s) ?a = None \<and> base = SEGMENT_FORMAT_MAGIC"
        and content1: "content_at (st_disk s1) = (content_at (st_disk s))(SegmentName_file_name ?a \<mapsto> base)"
        using active_after_rotation [of _ s s1] 2(1) assms(2) by (cases x) blast
      have c1: "content_at (st_disk s1) (SegmentName_file_name ?a) = Some base" using base by (simp add: seg_def)
      have max: "length base \<le> MAX_FILE_LEN"
        using cases assms(3) by (auto simp: SEGMENT_FILE_HEADER_LEN_def MAX_FILE_LEN_def)
      have "st_disk (snd (?rest w t)) = st_disk t" for w and t
        by (cases "checked_add (sw_segment_len w) wb") (auto simp: on_writer_def count_metric_def io_defs sbind_def)
      from write_active_any [OF 2(2) this c1 max] obtain k where
        "content_at (st_disk s') = (content_at (st_disk s1))(SegmentName_file_name ?a \<mapsto> base @ take k frame)"
        "length (base @ take k frame) \<le> MAX_FILE_LEN" .
      then show thesis using frame [OF go(1) cases, of k] content1 by simp
    qed
  qed
qed

section \<open>Garbage collection\<close>

text \<open>Only segments of \<open>D\<close> may have disappeared; nothing else changed.\<close>

definition removes :: "SegmentName set \<Rightarrow> Disk \<Rightarrow> Disk \<Rightarrow> bool" where
  "removes D d d' \<longleftrightarrow> touch segment_files d d' \<and> (\<forall>n. seg d' n = seg d n \<or> n \<in> D \<and> seg d' n = None)"

interpretation removing: disk_preorder "removes D" for D
proof
  show "removes D d d" for d by (simp add: removes_def touching.refl)
  show "removes D d f" if "removes D d e" "removes D e f" for d e f
    using that unfolding removes_def by (metis touching.trans)
qed

lemma sys_remove_file_any:
  assumes "sys_remove_file name s = (r, s')"
  obtains fs e where "s' = set_faults fs s" and "r = Inl e" and "kind_of e = NotFound \<Longrightarrow> disk_get (st_disk s) name = None"
  | fs where "s' = on_disk (\<lambda>d. d\<lparr>d_files := dir_del name (d_files d)\<rparr>) (set_faults fs s)" and "r = Inr ()"
proof -
  from assms have "(\<exists>fs e. s' = set_faults fs s \<and> r = Inl e \<and> (kind_of e = NotFound \<longrightarrow> disk_get (st_disk s) name = None)) \<or>
      (\<exists>fs. s' = on_disk (\<lambda>d. d\<lparr>d_files := dir_del name (d_files d)\<rparr>) (set_faults fs s) \<and> r = Inr ())"
    unfolding sys_remove_file_def
    by (rule syscall_any) (auto simp: serr_def smodify_def os_error_def split: option.splits dirent.splits)
  then show thesis using that by blast
qed

lemma content_seg: "content_at d = content_at d' \<Longrightarrow> seg d = seg d'"
  by (simp add: seg_def fun_eq_iff)

lemma seg_del: "seg (d\<lparr>d_faults := fs, d_files := dir_del (SegmentName_file_name n) (d_files d)\<rparr>) = (seg d)(n := None)"
  by (auto simp: seg_def content_at_def file_at_def disk_get_def fun_eq_iff)

text \<open>One step of the loop: the segment goes if it may, or the step fails and changes nothing.\<close>

lemma gc_step_any:
  assumes "gc_step active b (seg_path n) acc s = (r, s')"
  shows "touch segment_files (st_disk s) (st_disk s')" and "io_state.more s' = io_state.more s"
    and "seg (st_disk s') = (if isl r then seg (st_disk s) else
      if n \<noteq> active \<and> allows_delete b n then (seg (st_disk s))(n := None) else seg (st_disk s))"
proof -
  have "touch segment_files (st_disk s) (st_disk s') \<and> io_state.more s' = io_state.more s \<and>
    seg (st_disk s') = (if isl r then seg (st_disk s) else
      if n \<noteq> active \<and> allows_delete b n then (seg (st_disk s))(n := None) else seg (st_disk s))"
  proof (cases "n \<noteq> active \<and> allows_delete b n")
    case False
    then have "s' = s" using assms by (auto simp: gc_step_def split: if_splits)
    then show ?thesis using False by (auto simp: touching.refl)
  next
    case True
    obtain q s1 where q: "sys_remove_file (SegmentName_file_name n) s = (q, s1)" by fastforce
    have s': "s' = s1" using assms True q by (auto simp: gc_step_def split: sum.splits if_splits)
    have touch: "touch segment_files (st_disk s) (st_disk s1)"
      by (rule obeysD [OF touch_sys(7) q]) simp
    show ?thesis using q
    proof (cases rule: sys_remove_file_any)
      case (1 fs e)
      have "seg (st_disk s) n = None" if "kind_of e = NotFound"
        using 1(3) [OF that] by (simp add: seg_def content_at_def file_at_def)
      then show ?thesis
        using 1(1,2) assms True q touch s' by (auto simp: gc_step_def fun_eq_iff split: if_splits)
    next
      case (2 fs)
      then show ?thesis
        using assms True q touch s' by (auto simp: gc_step_def seg_del)
    qed
  qed
  then show "touch segment_files (st_disk s) (st_disk s')" and "io_state.more s' = io_state.more s"
    and "seg (st_disk s') = (if isl r then seg (st_disk s) else
      if n \<noteq> active \<and> allows_delete b n then (seg (st_disk s))(n := None) else seg (st_disk s))"
    by auto
qed

lemma gc_loop_any:
  assumes "sfold (gc_step active b) (map seg_path ns) acc s = (r, s')"
  shows "removes {n. n \<noteq> active \<and> allows_delete b n} (st_disk s) (st_disk s')" and "io_state.more s' = io_state.more s"
    and "\<not> isl r \<Longrightarrow> seg (st_disk s') = (\<lambda>n. if n \<in> set ns \<and> n \<noteq> active \<and> allows_delete b n then None else seg (st_disk s) n)"
proof -
  have "removes {n. n \<noteq> active \<and> allows_delete b n} (st_disk s) (st_disk s') \<and> io_state.more s' = io_state.more s \<and>
      (\<not> isl r \<longrightarrow> seg (st_disk s') = (\<lambda>n. if n \<in> set ns \<and> n \<noteq> active \<and> allows_delete b n then None else seg (st_disk s) n))"
    using assms
  proof (induction ns arbitrary: acc s)
    case Nil
    then show ?case by (auto simp: sret_def removing.refl)
  next
    case (Cons n ns)
    obtain q s1 where step: "gc_step active b (seg_path n) acc s = (q, s1)" by fastforce
    note one = gc_step_any [OF step]
    have rem: "removes {n. n \<noteq> active \<and> allows_delete b n} (st_disk s) (st_disk s1)"
      using one(1,3) by (auto simp: removes_def)
    show ?case
    proof (cases q)
      case (Inl e)
      then show ?thesis using Cons.prems step rem one(2) by auto
    next
      case (Inr acc')
      then have "sfold (gc_step active b) (map seg_path ns) acc' s1 = (r, s')" using Cons.prems step by simp
      from Cons.IH [OF this] show ?thesis
        using removing.trans [OF rem] one(2,3) Inr by (auto simp: fun_eq_iff)
    qed
  qed
  then show "removes {n. n \<noteq> active \<and> allows_delete b n} (st_disk s) (st_disk s')" and "io_state.more s' = io_state.more s"
    and "\<not> isl r \<Longrightarrow> seg (st_disk s') = (\<lambda>n. if n \<in> set ns \<and> n \<noteq> active \<and> allows_delete b n then None else seg (st_disk s) n)"
    by auto
qed

text \<open>What \<^verbatim>\<open>collect_garbage\<close> may delete, and what it does delete when it succeeds.\<close>

definition deletable :: "engine \<Rightarrow> SegmentName set" where
  "deletable s = (case gc_barrier (st_index s) (active_node_ids (st_registry s)) of None \<Rightarrow> {}
     | Some b \<Rightarrow> {n. n \<noteq> sw_active_segment (st_writer s) \<and> allows_delete b n})"

lemma collect_garbage_any:
  assumes "collect_garbage s = (r, s')" and "disk_ok (st_disk s)"
  shows "removes (deletable s) (st_disk s) (st_disk s')" and "io_state.more s' = io_state.more s"
    and "r = Inr () \<Longrightarrow> seg (st_disk s') = (\<lambda>n. if n \<in> deletable s then None else seg (st_disk s) n)"
proof -
  have "removes (deletable s) (st_disk s) (st_disk s') \<and> io_state.more s' = io_state.more s \<and>
      (r = Inr () \<longrightarrow> seg (st_disk s') = (\<lambda>n. if n \<in> deletable s then None else seg (st_disk s) n))"
  proof (cases "gc_barrier (st_index s) (active_node_ids (st_registry s))")
    case None
    then have "s' = on_metrics gc_ran s" using assms(1) by (simp add: collect_garbage_def count_metric_def sret_def on_metrics_def)
    then show ?thesis using None by (simp add: deletable_def removing.refl)
  next
    case (Some b)
    let ?s = "on_metrics gc_ran s" and ?a = "sw_active_segment (st_writer s)"
    have w: "st_writer ?s = st_writer s" "st_index ?s = st_index s" "st_registry ?s = st_registry s"
      by (simp_all add: on_metrics_def)
    have "sbind (sfold (gc_step ?a b) (map seg_path (seg_names (st_disk s))) 0) (\<lambda>deleted. if deleted \<noteq> 0
        then sbind (count_metric (gc_deleted_segments deleted)) (\<lambda>_. sys_sync_dir) else sret ()) ?s = (r, s')"
      using assms(1) Some seg_names(1) [OF assms(2)] by (simp add: collect_garbage_def count_metric_def w)
    then show ?thesis
    proof (cases rule: sbind_cases)
      case (1 e)
      then show ?thesis using gc_loop_any(1,2) [OF 1(1)] Some by (simp add: deletable_def)
    next
      case (2 deleted s1)
      note loop = gc_loop_any [OF 2(1)]
      have sync: "removes D (st_disk s1) (st_disk s') \<and> seg (st_disk s') = seg (st_disk s1) \<and> io_state.more s' = io_state.more s1" for D
      proof -
        have "(\<exists>fs m. s' = set_faults fs (on_metrics m s1)) \<or> s' = s1"
          using 2(2) unfolding sys_sync_dir_def
          by (auto simp: count_metric_def sret_def split: if_splits elim!: syscall_any) blast+
        then have "(\<exists>fs. st_disk s' = (st_disk s1)\<lparr>d_faults := fs\<rparr>) \<and> io_state.more s' = io_state.more s1 \<or> s' = s1" by auto
        then show ?thesis using touch_simple(1) by (auto simp: removes_def touching.refl)
      qed
      have "seg (st_disk s1) = (\<lambda>n. if n \<in> deletable s then None else seg (st_disk s) n)"
        using loop(3) seg_names(2) [OF assms(2)] Some by (auto simp: deletable_def fun_eq_iff)
      then show ?thesis
        using sync removing.trans [OF loop(1)] loop(2) Some by (simp add: deletable_def)
    qed
  qed
  then show "removes (deletable s) (st_disk s) (st_disk s')" and "io_state.more s' = io_state.more s"
    and "r = Inr () \<Longrightarrow> seg (st_disk s') = (\<lambda>n. if n \<in> deletable s then None else seg (st_disk s) n)"
    by auto
qed

end
