(* ===== verification/Histories.thy ===== *)
theory Histories
  imports Replay_Spec Effects
begin

text \<open>
  How the abstract content of the directory changes: appending to the last segment appends to the
  list of records, deleting segments filters it, and truncating a torn tail leaves it as it is.
  \<open>live\<close> is what a node's history is worth: its records from the latest checkpoint on.
\<close>

section \<open>The list of records\<close>

lemma seg_records_cong: "seg d' n = seg d n \<Longrightarrow> seg_records d' n = seg_records d n"
  by (simp add: seg_records_def)

lemma concat_map_nonempty: "concat (map f xs) = concat (map f (filter (\<lambda>x. f x \<noteq> []) xs))"
  by (induction xs) auto

text \<open>Segments without records do not matter.\<close>

lemma dir_records_cong:
  assumes "disk_ok d" and "disk_ok d'" and "\<And>n. seg_records d' n = seg_records d n"
  shows "dir_records d' = dir_records d"
proof -
  have ne: "n \<in> set (seg_names e)" if "seg_records e n \<noteq> []" "disk_ok e" for e n
    using that seg_names(2) [OF that(2)] by (auto simp: seg_records_def split: option.splits)
  let ?P = "\<lambda>n. seg_records d n \<noteq> []"
  have sorted: "sorted_wrt (<) (filter ?P (seg_names e))" if "disk_ok e" for e
    using seg_names(3) [OF that] by (rule sorted_wrt_filter)
  have "set (filter ?P (seg_names d')) = set (filter ?P (seg_names d))"
    using ne [of d] ne [of d'] assms by auto
  then have "filter ?P (seg_names d') = filter ?P (seg_names d)"
    using strict_sorted_equal [OF sorted [OF assms(2)] sorted [OF assms(1)]] by simp
  moreover have "seg_records d' = seg_records d" using assms(3) by blast
  ultimately show ?thesis
    unfolding dir_records_def using concat_map_nonempty by metis
qed

definition is_top :: "Disk \<Rightarrow> SegmentName \<Rightarrow> bool" where
  "is_top d a \<longleftrightarrow> (\<forall>n. seg d n \<noteq> None \<longrightarrow> n \<le> a)"

lemma dir_records_top:
  assumes "disk_ok d" and "is_top d a"
  shows "dir_records d = concat (map (seg_records d) (filter (\<lambda>n. n < a) (seg_names d))) @ seg_records d a"
proof (cases "seg d a")
  case None
  then have "filter (\<lambda>n. n < a) (seg_names d) = seg_names d"
    using assms seg_names(2) [OF assms(1)] by (auto simp: is_top_def filter_id_conv order_less_le)
  then show ?thesis using None by (simp add: dir_records_def seg_records_def)
next
  case (Some c)
  have "seg_names d = filter (\<lambda>n. n < a) (seg_names d) @ [a]"
  proof (rule seg_names_eqI [OF assms(1)])
    show "sorted_wrt (<) (filter (\<lambda>n. n < a) (seg_names d) @ [a])"
      using seg_names(3) [OF assms(1)] by (simp add: sorted_wrt_append sorted_wrt_filter)
    show "set (filter (\<lambda>n. n < a) (seg_names d) @ [a]) = {n. seg d n \<noteq> None}"
      using assms(2) Some seg_names(2) [OF assms(1)] by (auto simp: is_top_def order_less_le)
  qed
  then have "dir_records d = concat (map (seg_records d) (filter (\<lambda>n. n < a) (seg_names d) @ [a]))"
    unfolding dir_records_def by simp
  then show ?thesis by simp
qed

lemma dir_records_append:
  assumes "disk_ok d" and "disk_ok d'" and "is_top d a" and "seg d' = (seg d)(a \<mapsto> c)"
    and "seg_records d' a = seg_records d a @ xs"
  shows "dir_records d' = dir_records d @ xs"
proof -
  have top: "is_top d' a" using assms(3,4) by (auto simp: is_top_def split: if_splits)
  have names: "filter (\<lambda>n. n < a) (seg_names d') = filter (\<lambda>n. n < a) (seg_names d)"
    using seg_names(2,3) [OF assms(1)] seg_names(2,3) [OF assms(2)] assms(4)
    by (intro strict_sorted_equal) (auto simp: sorted_wrt_filter)
  have same: "map (seg_records d') (filter (\<lambda>n. n < a) (seg_names d)) = map (seg_records d) (filter (\<lambda>n. n < a) (seg_names d))"
    using assms(4) by (intro map_cong seg_records_cong) auto
  show ?thesis
    unfolding dir_records_top [OF assms(2) top] dir_records_top [OF assms(1,3)] names assms(5) same by simp
qed

lemma dir_records_remove:
  assumes "disk_ok d" and "disk_ok d'" and "\<And>n. seg d' n = (if n \<in> D then None else seg d n)"
  shows "dir_records d' = filter (\<lambda>pb. rp_segment (fst pb) \<notin> D) (dir_records d)"
proof -
  have names: "seg_names d' = filter (\<lambda>n. n \<notin> D) (seg_names d)"
    using seg_names [OF assms(1)] assms(3)
    by (intro seg_names_eqI [OF assms(2)]) (auto simp: sorted_wrt_filter split: if_splits)
  have recs: "seg_records d' n = (if n \<in> D then [] else seg_records d n)" for n
    using assms(3) by (simp add: seg_records_def)
  have one: "filter (\<lambda>pb. rp_segment (fst pb) \<notin> D) (seg_records d n) = seg_records d' n" for n
    using seg_records_segment [of _ _ d n]
    by (auto simp: recs filter_id_conv filter_empty_conv)
  have skip: "concat (map (seg_records d') ns) = concat (map (seg_records d') (filter (\<lambda>n. n \<notin> D) ns))" for ns
    by (induction ns) (simp_all add: recs)
  have "filter (\<lambda>pb. rp_segment (fst pb) \<notin> D) (dir_records d) = concat (map (seg_records d') (seg_names d))"
    by (simp add: dir_records_def filter_concat comp_def one)
  also have "\<dots> = concat (map (seg_records d') (filter (\<lambda>n. n \<notin> D) (seg_names d)))"
    using skip .
  finally show ?thesis by (simp add: dir_records_def names)
qed

section \<open>Live records\<close>

definition live :: "('le, 'lg) noraft \<Rightarrow> Disk \<Rightarrow> NodeId \<Rightarrow> 'le Record list" where
  "live N d n = since_checkpoint (history N n (dir_records d))"

definition live_append :: "'le Record list \<Rightarrow> 'le Record \<Rightarrow> 'le Record list" where
  "live_append rs r = (if is_checkpoint r then [r] else rs @ [r])"

definition replay_of :: "('le, 'lg) noraft \<Rightarrow> 'le Record list \<Rightarrow> 'lg NodeState io_result" where
  "replay_of N rs = fold_result (apply_record_to_state N) (NodeState_default N) rs"

lemma node_result_live: "node_result N d n = replay_of N (live N d n)"
  by (simp add: node_result_def state_of_def replay_of_def live_def)

lemma replay_of_append:
  "replay_of N (live_append rs r) =
    (case r of Checkpoint c \<Rightarrow> into_state N c | _ \<Rightarrow> rbind (replay_of N rs) (\<lambda>s. apply_record_to_state N s r))"
  by (cases r) (simp_all add: replay_of_def live_append_def fold_result_append)

lemma since_checkpoint_snoc: "since_checkpoint (rs @ [r]) = live_append (since_checkpoint rs) r"
proof (induction rs)
  case (Cons x rs)
  show ?case
  proof (cases "list_ex is_checkpoint rs")
    case True
    then show ?thesis using Cons by simp
  next
    case False
    then have "since_checkpoint rs = rs" by (cases rs) auto
    with Cons False show ?thesis by (auto simp: live_append_def)
  qed
qed (simp add: live_append_def)

lemma history_append: "history N n (xs @ ys) = history N n xs @ history N n ys"
  by (simp add: history_def)

lemma live_snoc:
  assumes "dir_records d' = dir_records d @ [(p, body)]" and "decode_node_record N body = Inr \<lparr>nr_node_id = n, nr_record = r\<rparr>"
  shows "live N d' k = (if k = n then live_append (live N d k) r else live N d k)"
proof -
  have "history N k [(p, body)] = (if k = n then [r] else [])"
    using assms(2) by (simp add: history_def node_of_def record_of_def the_record_def)
  then show ?thesis by (simp add: live_def assms(1) history_append since_checkpoint_snoc)
qed

lemma ckpt_at_append: "ckpt_at N n xs p \<Longrightarrow> ckpt_at N n (xs @ ys) p"
  by (auto simp: ckpt_at_def)

lemma ckpt_at_new:
  assumes "dir_records d' = dir_records d @ [(p, body)]"
    and "decode_node_record N body = Inr \<lparr>nr_node_id = n, nr_record = Checkpoint c\<rparr>"
  shows "ckpt_at N n (dir_records d') p"
  using assms by (simp add: ckpt_at_def node_of_def record_of_def the_record_def)

text \<open>Deleting what lies before a checkpoint of the node loses nothing of it.\<close>

lemma live_remove:
  assumes "crash_ok d" and "disk_ok d'" and seg: "\<And>n. seg d' n = (if n \<in> D then None else seg d n)"
    and p: "ckpt_at N n (dir_records d) p" and before: "\<And>k. k \<in> D \<Longrightarrow> k < rp_segment p"
  shows "live N d' n = live N d n" and "ckpt_at N n (dir_records d') p"
proof -
  let ?xs = "dir_records d"
  have ok: "disk_ok d" using assms(1) by (simp add: crash_ok_def)
  note recs = dir_records_remove [OF ok assms(2) seg]
  have sorted: "sorted_wrt (<) (map fst ?xs)" "sorted_wrt (<) (map fst (dir_records d'))"
    using sorted_dir_records [OF assms(1)] by (simp_all add: recs sorted_wrt_map sorted_wrt_filter)
  obtain q where q: "last_ckpt N n ?xs = Some q" "p \<le> q" using last_ckpt_ge [OF sorted(1) p] by blast
  have keep: "rp_segment (fst pb) \<notin> D" if "p \<le> fst pb" for pb :: placed
  proof
    assume "rp_segment (fst pb) \<in> D"
    then have "fst pb < p" using before by (simp add: less_RecordPosition_def)
    then show False using that by simp
  qed
  have same: "from_start (Some q) (dir_records d') = from_start (Some q) ?xs"
    using keep q(2) unfolding recs from_start_def before_checkpoint_def option.case filter_filter
    by (intro filter_cong) (auto simp: not_less intro: order_trans)
  show ckpt: "ckpt_at N n (dir_records d') p"
    using p keep by (auto simp: ckpt_at_def recs)
  then obtain q' where q': "last_ckpt N n (dir_records d') = Some q'" "p \<le> q'"
    using last_ckpt_ge [OF sorted(2)] by blast
  have "ckpt_at N n (dir_records d') q"
    using last_ckpt_Some [OF q(1)] keep q(2) by (auto simp: ckpt_at_def recs)
  moreover have "ckpt_at N n ?xs q'"
    using last_ckpt_Some [OF q'(1)] unfolding ckpt_at_def recs set_filter by blast
  ultimately have "q = q'"
    using last_ckpt_ge [OF sorted(2), of N n q] last_ckpt_ge [OF sorted(1), of N n q'] q(1) q'(1) by force
  then show "live N d' n = live N d n"
    unfolding live_def history_since_checkpoint [OF sorted(1), symmetric] history_since_checkpoint [OF sorted(2), symmetric]
    using q(1) q'(1) same by simp
qed

end
