(* ===== verification/Storage_Laws.thy ===== *)
theory Storage_Laws
  imports Histories Meta_Laws
begin

text \<open>
  What a well-formed storage directory is, at rest and under an open engine; the two metadata files
  of such a directory load back; and loading a node, by the engine or read-only, returns the state
  that the node's live records stand for and leaves the directory as it is.
\<close>

section \<open>Well-formed directories\<close>

definition registry_stored :: "'v nojson \<Rightarrow> Disk \<Rightarrow> NodeRegistry \<Rightarrow> bool" where
  "registry_stored J d reg \<longleftrightarrow> registry_ok J reg \<and>
     (content_at d NODE_REGISTRY_FILE_NAME = Some (text_bytes (format_node_registry J reg)) \<or>
      reg = [] \<and> disk_get d NODE_REGISTRY_FILE_NAME = None)"

definition index_stored :: "'v nojson \<Rightarrow> Disk \<Rightarrow> CheckpointIndex \<Rightarrow> bool" where
  "index_stored J d idx \<longleftrightarrow> bt_wf idx \<and>
     (content_at d CHECKPOINT_INDEX_FILE_NAME = Some (text_bytes (format_checkpoint_index J idx)) \<or>
      idx = [] \<and> disk_get d CHECKPOINT_INDEX_FILE_NAME = None)"

text \<open>Every index entry of an active node is the position of one of its checkpoint records.\<close>

definition index_ok :: "('le, 'lg) noraft \<Rightarrow> Disk \<Rightarrow> NodeRegistry \<Rightarrow> CheckpointIndex \<Rightarrow> bool" where
  "index_ok N d reg idx \<longleftrightarrow>
     (\<forall>n p. is_active reg n \<longrightarrow> bt_get idx n = Some p \<longrightarrow> ckpt_at N n (dir_records d) p)"

definition storage_ok :: "('le, 'lg) noraft \<Rightarrow> 'v nojson \<Rightarrow> Disk \<Rightarrow> NodeRegistry \<Rightarrow> CheckpointIndex \<Rightarrow> bool" where
  "storage_ok N J d reg idx \<longleftrightarrow> crash_ok d \<and> decodable N d \<and>
     disk_get d WRITE_LOCK_FILE_NAME \<noteq> Some OtherEntry \<and>
     registry_stored J d reg \<and> index_stored J d idx \<and> index_ok N d reg idx"

abbreviation active_entries :: "NodeRegistry \<Rightarrow> CheckpointIndex \<Rightarrow> CheckpointIndex" where
  "active_entries reg idx \<equiv> bt_retain (\<lambda>n _. is_active reg n) idx"

definition engine_ok :: "('le, 'lg) noraft \<Rightarrow> 'v nojson \<Rightarrow> engine \<Rightarrow> bool" where
  "engine_ok N J s \<longleftrightarrow> writer_ok s \<and> all_clean (st_disk s) \<and> d_locked (st_disk s) \<and>
     (\<exists>idx. storage_ok N J (st_disk s) (st_registry s) idx \<and> st_index s = active_entries (st_registry s) idx)"

lemma engine_okD:
  assumes "engine_ok N J s"
  shows "writer_ok s" and "all_clean (st_disk s)" and "crash_ok (st_disk s)" and "disk_ok (st_disk s)"
    and "decodable N (st_disk s)" and "registry_ok J (st_registry s)" and "bt_wf (st_registry s)"
    and "bt_wf (st_index s)" and "index_ok N (st_disk s) (st_registry s) (st_index s)"
    and "bt_get (st_index s) n \<noteq> None \<Longrightarrow> is_active (st_registry s) n"
    and "disk_get (st_disk s) WRITE_LOCK_FILE_NAME \<noteq> Some OtherEntry" and "d_locked (st_disk s)"
proof -
  obtain idx where idx: "storage_ok N J (st_disk s) (st_registry s) idx" "st_index s = active_entries (st_registry s) idx"
    using assms by (auto simp: engine_ok_def)
  then have wf: "bt_wf idx" and ok: "index_ok N (st_disk s) (st_registry s) idx"
    by (auto simp: storage_ok_def index_stored_def)
  show "writer_ok s" "all_clean (st_disk s)" "d_locked (st_disk s)" using assms by (auto simp: engine_ok_def)
  show "crash_ok (st_disk s)" "disk_ok (st_disk s)" "decodable N (st_disk s)" "registry_ok J (st_registry s)"
    "bt_wf (st_registry s)" "disk_get (st_disk s) WRITE_LOCK_FILE_NAME \<noteq> Some OtherEntry"
    using idx(1) by (auto simp: storage_ok_def registry_stored_def registry_ok_def crash_ok_def)
  show "bt_wf (st_index s)" using bt_wf_retain [OF wf] idx(2) by simp
  show "index_ok N (st_disk s) (st_registry s) (st_index s)"
    using ok by (auto simp: index_ok_def idx(2) bt_get_retain [OF wf] split: option.splits if_splits)
  show "is_active (st_registry s) n" if "bt_get (st_index s) n \<noteq> None"
    using that by (auto simp: idx(2) bt_get_retain [OF wf] split: option.splits if_splits)
qed

section \<open>Loading the metadata files\<close>

lemma parse_bodies_Cons: "parse_bodies bs = (b # bodies, rest) \<Longrightarrow> next_frame bs = Frame b"
proof -
  assume *: "parse_bodies bs = (b # bodies, rest)"
  then have "\<not> not_frame bs" using parse_bodies_not_frame by force
  then obtain body where "next_frame bs = Frame body" by (auto simp: not_frame_def)
  then show ?thesis using * parse_bodies_Frame by force
qed

text \<open>A record of the directory is what a reader finds at its position.\<close>

lemma record_at:
  assumes "crash_ok d" and "(p, body) \<in> set (dir_records d)"
  obtains c where "seg d (rp_segment p) = Some c" and "recoverable c" and "SEGMENT_FILE_HEADER_LEN \<le> unat (rp_offset p)"
    and "unat (rp_offset p) \<le> length c" and "next_frame (drop (unat (rp_offset p)) c) = Frame body"
proof -
  obtain n where "(p, body) \<in> set (seg_records d n)" using assms(2) by (auto simp: dir_records_def)
  then obtain off c where c: "seg d n = Some c" "p = RecordPosition n (of_nat off)"
      "(off, body) \<in> set (layout SEGMENT_FILE_HEADER_LEN (seg_bodies c))"
    by (rule seg_records_mem)
  note off = layout_in_seg [OF assms(1) c(1,3)]
  obtain xs ys where split: "seg_bodies c = xs @ body # ys" "off = SEGMENT_FILE_HEADER_LEN + length (frames xs)"
    using layout_mem_split [OF c(3)] by blast
  have rec: "recoverable c" using seg_recoverable [OF assms(1) c(1)] .
  obtain rest where "parse_bodies (drop off c) = (body # ys, rest)"
    using recoverable_from [OF rec split(1)] off split(2) by auto
  then have "next_frame (drop off c) = Frame body" by (rule parse_bodies_Cons)
  then show thesis using that c off rec by simp
qed

lemma validate_checkpoint_position_ok:
  assumes "crash_ok d" and "decodable N d" and "ckpt_at N n (dir_records d) p"
  shows "validate_checkpoint_position N d n p = Inr ()"
proof -
  obtain body where body: "(p, body) \<in> set (dir_records d)" "node_of N (p, body) = n" "is_checkpoint (record_of N (p, body))"
    using assms(3) by (auto simp: ckpt_at_def)
  obtain c where c: "seg d (rp_segment p) = Some c" "recoverable c" "SEGMENT_FILE_HEADER_LEN \<le> unat (rp_offset p)"
    "unat (rp_offset p) \<le> length c" "next_frame (drop (unat (rp_offset p)) c) = Frame body"
    using record_at [OF assms(1) body(1)] .
  have off: "(rp_offset p < of_nat SEGMENT_FILE_HEADER_LEN) = False"
    using c(3) by (simp add: word_less_nat_alt SEGMENT_FILE_HEADER_LEN_def)
  have len: "SEGMENT_FILE_HEADER_LEN \<le> length c" using c(3,4) by simp
  have read: "read_record_body (\<lparr>rd_content = c, rd_pos = unat (rp_offset p)\<rparr>, None) =
      (Inr (Some body), \<lparr>rd_content = c, rd_pos = unat (rp_offset p) + (8 + length body)\<rparr>, None)"
    using c(4,5) by (simp add: read_record_body_view reader_ok_def)
  have "content_at d (SegmentName_file_name (rp_segment p)) = Some c" using c(1) by (simp add: seg_def)
  then show ?thesis
    using body c(4) decodable_record(1) [OF assms(2) body(1)]
    by (simp add: validate_checkpoint_position_def Let_def recoverable_header_read [OF c(2) len] off read
        node_of_def record_of_def)
qed

lemma validate_checkpoint_positions_ok:
  assumes "crash_ok d" and "decodable N d" and "\<forall>(n, p) \<in> set idx. ckpt_at N n (dir_records d) p"
  shows "validate_checkpoint_positions N d idx = Inr ()"
  using assms(3) unfolding validate_checkpoint_positions_def
  by (induction idx) (auto simp: validate_checkpoint_position_ok [OF assms(1,2)])

lemma NodeRegistry_load_stored:
  assumes "json_laws J" and "registry_stored J d reg"
  shows "NodeRegistry_load J d = Inr reg"
proof (cases "content_at d NODE_REGISTRY_FILE_NAME = Some (text_bytes (format_node_registry J reg))")
  case True
  then show ?thesis using NodeRegistry_load_saved [OF assms(1)] assms(2) by (simp add: registry_stored_def)
next
  case False
  then show ?thesis using assms(2) by (simp add: registry_stored_def NodeRegistry_load_def read_text_file_def)
qed

lemma bt_retain_mem: "(n, p) \<in> set (bt_retain P idx) \<longleftrightarrow> (n, p) \<in> set idx \<and> P n p"
  by (auto simp: bt_retain_def)

lemma CheckpointIndex_load_stored:
  assumes "json_laws J" and "storage_ok N J d reg idx"
  shows "CheckpointIndex_load N J d reg = Inr (active_entries reg idx)"
proof -
  have ok: "crash_ok d" "decodable N d" "index_stored J d idx" "index_ok N d reg idx" and wf: "bt_wf idx"
    using assms(2) by (auto simp: storage_ok_def index_stored_def)
  have "ckpt_at N n (dir_records d) p" if "(n, p) \<in> set (active_entries reg idx)" for n p
    using that ok(4) wf by (auto simp: bt_retain_mem index_ok_def strict_sorted_iff)
  then have valid: "validate_checkpoint_positions N d (active_entries reg idx) = Inr ()"
    by (intro validate_checkpoint_positions_ok [OF ok(1,2)]) auto
  show ?thesis
  proof (cases "content_at d CHECKPOINT_INDEX_FILE_NAME = Some (text_bytes (format_checkpoint_index J idx))")
    case True
    then show ?thesis using valid by (simp add: CheckpointIndex_load_saved [OF assms(1) wf] Let_def)
  next
    case False
    then show ?thesis
      using ok(3) by (simp add: index_stored_def CheckpointIndex_load_def read_text_file_def bt_retain_def)
  qed
qed

section \<open>Loading nodes\<close>

lemma quietD: "quiet d m r \<Longrightarrow> st_disk s = d \<Longrightarrow>
    fst (m s) = r \<and> st_disk (snd (m s)) = d \<and> io_state.more (snd (m s)) = io_state.more s \<and>
    unsynced (st_metrics (snd (m s))) = unsynced (st_metrics s)"
  by (simp add: quiet_def)

lemma index_hint_ok:
  assumes "index_ok N d reg idx" and "is_active reg n"
  shows "hint_ok N d n (checkpoint_position idx n)"
  using assms by (simp add: index_ok_def hint_ok_def checkpoint_position_def)

lemma index_hints_ok:
  assumes "index_ok N d reg idx" and "\<And>n. n \<in> set ids \<Longrightarrow> is_active reg n" and "ids \<noteq> []"
  shows "hints_ok N d ids (checkpoint_positions idx ids)"
  unfolding hints_ok_def
proof (intro allI impI)
  fix h assume h: "checkpoint_positions idx ids = Some h"
  note pos = checkpoint_positions_Some [OF h]
  have "ckpt_at N n (dir_records d) p" if "(n, p) \<in> set h" for n p
  proof -
    have "bt_get h n = Some p" using pos(1) that by (simp add: strict_sorted_iff)
    then show ?thesis using pos(2) [of n] assms(1,2) by (auto simp: index_ok_def split: if_splits)
  qed
  moreover have "\<exists>p. bt_get h n = Some p" if "n \<in> set ids" for n
    using pos(2,3) [of n] that by auto
  ultimately show "h \<noteq> [] \<and> bt_wf h \<and> (\<forall>n \<in> set ids. \<exists>p. bt_get h n = Some p) \<and>
      (\<forall>(n, p) \<in> set h. ckpt_at N n (dir_records d) p)"
    using pos(1,4) assms(3) by blast
qed

lemma engine_more: "io_state.more s = io_state.more (t :: engine) \<Longrightarrow>
    st_writer s = st_writer t \<and> st_registry s = st_registry t \<and> st_index s = st_index t"
  by (cases s; cases t) simp

lemma ensure_active:
  "is_active (st_registry s) n \<Longrightarrow> Engine_ensure_node_exists n op s = (Inr (), s)"
  by (simp add: Engine_ensure_node_exists_def sret_def)

lemma Engine_load_live:
  assumes "engine_ok N J s" and "is_active (st_registry s) n"
  shows "fst (Engine_load N n s) = replay_of N (live N (st_disk s) n)"
    and "st_disk (snd (Engine_load N n s)) = st_disk s"
    and "io_state.more (snd (Engine_load N n s)) = io_state.more s"
    and "unsynced (st_metrics (snd (Engine_load N n s))) = unsynced (st_metrics s)"
proof -
  note ok = engine_okD [OF assms(1)]
  have run: "Engine_load N n s = replay_node_state N (sw_active_segment (st_writer s)) n
      (checkpoint_position (st_index s) n) True s"
    by (simp add: Engine_load_def ensure_active [OF assms(2)])
  have "quiet (st_disk s) (replay_node_state N (sw_active_segment (st_writer s)) n
      (checkpoint_position (st_index s) n) True :: (engine, _) io) (node_result N (st_disk s) n)"
    by (rule quiet_replay_node_state [OF _ ok(5) index_hint_ok [OF ok(9) assms(2)]]) (simp add: readable_def ok(2,3))
  from quietD [OF this refl] show "fst (Engine_load N n s) = replay_of N (live N (st_disk s) n)"
    and "st_disk (snd (Engine_load N n s)) = st_disk s"
    and "io_state.more (snd (Engine_load N n s)) = io_state.more s"
    and "unsynced (st_metrics (snd (Engine_load N n s))) = unsynced (st_metrics s)"
    by (simp_all add: run node_result_live)
qed

text \<open>What \<^verbatim>\<open>load_all\<close> should return for the given nodes: their states, if each of them can be replayed.\<close>

definition loads_all ::
  "('le, 'lg) noraft \<Rightarrow> Disk \<Rightarrow> NodeId btset \<Rightarrow> (NodeId, 'lg NodeState) btmap io_result \<Rightarrow> bool" where
  "loads_all N d ids r \<longleftrightarrow>
     (\<forall>m. r = Inr m \<longrightarrow> bt_wf m \<and>
        (\<forall>n \<in> set ids. \<exists>x. replay_of N (live N d n) = Inr x \<and> bt_get m n = Some x) \<and>
        (\<forall>n. n \<notin> set ids \<longrightarrow> bt_get m n = None)) \<and>
     ((\<forall>n \<in> set ids. \<exists>x. replay_of N (live N d n) = Inr x) \<longrightarrow> (\<exists>m. r = Inr m))"

lemma quiet_load_all:
  fixes N :: "('le, 'lg) noraft"
  assumes "readable d recover_partial" and "decodable N d" and "bts_wf ids" and "ids \<noteq> [] \<Longrightarrow> hints_ok N d ids hints"
  shows "\<exists>r. loads_all N d ids r \<and> quiet d ((if ids = [] then sret [] else
      sbind (replay_storage_dir N active (Some ids) hints recover_partial) (\<lambda>replay. sret (collect_states N replay ids))) ::
      ('x io_state_scheme, _) io) r"
proof (cases "ids = []")
  case True
  then show ?thesis by (intro exI [of _ "Inr []"]) (simp add: loads_all_def quiet_basic)
next
  case False
  obtain r where q: "quiet d (replay_storage_dir N active (Some ids) hints recover_partial :: ('x io_state_scheme, 'lg ReplayState) io) r"
    and sound: "\<And>m n. r = Inr m \<Longrightarrow> n \<in> set ids \<Longrightarrow> node_result N d n = Inr (state_in N m n)"
    and complete: "(\<forall>n \<in> set ids. \<exists>s. node_result N d n = Inr s) \<longrightarrow> (\<exists>m. r = Inr m)"
    using quiet_replay_storage_dir [OF assms(1,2) assms(4) [OF False]] by blast
  have distinct: "distinct ids" using assms(3) by (simp add: strict_sorted_iff)
  let ?r = "rbind r (\<lambda>replay. Inr (collect_states N replay ids))"
  have "quiet d (sbind (replay_storage_dir N active (Some ids) hints recover_partial)
      (\<lambda>replay. sret (collect_states N replay ids)) :: ('x io_state_scheme, _) io) ?r"
    by (intro quiet_bind [OF q] quiet_basic)
  moreover have "loads_all N d ids ?r"
    using sound complete collect_states_get [OF distinct, of N]
    by (cases r) (auto simp: loads_all_def node_result_live)
  ultimately show ?thesis using False by (intro exI [of _ ?r]) simp
qed

lemma Engine_load_all_live:
  assumes "engine_ok N J s"
  shows "loads_all N (st_disk s) (active_node_ids (st_registry s)) (fst (Engine_load_all N s))"
    and "st_disk (snd (Engine_load_all N s)) = st_disk s"
    and "io_state.more (snd (Engine_load_all N s)) = io_state.more s"
    and "unsynced (st_metrics (snd (Engine_load_all N s))) = unsynced (st_metrics s)"
proof -
  note ok = engine_okD [OF assms]
  let ?ids = "active_node_ids (st_registry s)" and ?active = "sw_active_segment (st_writer s)"
  let ?hints = "checkpoint_positions (st_index s) (active_node_ids (st_registry s))"
  have ids: "bts_wf ?ids" "\<And>n. n \<in> set ?ids \<Longrightarrow> is_active (st_registry s) n"
    using active_node_ids [OF ok(7)] by auto
  obtain r where r: "loads_all N (st_disk s) ?ids r"
    and q: "quiet (st_disk s) ((if ?ids = [] then sret [] else
      sbind (replay_storage_dir N ?active (Some ?ids) ?hints True) (\<lambda>replay. sret (collect_states N replay ?ids))) ::
      (engine, _) io) r"
    using quiet_load_all [of "st_disk s" True N ?ids ?hints ?active] ok(2,3,5) ids(1) index_hints_ok [OF ok(9) ids(2)]
    by (auto simp: readable_def)
  have "Engine_load_all N s = (if ?ids = [] then sret [] else
      sbind (replay_storage_dir N ?active (Some ?ids) ?hints True) (\<lambda>replay. sret (collect_states N replay ?ids))) s"
    by (simp add: Engine_load_all_def)
  with quietD [OF q refl] r show "loads_all N (st_disk s) ?ids (fst (Engine_load_all N s))"
    and "st_disk (snd (Engine_load_all N s)) = st_disk s"
    and "io_state.more (snd (Engine_load_all N s)) = io_state.more s"
    and "unsynced (st_metrics (snd (Engine_load_all N s))) = unsynced (st_metrics s)"
    by simp_all
qed

section \<open>Read-only access\<close>

lemma ReadOnly_open_stored:
  assumes "json_laws J" and "storage_ok N J d reg idx"
  obtains s where "ReadOnly_open N J d = Inr s" and "st_disk s = d" and "ro_registry s = reg"
    and "ro_index s = active_entries reg idx"
proof -
  have "d_dir d = Directory" using assms(2) by (simp add: storage_ok_def crash_ok_def disk_ok_def)
  moreover have "NodeRegistry_load J d = Inr reg"
    using assms(2) by (intro NodeRegistry_load_stored [OF assms(1)]) (simp add: storage_ok_def)
  ultimately show thesis
    using that CheckpointIndex_load_stored [OF assms] by (simp add: ReadOnly_open_def)
qed

lemma index_ok_active: "bt_wf idx \<Longrightarrow> index_ok N d reg idx \<Longrightarrow> index_ok N d reg (active_entries reg idx)"
  by (auto simp: index_ok_def bt_get_retain split: option.splits if_splits)

text \<open>Reading does not need the repair that opening for writing makes.\<close>

lemma load_node_live:
  assumes "json_laws J" and "storage_ok N J d reg idx"
  shows "load_node N J d n = (if is_active reg n then replay_of N (live N d n)
      else Inl (if is_removed reg n then node_removed_error else node_not_found_error), d)"
proof -
  obtain s where s: "ReadOnly_open N J d = Inr s" "st_disk s = d" "ro_registry s = reg" "ro_index s = active_entries reg idx"
    using ReadOnly_open_stored [OF assms] .
  have ok: "crash_ok d" "decodable N d" "index_ok N d reg (active_entries reg idx)"
    using assms(2) index_ok_active by (auto simp: storage_ok_def index_stored_def)
  show ?thesis
  proof (cases "is_active reg n")
    case True
    have "quiet d (replay_node_state N (select_active_append_segment d) n
        (checkpoint_position (active_entries reg idx) n) False :: (ReadOnlyStorage, _) io) (node_result N d n)"
      by (rule quiet_replay_node_state [OF _ ok(2) index_hint_ok [OF ok(3) True]]) (simp add: readable_def ok(1))
    from quietD [OF this s(2)] show ?thesis
      using True s by (auto simp: load_node_def with_read_only_def ReadOnly_load_def ensure_node_exists_def node_result_live
          split: prod.splits)
  next
    case False
    then show ?thesis using s by (simp add: load_node_def with_read_only_def ReadOnly_load_def ensure_node_exists_def)
  qed
qed

lemma load_all_live:
  assumes "json_laws J" and "storage_ok N J d reg idx"
  shows "loads_all N d (active_node_ids reg) (fst (load_all N J d))" and "snd (load_all N J d) = d"
proof -
  obtain s where s: "ReadOnly_open N J d = Inr s" "st_disk s = d" "ro_registry s = reg" "ro_index s = active_entries reg idx"
    using ReadOnly_open_stored [OF assms] .
  have ok: "crash_ok d" "decodable N d" "index_ok N d reg (active_entries reg idx)" "bt_wf reg"
    using assms(2) index_ok_active by (auto simp: storage_ok_def index_stored_def registry_stored_def registry_ok_def)
  let ?ids = "active_node_ids reg" and ?active = "select_active_append_segment d"
  let ?hints = "checkpoint_positions (active_entries reg idx) (active_node_ids reg)"
  have ids: "bts_wf ?ids" "\<And>n. n \<in> set ?ids \<Longrightarrow> is_active reg n" using active_node_ids [OF ok(4)] by auto
  obtain r where r: "loads_all N d ?ids r"
    and q: "quiet d ((if ?ids = [] then sret [] else
      sbind (replay_storage_dir N ?active (Some ?ids) ?hints False) (\<lambda>replay. sret (collect_states N replay ?ids))) ::
      (ReadOnlyStorage, _) io) r"
    using quiet_load_all [of d False N ?ids ?hints ?active] ok(1,2) ids(1) index_hints_ok [OF ok(3) ids(2)]
    by (auto simp: readable_def)
  have "ReadOnly_load_all N s = (if ?ids = [] then sret [] else
      sbind (replay_storage_dir N ?active (Some ?ids) ?hints False) (\<lambda>replay. sret (collect_states N replay ?ids))) s"
    using s by (simp add: ReadOnly_load_all_def)
  with quietD [OF q s(2)] r show "loads_all N d ?ids (fst (load_all N J d))" and "snd (load_all N J d) = d"
    using s(1) by (auto simp: load_all_def with_read_only_def split: prod.splits)
qed

end
