(* ===== verification/Engine_Laws.thy ===== *)
theory Engine_Laws
  imports Storage_Laws
begin

text \<open>
  The operations of the storage engine against an abstract storage: a registry, and for each active
  node its live records. A successful operation takes the abstract storage to the next one; an
  operation that fails at any system call leaves a directory that stands for the abstract storage
  before it or after it.
\<close>

section \<open>Files outside the segments\<close>

lemma meta_names [simp]:
  "NODE_REGISTRY_FILE_NAME \<notin> segment_files" "NODE_REGISTRY_TMP_FILE_NAME \<notin> segment_files"
  "CHECKPOINT_INDEX_FILE_NAME \<notin> segment_files" "CHECKPOINT_INDEX_TMP_FILE_NAME \<notin> segment_files"
  "WRITE_LOCK_FILE_NAME \<notin> segment_files"
  by (auto simp: SegmentName_file_name_def NODE_REGISTRY_FILE_NAME_def NODE_REGISTRY_TMP_FILE_NAME_def
      CHECKPOINT_INDEX_FILE_NAME_def CHECKPOINT_INDEX_TMP_FILE_NAME_def WRITE_LOCK_FILE_NAME_def)

lemma meta_distinct [simp]:
  "NODE_REGISTRY_FILE_NAME \<noteq> NODE_REGISTRY_TMP_FILE_NAME" "CHECKPOINT_INDEX_FILE_NAME \<noteq> CHECKPOINT_INDEX_TMP_FILE_NAME"
  "NODE_REGISTRY_FILE_NAME \<noteq> CHECKPOINT_INDEX_FILE_NAME" "NODE_REGISTRY_FILE_NAME \<noteq> CHECKPOINT_INDEX_TMP_FILE_NAME"
  "CHECKPOINT_INDEX_FILE_NAME \<noteq> NODE_REGISTRY_FILE_NAME" "CHECKPOINT_INDEX_FILE_NAME \<noteq> NODE_REGISTRY_TMP_FILE_NAME"
  "WRITE_LOCK_FILE_NAME \<noteq> NODE_REGISTRY_FILE_NAME" "WRITE_LOCK_FILE_NAME \<noteq> NODE_REGISTRY_TMP_FILE_NAME"
  "WRITE_LOCK_FILE_NAME \<noteq> CHECKPOINT_INDEX_FILE_NAME" "WRITE_LOCK_FILE_NAME \<noteq> CHECKPOINT_INDEX_TMP_FILE_NAME"
  by (simp_all add: NODE_REGISTRY_FILE_NAME_def NODE_REGISTRY_TMP_FILE_NAME_def
      CHECKPOINT_INDEX_FILE_NAME_def CHECKPOINT_INDEX_TMP_FILE_NAME_def WRITE_LOCK_FILE_NAME_def)

text \<open>The same segments: whatever else changed, the records are the same.\<close>

lemma same_segments:
  assumes "disk_ok d" and "disk_ok d'" and "seg d' = seg d"
  shows "dir_records d' = dir_records d" and "live N d' = live N d" and "crash_ok d' = crash_ok d"
    and "all_clean d' = all_clean d" and "decodable N d' = decodable N d" and "index_ok N d' reg idx = index_ok N d reg idx"
proof -
  show recs: "dir_records d' = dir_records d"
    by (intro dir_records_cong [OF assms(1,2)] seg_records_cong) (simp add: assms(3))
  show "live N d' = live N d" "crash_ok d' = crash_ok d" "all_clean d' = all_clean d"
    "decodable N d' = decodable N d" "index_ok N d' reg idx = index_ok N d reg idx"
    using assms by (simp_all add: fun_eq_iff live_def recs crash_ok_def all_clean_def decodable_def index_ok_def)
qed

lemma touch_same_segments: "touch X d d' \<Longrightarrow> X \<inter> segment_files = {} \<Longrightarrow> seg d' = seg d"
  using touch_content_at [of X d d'] by (fastforce simp: seg_def fun_eq_iff)

lemma storage_ok_disk: "storage_ok N J d reg idx \<Longrightarrow> disk_ok d"
  by (simp add: storage_ok_def crash_ok_def)

text \<open>The metadata files as they stay when only segments, or only the other file, are touched.\<close>

lemma stored_touch:
  "registry_stored J d reg \<Longrightarrow> touch X d d' \<Longrightarrow> NODE_REGISTRY_FILE_NAME \<notin> X \<Longrightarrow> registry_stored J d' reg"
  "index_stored J d idx \<Longrightarrow> touch X d d' \<Longrightarrow> CHECKPOINT_INDEX_FILE_NAME \<notin> X \<Longrightarrow> index_stored J d' idx"
  by (auto simp: registry_stored_def index_stored_def touch_def content_at_def file_at_def)

lemma lock_file_touch:
  "disk_get d WRITE_LOCK_FILE_NAME \<noteq> Some OtherEntry \<Longrightarrow> touch X d d' \<Longrightarrow> disk_get d' WRITE_LOCK_FILE_NAME \<noteq> Some OtherEntry"
  by (auto simp: touch_def)

lemma storage_ok_segments:
  assumes "storage_ok N J d reg idx" and "touch segment_files d d'" and "crash_ok d'" and "decodable N d'"
    and "index_ok N d' reg idx"
  shows "storage_ok N J d' reg idx"
  using assms(1,3-5) unfolding storage_ok_def
  by (simp add: stored_touch(1) [OF _ assms(2) meta_names(1)] stored_touch(2) [OF _ assms(2) meta_names(3)]
      lock_file_touch [OF _ assms(2)])

text \<open>Saving the index or the registry: the file is the old one or the new one.\<close>

lemma index_save_effect:
  assumes "storage_ok N J (st_disk s) reg idx" and "bt_wf idx'" and "index_ok N (st_disk s) reg idx'"
    and "CheckpointIndex_save J idx' s = (r, s')"
  shows "storage_ok N J (st_disk s') reg idx' \<or> r \<noteq> Inr () \<and> storage_ok N J (st_disk s') reg idx"
    and "seg (st_disk s') = seg (st_disk s)"
    and "touch {CHECKPOINT_INDEX_FILE_NAME, CHECKPOINT_INDEX_TMP_FILE_NAME} (st_disk s) (st_disk s')"
    and "r = Inr () \<Longrightarrow> io_state.more s' = io_state.more s \<and> st_metrics s' = st_metrics s"
proof -
  let ?X = "{CHECKPOINT_INDEX_FILE_NAME, CHECKPOINT_INDEX_TMP_FILE_NAME}"
  have eff: "touch ?X (st_disk s) (st_disk s') \<and>
    (content_at (st_disk s') CHECKPOINT_INDEX_FILE_NAME = Some (text_bytes (format_checkpoint_index J idx')) \<or>
      r \<noteq> Inr () \<and> disk_get (st_disk s') CHECKPOINT_INDEX_FILE_NAME = disk_get (st_disk s) CHECKPOINT_INDEX_FILE_NAME) \<and>
    (r = Inr () \<longrightarrow> io_state.more s' = io_state.more s \<and> st_metrics s' = st_metrics s)"
    using assms(4) unfolding CheckpointIndex_save_def by (intro replace_file_effect) simp_all
  then show touch: "touch ?X (st_disk s) (st_disk s')" by simp
  show seg: "seg (st_disk s') = seg (st_disk s)" by (rule touch_same_segments [OF touch]) simp
  note ok = storage_ok_disk [OF assms(1)]
  note same = same_segments [OF ok touch_disk_ok [OF touch ok] seg]
  have rest: "crash_ok (st_disk s')" "decodable N (st_disk s')" "registry_stored J (st_disk s') reg"
    "disk_get (st_disk s') WRITE_LOCK_FILE_NAME \<noteq> Some OtherEntry"
    using assms(1) lock_file_touch [OF _ touch] by (simp_all add: storage_ok_def same stored_touch(1) [OF _ touch])
  have "index_stored J (st_disk s') idx' \<or> r \<noteq> Inr () \<and> index_stored J (st_disk s') idx"
    using eff assms(1,2) by (auto simp: index_stored_def storage_ok_def content_at_def file_at_def)
  then show "storage_ok N J (st_disk s') reg idx' \<or> r \<noteq> Inr () \<and> storage_ok N J (st_disk s') reg idx"
    using rest assms(1,3) by (auto simp: storage_ok_def same)
  show "r = Inr () \<Longrightarrow> io_state.more s' = io_state.more s \<and> st_metrics s' = st_metrics s" using eff by simp
qed

lemma registry_save_effect:
  assumes "storage_ok N J (st_disk s) reg idx" and "registry_ok J reg'" and "index_ok N (st_disk s) reg' idx"
    and "NodeRegistry_save J reg' s = (r, s')"
  shows "storage_ok N J (st_disk s') reg' idx \<or> r \<noteq> Inr () \<and> storage_ok N J (st_disk s') reg idx"
    and "seg (st_disk s') = seg (st_disk s)"
    and "touch {NODE_REGISTRY_FILE_NAME, NODE_REGISTRY_TMP_FILE_NAME} (st_disk s) (st_disk s')"
    and "r = Inr () \<Longrightarrow> io_state.more s' = io_state.more s \<and> st_metrics s' = st_metrics s"
proof -
  let ?X = "{NODE_REGISTRY_FILE_NAME, NODE_REGISTRY_TMP_FILE_NAME}"
  have eff: "touch ?X (st_disk s) (st_disk s') \<and>
    (content_at (st_disk s') NODE_REGISTRY_FILE_NAME = Some (text_bytes (format_node_registry J reg')) \<or>
      r \<noteq> Inr () \<and> disk_get (st_disk s') NODE_REGISTRY_FILE_NAME = disk_get (st_disk s) NODE_REGISTRY_FILE_NAME) \<and>
    (r = Inr () \<longrightarrow> io_state.more s' = io_state.more s \<and> st_metrics s' = st_metrics s)"
    using assms(4) unfolding NodeRegistry_save_def by (intro replace_file_effect) simp_all
  then show touch: "touch ?X (st_disk s) (st_disk s')" by simp
  show seg: "seg (st_disk s') = seg (st_disk s)" by (rule touch_same_segments [OF touch]) simp
  note ok = storage_ok_disk [OF assms(1)]
  note same = same_segments [OF ok touch_disk_ok [OF touch ok] seg]
  have rest: "crash_ok (st_disk s')" "decodable N (st_disk s')" "index_stored J (st_disk s') idx"
    "disk_get (st_disk s') WRITE_LOCK_FILE_NAME \<noteq> Some OtherEntry"
    using assms(1) lock_file_touch [OF _ touch] by (simp_all add: storage_ok_def same stored_touch(2) [OF _ touch])
  have "registry_stored J (st_disk s') reg' \<or> r \<noteq> Inr () \<and> registry_stored J (st_disk s') reg"
    using eff assms(1,2) by (auto simp: registry_stored_def storage_ok_def content_at_def file_at_def)
  then show "storage_ok N J (st_disk s') reg' idx \<or> r \<noteq> Inr () \<and> storage_ok N J (st_disk s') reg idx"
    using rest assms(1,3) by (auto simp: storage_ok_def same)
  show "r = Inr () \<Longrightarrow> io_state.more s' = io_state.more s \<and> st_metrics s' = st_metrics s" using eff by simp
qed


section \<open>Appending a record\<close>

lemma crash_ok_top:
  assumes "all_clean d" and "disk_ok d'" and "is_top d a" and "seg d' = (seg d)(a \<mapsto> c)" and "recoverable c"
    and "length c \<le> MAX_FILE_LEN"
  shows "crash_ok d'" and "clean c \<Longrightarrow> all_clean d'"
  using assms by (auto simp: crash_ok_def all_clean_def is_top_def clean_recoverable split: if_splits)

lemma decodable_append:
  assumes "decodable N d" and "dir_records d' = dir_records d @ xs" and "\<forall>(p, body) \<in> set xs. \<exists>nr. decode_node_record N body = Inr nr"
  shows "decodable N d'"
  using assms by (auto simp: decodable_def)

lemma writer_top: "writer_ok s \<Longrightarrow> sw_active_segment (st_writer s) \<le> a \<Longrightarrow> is_top (st_disk s) a"
  by (auto simp: writer_ok_def is_top_def)

text \<open>A segment whose content grew by a part of a frame: its records grew by the record or not at all.\<close>

lemma records_grow:
  assumes "clean base" and "length body \<le> 2 ^ 30" and "seg d a = Some base \<or> seg d a = None \<and> base = SEGMENT_FORMAT_MAGIC"
    and "seg d' a = Some (base @ take k (frame_of_body body))"
  shows "seg_records d' a = seg_records d a @
    (if 8 + length body \<le> k then [(RecordPosition a (of_nat (length base)), body)] else [])"
proof -
  note grow = recoverable_append(2) [OF assms(1,2), of k]
  have base: "length base = SEGMENT_FILE_HEADER_LEN + length (frames (seg_bodies base))"
    using clean_content [OF assms(1)] by (metis length_MAGIC length_append)
  have "seg_records d a = map (\<lambda>(off, body). (RecordPosition a (of_nat off), body))
      (layout SEGMENT_FILE_HEADER_LEN (seg_bodies base))"
    using assms(3) by (auto simp: seg_records_def)
  then show ?thesis
    using grow by (simp add: seg_records_def [of d'] assms(4) layout_append base)
qed

text \<open>A part of a frame behind a segment without a tail: a record when the frame is complete, and a tail otherwise.\<close>

lemma frame_effect:
  assumes laws: "noraft_laws N" and wf: "record_wf N r" and w: "writer_ok s" and clean: "all_clean (st_disk s)"
    and dec: "decodable N (st_disk s)" and ok': "disk_ok d'" and enc: "encode_record_frame N n r = Inr frame"
    and a: "a = sw_active_segment (st_writer s) \<and> seg (st_disk s) a = Some base \<or>
      sw_active_segment (st_writer s) < a \<and> seg (st_disk s) a = None \<and> base = SEGMENT_FORMAT_MAGIC"
    and content: "content_at d' = (content_at (st_disk s))(SegmentName_file_name a \<mapsto> base @ take k frame)"
    and max: "length (base @ take k frame) \<le> MAX_FILE_LEN"
  shows "crash_ok d' \<and> decodable N d' \<and>
    (\<exists>xs. dir_records d' = dir_records (st_disk s) @ xs \<and>
      (xs = [] \<or> (\<exists>p body. xs = [(p, body)] \<and> decode_node_record N body = Inr \<lparr>nr_node_id = n, nr_record = r\<rparr>)))"
proof -
  let ?d = "st_disk s"
  have ok: "disk_ok ?d" using clean by (simp add: all_clean_def)
  obtain body where body: "encode_record_body N n r = Inr body" "frame = frame_of_body body" "length body \<le> 2 ^ 30"
    using encode_record_frame_body [OF enc] by blast
  have base: "clean base" "seg ?d a = Some base \<or> seg ?d a = None \<and> base = SEGMENT_FORMAT_MAGIC"
    using a clean by (auto simp: all_clean_def)
  have seg: "seg d' = (seg ?d)(a \<mapsto> base @ take k (frame_of_body body))"
    using seg_content_upd [OF content] body(2) by simp
  have top: "is_top ?d a" using a by (intro writer_top [OF w]) auto
  have crash: "crash_ok d'"
    using crash_ok_top(1) [OF clean ok' top seg recoverable_append(1) [OF base(1) body(3)]] max body(2) by simp
  let ?xs = "if 8 + length body \<le> k then [(RecordPosition a (of_nat (length base)), body)] else []"
  have dir: "dir_records d' = dir_records ?d @ ?xs"
    by (intro dir_records_append [OF ok ok' top seg] records_grow [OF base(1) body(3) base(2)]) (simp add: seg)
  note decode = encode_record_body_roundtrip(2) [OF laws wf body(1)]
  have "decodable N d'" by (rule decodable_append [OF dec dir]) (simp add: decode)
  with crash dir decode show ?thesis by (intro conjI exI [of _ ?xs]) auto
qed

lemma append_effect:
  assumes laws: "noraft_laws N" and wf: "record_wf N r" and w: "writer_ok s" and clean: "all_clean (st_disk s)"
    and dec: "decodable N (st_disk s)" and run: "SegmentWriter_append N n r s = (res, s')"
  shows "crash_ok (st_disk s') \<and> decodable N (st_disk s') \<and>
    (\<exists>xs. dir_records (st_disk s') = dir_records (st_disk s) @ xs \<and>
      (xs = [] \<or> (\<exists>p body. xs = [(p, body)] \<and> decode_node_record N body = Inr \<lparr>nr_node_id = n, nr_record = r\<rparr>)))"
proof -
  let ?d = "st_disk s" and ?d' = "st_disk s'"
  have ok: "disk_ok ?d" using clean by (simp add: all_clean_def)
  have ok': "disk_ok ?d'" using touch_disk_ok [OF obeysD [OF touch_writer(4) run] ok] .
  have max: "\<forall>c. seg ?d (sw_active_segment (st_writer s)) = Some c \<longrightarrow> length c \<le> MAX_FILE_LEN"
    using clean by (simp add: all_clean_def)
  show ?thesis
    using run w max
  proof (cases rule: SegmentWriter_append_any)
    case same
    then have "seg ?d' = seg ?d" by (simp add: seg_def fun_eq_iff)
    note same' = same_segments [OF ok ok' this]
    then show ?thesis using all_clean_crash_ok [OF clean] dec by (simp add: same')
  next
    case (header a k)
    have seg: "seg ?d' = (seg ?d)(a \<mapsto> take k SEGMENT_FORMAT_MAGIC)" using seg_content_upd [OF header(3)] .
    have top: "is_top ?d a" using header(1) by (intro writer_top [OF w]) simp
    have crash: "crash_ok ?d'"
      by (rule crash_ok_top(1) [OF clean ok' top seg recoverable_header(1)])
        (simp add: SEGMENT_FILE_HEADER_LEN_def MAX_FILE_LEN_def)
    have recs: "dir_records ?d' = dir_records ?d @ []"
      using header(2) by (intro dir_records_append [OF ok ok' top seg])
        (simp add: seg_records_def seg recoverable_header(2))
    moreover have "decodable N ?d'" using decodable_append [OF dec recs] by simp
    ultimately show ?thesis using crash by blast
  next
    case (frame a base frame k)
    from frame_effect [OF laws wf w clean dec ok' frame] show ?thesis by blast
  qed
qed

lemma append_ok_effect:
  assumes laws: "noraft_laws N" and wf: "record_wf N r" and w: "writer_ok s" and clean: "all_clean (st_disk s)"
    and dec: "decodable N (st_disk s)" and run: "SegmentWriter_append N n r s = (Inr p, s')"
  obtains body where "decode_node_record N body = Inr \<lparr>nr_node_id = n, nr_record = r\<rparr>"
    and "dir_records (st_disk s') = dir_records (st_disk s) @ [(p, body)]" and "all_clean (st_disk s')"
    and "decodable N (st_disk s')" and "writer_ok s'" and "writer_state.more s' = writer_state.more s"
proof -
  let ?d = "st_disk s" and ?d' = "st_disk s'"
  have ok: "disk_ok ?d" using clean by (simp add: all_clean_def)
  have ok': "disk_ok ?d'" using touch_disk_ok [OF obeysD [OF touch_writer(4) run] ok] .
  obtain frame a base where frame: "encode_record_frame N n r = Inr frame"
    and p: "p = RecordPosition a (of_nat (length base))"
    and content: "content_at ?d' = (content_at ?d)(SegmentName_file_name a \<mapsto> base @ frame)"
    and cases: "a = sw_active_segment (st_writer s) \<and> seg ?d a = Some base \<or>
      sw_active_segment (st_writer s) < a \<and> seg ?d a = None \<and> base = SEGMENT_FORMAT_MAGIC"
    and max: "length (base @ frame) \<le> MAX_FILE_LEN" and w': "writer_ok s'" and more: "writer_state.more s' = writer_state.more s"
    using SegmentWriter_append_ok [OF run w] by metis
  obtain body where body: "encode_record_body N n r = Inr body" "frame = frame_of_body body" "length body \<le> 2 ^ 30"
    using encode_record_frame_body [OF frame] by blast
  have base: "clean base" "seg ?d a = Some base \<or> seg ?d a = None \<and> base = SEGMENT_FORMAT_MAGIC"
    using cases clean by (auto simp: all_clean_def)
  have seg: "seg ?d' = (seg ?d)(a \<mapsto> base @ frame_of_body body)" using seg_content_upd [OF content] body(2) by simp
  have top: "is_top ?d a" using cases by (intro writer_top [OF w]) auto
  have clean': "all_clean ?d'"
    using crash_ok_top(2) [OF clean ok' top seg clean_recoverable [OF clean_append(1)]] clean_append(1) base(1) body max by simp
  have "seg ?d' a = Some (base @ take (8 + length body) (frame_of_body body))" by (simp add: seg)
  then have dir: "dir_records ?d' = dir_records ?d @ [(p, body)]"
    using records_grow [OF base(1) body(3) base(2), of _ "8 + length body"] p
    by (intro dir_records_append [OF ok ok' top seg]) simp
  note decode = encode_record_body_roundtrip(2) [OF laws wf body(1)]
  have "decodable N ?d'" by (rule decodable_append [OF dec dir]) (simp add: decode)
  then show thesis using that decode dir clean' w' more by blast
qed

end
