(* ===== verification/Engine_Refine.thy ===== *)
theory Engine_Refine
  imports Engine_Laws
begin

text \<open>
  The abstract storage, which is a registry and the live records of its active nodes, and the proof
  that each operation of the engine, when it succeeds, is the abstract operation, and when it fails,
  at whatever system call, leaves a directory that stands for the abstract storage before it or
  after it.
\<close>

section \<open>The abstract storage\<close>

record 'le storage_view =
  v_registry :: NodeRegistry
  v_live :: "NodeId \<Rightarrow> 'le Record list"

definition view_of :: "('le, 'lg) noraft \<Rightarrow> Disk \<Rightarrow> NodeRegistry \<Rightarrow> 'le storage_view" where
  "view_of N d reg = \<lparr>v_registry = reg, v_live = (\<lambda>n. if is_active reg n then live N d n else [])\<rparr>"

definition stands_for :: "('le, 'lg) noraft \<Rightarrow> 'v nojson \<Rightarrow> Disk \<Rightarrow> 'le storage_view \<Rightarrow> bool" where
  "stands_for N J d v \<longleftrightarrow> (\<exists>idx. storage_ok N J d (v_registry v) idx) \<and> v = view_of N d (v_registry v)"

definition engine_view :: "('le, 'lg) noraft \<Rightarrow> engine \<Rightarrow> 'le storage_view" where
  "engine_view N s = view_of N (st_disk s) (st_registry s)"

definition view_append :: "NodeId \<Rightarrow> 'le Record \<Rightarrow> 'le storage_view \<Rightarrow> 'le storage_view" where
  "view_append n r v = v\<lparr>v_live := (v_live v)(n := live_append (v_live v n) r)\<rparr>"

definition view_create :: "('le, 'lg) noraft \<Rightarrow> NodeId \<Rightarrow> NodeMetadata \<Rightarrow> 'le storage_view \<Rightarrow> 'le storage_view" where
  "view_create N n meta v =
     \<lparr>v_registry = bt_insert n \<lparr>re_metadata = meta, re_removed = False\<rparr> (v_registry v),
      v_live = (v_live v)(n := [Checkpoint (initial_checkpoint N)])\<rparr>"

definition view_remove :: "NodeId \<Rightarrow> 'le storage_view \<Rightarrow> 'le storage_view" where
  "view_remove n v = (case bt_get (v_registry v) n of None \<Rightarrow> v | Some e \<Rightarrow>
     \<lparr>v_registry = bt_insert n (e\<lparr>re_removed := True\<rparr>) (v_registry v), v_live = (v_live v)(n := [])\<rparr>)"

lemma view_same_live: "live N d' = live N d \<Longrightarrow> view_of N d' reg = view_of N d reg"
  by (simp add: view_of_def fun_eq_iff)

lemma view_of_registry [simp]: "v_registry (view_of N d reg) = reg"
  by (simp add: view_of_def)

lemma stands_forI: "storage_ok N J d reg idx \<Longrightarrow> stands_for N J d (view_of N d reg)"
  by (auto simp: stands_for_def)

lemma stands_for_view: "storage_ok N J d reg idx \<Longrightarrow> view_of N d reg = v \<Longrightarrow> stands_for N J d v"
  using stands_forI by blast

lemma view_same_segments:
  assumes "disk_ok d" and "disk_ok d'" and "seg d' = seg d"
  shows "view_of N d' reg = view_of N d reg"
  using same_segments(2) [OF assms, of N] by (simp add: view_of_def fun_eq_iff)

lemma view_of_append:
  assumes "dir_records d' = dir_records d @ xs"
    and "xs = [] \<or> (\<exists>p body. xs = [(p, body)] \<and> decode_node_record N body = Inr \<lparr>nr_node_id = n, nr_record = r\<rparr>)"
  shows "xs = [] \<Longrightarrow> view_of N d' reg = view_of N d reg"
    and "\<not> is_active reg n \<Longrightarrow> view_of N d' reg = view_of N d reg"
    and "xs \<noteq> [] \<Longrightarrow> is_active reg n \<Longrightarrow> view_of N d' reg = view_append n r (view_of N d reg)"
    and "xs \<noteq> [] \<Longrightarrow> live N d' k = (if k = n then live_append (live N d n) r else live N d k)"
proof -
  have same: "live N d' = live N d" if "xs = []" using assms(1) that by (simp add: live_def fun_eq_iff)
  have snoc: "live N d' k = (if k = n then live_append (live N d n) r else live N d k)" if "xs \<noteq> []" for k
    using assms that live_snoc [of d' d _ _ N n r k] by auto
  show "xs \<noteq> [] \<Longrightarrow> live N d' k = (if k = n then live_append (live N d n) r else live N d k)" by (rule snoc)
  show "xs = [] \<Longrightarrow> view_of N d' reg = view_of N d reg" using same by (simp add: view_of_def fun_eq_iff)
  show "\<not> is_active reg n \<Longrightarrow> view_of N d' reg = view_of N d reg"
    using same snoc by (cases "xs = []") (auto simp: view_of_def fun_eq_iff)
  show "xs \<noteq> [] \<Longrightarrow> is_active reg n \<Longrightarrow> view_of N d' reg = view_append n r (view_of N d reg)"
    using snoc by (auto simp: view_of_def view_append_def fun_eq_iff)
qed

section \<open>Engines\<close>

lemma engine_fields:
  assumes "writer_state.more s = writer_state.more (t :: engine)"
  shows "st_registry s = st_registry t" and "st_index s = st_index t"
  using assms by (cases s; cases t; simp)+

lemma engine_ok_index:
  assumes "engine_ok N J s"
  obtains idx where "storage_ok N J (st_disk s) (st_registry s) idx" and "st_index s = active_entries (st_registry s) idx"
    and "\<And>n. is_active (st_registry s) n \<Longrightarrow> bt_get (st_index s) n = bt_get idx n"
proof -
  obtain idx where idx: "storage_ok N J (st_disk s) (st_registry s) idx" "st_index s = active_entries (st_registry s) idx"
    using assms by (auto simp: engine_ok_def)
  then have "bt_wf idx" by (simp add: storage_ok_def index_stored_def)
  then have "bt_get (st_index s) n = bt_get idx n" if "is_active (st_registry s) n" for n
    using that by (simp add: idx(2) bt_get_retain split: option.splits)
  with idx that show thesis by blast
qed

lemma engine_stands: "engine_ok N J s \<Longrightarrow> stands_for N J (st_disk s) (engine_view N s)"
  unfolding engine_view_def by (erule engine_ok_index) (rule stands_forI)

lemma engine_metrics [simp]:
  "engine_ok N J (on_metrics g s) = engine_ok N J s" "engine_view N (on_metrics g s) = engine_view N s"
  by (simp_all add: engine_ok_def engine_view_def writer_ok_def on_metrics_def)

lemma writer_ok_cong:
  "st_writer s' = st_writer s \<Longrightarrow> seg (st_disk s') = seg (st_disk s) \<Longrightarrow> disk_ok (st_disk s') \<Longrightarrow> writer_ok s \<Longrightarrow> writer_ok s'"
  by (simp add: writer_ok_def)

lemma bt_retain_id: "bt_wf m \<Longrightarrow> (\<And>k. bt_get m k \<noteq> None \<Longrightarrow> P k) \<Longrightarrow> bt_retain (\<lambda>k _. P k) m = m"
  unfolding bt_retain_def filter_id_conv by (metis map_of_is_SomeI option.distinct(1) prod.collapse bt_wf_distinct)

text \<open>Synchronising the writer does not change what the storage stands for.\<close>

lemma sync_effect:
  assumes "engine_ok N J s" and "SegmentWriter_sync s = (r, s')"
  shows "seg (st_disk s') = seg (st_disk s)" and "touch segment_files (st_disk s) (st_disk s')"
    and "r = Inr () \<Longrightarrow> writer_ok s' \<and> io_state.more s' = io_state.more s"
proof -
  show seg: "seg (st_disk s') = seg (st_disk s)"
    using obeysD [OF same_content_sync(2) assms(2)] by (intro content_seg) (simp add: same_content_def)
  show "touch segment_files (st_disk s) (st_disk s')" by (rule obeysD [OF touch_writer(2) assms(2)])
  show "writer_ok s' \<and> io_state.more s' = io_state.more s" if "r = Inr ()"
    using SegmentWriter_sync_ok [of s s'] assms(2) that seg engine_okD(1,4) [OF assms(1)] writer_more(1)
    by (auto intro: writer_ok_cong [of s' s])
qed

lemma storage_ok_same_segments:
  assumes "storage_ok N J d reg idx" and "touch segment_files d d'" and "seg d' = seg d"
  shows "storage_ok N J d' reg idx"
proof -
  have "disk_ok d" "disk_ok d'" using storage_ok_disk [OF assms(1)] touch_disk_ok [OF assms(2)] by auto
  note same = same_segments [OF this assms(3)]
  show ?thesis
    using assms(1) by (intro storage_ok_segments [OF assms(1,2)]) (simp_all add: same storage_ok_def)
qed

section \<open>Garbage collection\<close>

text \<open>The segments that went are before the checkpoints of all active nodes, so their live records are kept.\<close>

lemma gc_keeps_live:
  assumes ok: "engine_ok N J s" and ok': "disk_ok d'"
    and seg: "\<And>n. seg d' n = (if n \<in> D then None else seg (st_disk s) n)" and D: "D \<subseteq> deletable s"
    and n: "is_active (st_registry s) n"
  shows "live N d' n = live N (st_disk s) n"
    and "bt_get (st_index s) n = Some p \<Longrightarrow> ckpt_at N n (dir_records d') p"
proof -
  note inv = engine_okD [OF ok]
  have all: "live N d' n = live N (st_disk s) n \<and> (\<forall>p. bt_get (st_index s) n = Some p \<longrightarrow> ckpt_at N n (dir_records d') p)"
  proof (cases "D = {}")
    case True
    then have "seg d' = seg (st_disk s)" by (simp add: seg fun_eq_iff)
    note same = same_segments [OF inv(4) ok' this]
    show ?thesis using inv(9) n by (simp add: same(1,2) index_ok_def)
  next
    case False
    then obtain b where b: "gc_barrier (st_index s) (active_node_ids (st_registry s)) = Some b"
      using D by (force simp: deletable_def split: option.splits)
    have mem: "n \<in> set (active_node_ids (st_registry s))" using active_node_ids(2) [OF inv(7)] n by simp
    have del: "\<exists>p. bt_get (st_index s) n = Some p \<and> k < rp_segment p" if "k \<in> D" for k
      using gc_barrier_safe [OF b _ mem, of k] that b D by (auto simp: deletable_def)
    then obtain p where p: "bt_get (st_index s) n = Some p" using False by blast
    have "k < rp_segment p" if "k \<in> D" for k using del [OF that] p by simp
    moreover have "ckpt_at N n (dir_records (st_disk s)) p" using inv(9) n p by (simp add: index_ok_def)
    ultimately show ?thesis using live_remove [OF inv(3) ok' seg, of N n p] p by simp
  qed
  then show "live N d' n = live N (st_disk s) n"
    and "bt_get (st_index s) n = Some p \<Longrightarrow> ckpt_at N n (dir_records d') p" by auto
qed

lemma gc_effect:
  fixes s :: engine
  assumes ok: "engine_ok N J s" and run: "collect_garbage s = (r, s')"
  shows "stands_for N J (st_disk s') (engine_view N s)"
    and "r = Inr () \<Longrightarrow> engine_ok N J s' \<and> engine_view N s' = engine_view N s"
proof -
  let ?d = "st_disk s" and ?d' = "st_disk s'" and ?reg = "st_registry s"
  note inv = engine_okD [OF ok]
  note gc = collect_garbage_any [OF run inv(4)]
  obtain idx where idx: "storage_ok N J ?d ?reg idx" "st_index s = active_entries ?reg idx"
    and get: "\<And>n. is_active ?reg n \<Longrightarrow> bt_get (st_index s) n = bt_get idx n"
    using engine_ok_index [OF ok] by metis
  have touch: "touch segment_files ?d ?d'" using gc(1) by (simp add: removes_def)
  have ok': "disk_ok ?d'" using touch_disk_ok [OF touch inv(4)] .
  define D where "D = {n \<in> deletable s. seg ?d' n = None}"
  have seg: "seg ?d' n = (if n \<in> D then None else seg ?d n)" for n
    using gc(1) by (auto simp: removes_def D_def)
  have clean: "all_clean ?d'" using inv(2) ok' by (simp add: all_clean_def seg)
  have recs: "dir_records ?d' = filter (\<lambda>pb. rp_segment (fst pb) \<notin> D) (dir_records ?d)"
    by (rule dir_records_remove [OF inv(4) ok' seg])
  note kept = gc_keeps_live [OF ok ok' seg]
  have D: "D \<subseteq> deletable s" by (auto simp: D_def)
  have store: "storage_ok N J ?d' ?reg idx"
  proof (rule storage_ok_segments [OF idx(1) touch all_clean_crash_ok [OF clean]])
    show "decodable N ?d'" using inv(5) by (auto simp: decodable_def recs)
    show "index_ok N ?d' ?reg idx" using kept(2) [OF D] get by (simp add: index_ok_def)
  qed
  have view: "view_of N ?d' ?reg = engine_view N s"
    using kept(1) [OF D] by (auto simp: engine_view_def view_of_def fun_eq_iff)
  show "stands_for N J ?d' (engine_view N s)" using stands_forI [OF store] view by simp
  have more: "st_writer s' = st_writer s" "st_registry s' = ?reg" "st_index s' = st_index s"
    using engine_more [OF gc(2)] by auto
  have "sw_active_segment (st_writer s) \<notin> D" by (auto simp: D_def deletable_def split: option.splits)
  then have "writer_ok s'" using inv(1) ok' by (auto simp: writer_ok_def more seg)
  then show "engine_ok N J s' \<and> engine_view N s' = engine_view N s"
    using clean store idx(2) view touch inv(12) unfolding engine_ok_def more touch_def
    by (auto simp: engine_view_def more)
qed

section \<open>The outcome of an operation\<close>

text \<open>
  What every operation promises: the directory stands for the old storage or the intended one, and
  after success the engine is well-formed and shows the intended one.
\<close>

definition outcome ::
  "('le, 'lg) noraft \<Rightarrow> 'v nojson \<Rightarrow> engine \<Rightarrow> 'le storage_view \<Rightarrow> unit io_result \<Rightarrow> engine \<Rightarrow> bool" where
  "outcome N J s v res s' \<longleftrightarrow>
     (stands_for N J (st_disk s') (engine_view N s) \<or> stands_for N J (st_disk s') v) \<and>
     (res = Inr () \<longrightarrow> engine_ok N J s' \<and> engine_view N s' = v)"

lemma outcomeD:
  assumes "outcome N J s v res s'"
  shows "stands_for N J (st_disk s') (engine_view N s) \<or> stands_for N J (st_disk s') v"
    and "res = Inr () \<Longrightarrow> engine_ok N J s' \<and> engine_view N s' = v"
  using assms by (simp_all add: outcome_def)

lemma outcome_failed:
  "res \<noteq> Inr () \<Longrightarrow> stands_for N J (st_disk s') w \<Longrightarrow> w = engine_view N s \<or> w = v \<Longrightarrow> outcome N J s v res s'"
  by (auto simp: outcome_def)

lemma outcome_refused: "engine_ok N J s \<Longrightarrow> res \<noteq> Inr () \<Longrightarrow> st_disk s' = st_disk s \<Longrightarrow> outcome N J s v res s'"
  using engine_stands [of N J s] by (simp add: outcome_def)

lemma outcome_done: "engine_ok N J s' \<Longrightarrow> engine_view N s' = v \<Longrightarrow> outcome N J s v res s'"
  using engine_stands [of N J s'] by (simp add: outcome_def)

section \<open>Appending and synchronising\<close>

lemma index_ok_append:
  "index_ok N d reg idx \<Longrightarrow> dir_records d' = dir_records d @ xs \<Longrightarrow> index_ok N d' reg idx"
  by (auto simp: index_ok_def ckpt_at_append)

text \<open>
  The storage grew by a record for the node, or by nothing; the operation succeeded only if it grew,
  and then it returned the position and left a well-formed engine.
\<close>

definition grown ::
  "('le, 'lg) noraft \<Rightarrow> 'v nojson \<Rightarrow> NodeId \<Rightarrow> 'le Record \<Rightarrow> engine \<Rightarrow> RecordPosition io_result \<Rightarrow> engine \<Rightarrow> bool" where
  "grown N J n r s res s' \<longleftrightarrow> (\<exists>xs. dir_records (st_disk s') = dir_records (st_disk s) @ xs \<and>
     (xs = [] \<or> (\<exists>p body. xs = [(p, body)] \<and> decode_node_record N body = Inr \<lparr>nr_node_id = n, nr_record = r\<rparr>)) \<and>
     (\<forall>idx. storage_ok N J (st_disk s) (st_registry s) idx \<longrightarrow> storage_ok N J (st_disk s') (st_registry s) idx) \<and>
     (\<forall>p. res = Inr p \<longrightarrow> engine_ok N J s' \<and> (\<exists>body. xs = [(p, body)]) \<and>
        st_registry s' = st_registry s \<and> st_index s' = st_index s))"

lemma engine_append:
  assumes "noraft_laws N" and "record_wf N r" and ok: "engine_ok N J s" and run: "SegmentWriter_append N n r s = (res, s')"
  shows "grown N J n r s res s'"
proof -
  note inv = engine_okD [OF ok]
  have touch: "touch segment_files (st_disk s) (st_disk s')" by (rule obeysD [OF touch_writer(4) run])
  obtain xs where crash: "crash_ok (st_disk s')" and dec: "decodable N (st_disk s')"
    and xs: "dir_records (st_disk s') = dir_records (st_disk s) @ xs"
      "xs = [] \<or> (\<exists>p body. xs = [(p, body)] \<and> decode_node_record N body = Inr \<lparr>nr_node_id = n, nr_record = r\<rparr>)"
    using append_effect [OF assms(1,2) inv(1,2,5) run] by blast
  have store: "storage_ok N J (st_disk s') (st_registry s) idx" if "storage_ok N J (st_disk s) (st_registry s) idx" for idx
    using that by (intro storage_ok_segments [OF that touch crash dec] index_ok_append [OF _ xs(1)]) (simp add: storage_ok_def)
  have success: "engine_ok N J s' \<and> (\<exists>body. xs = [(p, body)]) \<and> st_registry s' = st_registry s \<and> st_index s' = st_index s"
    if res: "res = Inr p" for p
  proof -
    obtain body where body: "dir_records (st_disk s') = dir_records (st_disk s) @ [(p, body)]" "all_clean (st_disk s')"
      "writer_ok s'" "writer_state.more s' = writer_state.more s"
      using append_ok_effect [OF assms(1,2) inv(1,2,5) run [unfolded res]] by metis
    then have "xs = [(p, body)]" using xs(1) by simp
    moreover have fields: "st_registry s' = st_registry s" "st_index s' = st_index s" using engine_fields [OF body(4)] .
    moreover have "engine_ok N J s'"
      using ok store body(2,3) touch by (auto simp: engine_ok_def fields touch_def)
    ultimately show ?thesis by simp
  qed
  show ?thesis unfolding grown_def
    by (rule exI [of _ xs], rule conjI [OF xs(1)], rule conjI [OF xs(2)]) (use store success in simp)
qed

lemma grownE:
  assumes "grown N J n r s res s'"
  obtains (unchanged) e where "res = Inl e" and "dir_records (st_disk s') = dir_records (st_disk s)"
      and "\<And>idx. storage_ok N J (st_disk s) (st_registry s) idx \<Longrightarrow> storage_ok N J (st_disk s') (st_registry s) idx"
  | (grew) p body where "dir_records (st_disk s') = dir_records (st_disk s) @ [(p, body)]"
      and "decode_node_record N body = Inr \<lparr>nr_node_id = n, nr_record = r\<rparr>"
      and "\<And>idx. storage_ok N J (st_disk s) (st_registry s) idx \<Longrightarrow> storage_ok N J (st_disk s') (st_registry s) idx"
      and "\<And>q. res = Inr q \<Longrightarrow> q = p \<and> engine_ok N J s' \<and> st_registry s' = st_registry s \<and> st_index s' = st_index s"
proof -
  obtain xs where xs: "dir_records (st_disk s') = dir_records (st_disk s) @ xs"
      "xs = [] \<or> (\<exists>p body. xs = [(p, body)] \<and> decode_node_record N body = Inr \<lparr>nr_node_id = n, nr_record = r\<rparr>)"
    and store: "\<forall>idx. storage_ok N J (st_disk s) (st_registry s) idx \<longrightarrow> storage_ok N J (st_disk s') (st_registry s) idx"
    and success: "\<forall>p. res = Inr p \<longrightarrow> engine_ok N J s' \<and> (\<exists>body. xs = [(p, body)]) \<and>
        st_registry s' = st_registry s \<and> st_index s' = st_index s"
    using assms unfolding grown_def by (elim exE conjE) (rule that)
  show thesis
  proof (cases "xs = []")
    case True
    then obtain e where e: "res = Inl e" using success by (cases res) auto
    show thesis by (rule unchanged [OF e]) (use xs(1) True store in auto)
  next
    case False
    then obtain p body where body: "xs = [(p, body)]" "decode_node_record N body = Inr \<lparr>nr_node_id = n, nr_record = r\<rparr>"
      using xs(2) by blast
    show thesis by (rule grew [OF _ body(2)]) (use xs(1) body(1) store success in auto)
  qed
qed

text \<open>Synchronising keeps the storage as it is.\<close>

lemma engine_sync:
  assumes ok: "engine_ok N J s" and run: "SegmentWriter_sync s = (r, s')"
  shows "dir_records (st_disk s') = dir_records (st_disk s)"
    and "storage_ok N J (st_disk s) (st_registry s) idx \<Longrightarrow> storage_ok N J (st_disk s') (st_registry s) idx"
    and "r = Inr () \<Longrightarrow> engine_ok N J s' \<and> st_registry s' = st_registry s \<and> st_index s' = st_index s"
proof -
  note eff = sync_effect [OF ok run]
  note same = same_segments [OF engine_okD(4) [OF ok] touch_disk_ok [OF eff(2) engine_okD(4) [OF ok]] eff(1)]
  show "dir_records (st_disk s') = dir_records (st_disk s)" by (rule same(1))
  have store: "storage_ok N J (st_disk s') (st_registry s) idx" if "storage_ok N J (st_disk s) (st_registry s) idx" for idx
    by (rule storage_ok_same_segments [OF that eff(2,1)])
  then show "storage_ok N J (st_disk s) (st_registry s) idx \<Longrightarrow> storage_ok N J (st_disk s') (st_registry s) idx" .
  show "engine_ok N J s' \<and> st_registry s' = st_registry s \<and> st_index s' = st_index s" if "r = Inr ()"
  proof -
    have w: "writer_ok s'" and more: "io_state.more s' = io_state.more s" using eff(3) [OF that] by auto
    note fields = engine_more [OF more]
    have "all_clean (st_disk s')" "d_locked (st_disk s')"
      using engine_okD(2,12) [OF ok] eff(2) by (simp_all add: same(4) touch_def)
    then show ?thesis
      using w store fields ok by (auto simp: engine_ok_def)
  qed
qed

lemma engine_append_sync:
  assumes "noraft_laws N" and "record_wf N r" and ok: "engine_ok N J s"
    and run: "sbind (SegmentWriter_append N n r) (\<lambda>p. sbind SegmentWriter_sync (\<lambda>_. sret p)) s = (res, s')"
  shows "grown N J n r s res s'"
  using run
proof (cases rule: sbind_cases)
  case (1 e)
  then show ?thesis using engine_append [OF assms(1,2) ok 1(1)] by simp
next
  case (2 p s1)
  have g: "grown N J n r s (Inr p) s1" by (rule engine_append [OF assms(1,2) ok 2(1)])
  then show ?thesis
  proof (cases rule: grownE)
    case (grew q body)
    then have ok1: "engine_ok N J s1" and fields: "st_registry s1 = st_registry s" "st_index s1 = st_index s" "q = p" by auto
    obtain u where u: "SegmentWriter_sync s1 = (u, s')" "res = rbind u (\<lambda>_. Inr p)"
      using 2(2) by (cases "SegmentWriter_sync s1"; cases "fst (SegmentWriter_sync s1)") (auto simp: sret_def)
    note sync = engine_sync [OF ok1 u(1), unfolded fields]
    show ?thesis unfolding grown_def
      using grew(1-3) sync u(2) fields(3) by (intro exI [of _ "[(p, body)]"]) (cases u, auto)
  qed simp
qed

lemma view_grown:
  assumes "dir_records d' = dir_records d @ [(p, body)]" and "decode_node_record N body = Inr \<lparr>nr_node_id = n, nr_record = r\<rparr>"
  shows "view_of N d' reg = (if is_active reg n then view_append n r (view_of N d reg) else view_of N d reg)"
  using live_snoc [OF assms] by (auto simp: view_of_def view_append_def fun_eq_iff)

lemma view_same_records: "dir_records d' = dir_records d \<Longrightarrow> view_of N d' reg = view_of N d reg"
  by (simp add: view_of_def live_def fun_eq_iff)

lemma save_record_effect:
  assumes "noraft_laws N" and "record_wf N r" and ok: "engine_ok N J s" and run: "save_record N n r op s = (res, s')"
  shows "outcome N J s (view_append n r (engine_view N s)) res s'"
proof (cases "is_active (st_registry s) n")
  case False
  then have "st_disk s' = st_disk s" "res \<noteq> Inr ()"
    using run by (auto simp: save_record_def Engine_ensure_node_exists_def sbind_def io_defs count_metric_def split: if_splits)
  then show ?thesis using outcome_refused [OF ok] by simp
next
  case True
  obtain q where q: "SegmentWriter_append N n r s = (q, s')" "res = Inr () \<longleftrightarrow> (\<exists>p. q = Inr p)"
    using run by (cases "fst (SegmentWriter_append N n r s)")
      (auto simp: save_record_def ensure_active [OF True] sbind_def sret_def split: prod.splits sum.splits)
  obtain idx where idx: "storage_ok N J (st_disk s) (st_registry s) idx" using engine_ok_index [OF ok] by metis
  from engine_append [OF assms(1,2) ok q(1)] show ?thesis
  proof (cases rule: grownE)
    case (unchanged e)
    have "res \<noteq> Inr ()" using unchanged(1) q(2) by simp
    from outcome_failed [OF this stands_forI [OF unchanged(3) [OF idx]]] show ?thesis
      by (simp add: engine_view_def view_same_records [OF unchanged(2)])
  next
    case (grew p body)
    then show ?thesis
      using stands_forI [OF grew(3) [OF idx]] q(2) True by (auto simp: outcome_def engine_view_def view_grown [OF grew(1,2)])
  qed
qed

lemma Engine_sync_effect:
  assumes ok: "engine_ok N J s" and run: "Engine_sync s = (r, s')"
  shows "stands_for N J (st_disk s') (engine_view N s)"
    and "r = Inr () \<Longrightarrow> engine_ok N J s' \<and> engine_view N s' = engine_view N s"
proof -
  let ?s = "on_metrics sync_requested s"
  have ok1: "engine_ok N J ?s" using ok by simp
  have run1: "SegmentWriter_sync ?s = (r, s')" using run by (simp add: Engine_sync_def count_metric_def)
  note eff = engine_sync [OF ok1 run1]
  have fields: "st_registry ?s = st_registry s" "st_disk ?s = st_disk s" by (simp_all add: on_metrics_def)
  obtain idx where idx: "storage_ok N J (st_disk s) (st_registry s) idx" using engine_ok_index [OF ok] by metis
  have view: "view_of N (st_disk s') (st_registry s) = engine_view N s"
    by (simp add: engine_view_def view_same_records [OF eff(1) [unfolded fields]])
  then show "stands_for N J (st_disk s') (engine_view N s)"
    using stands_forI [OF eff(2) [unfolded fields, OF idx]] by simp
  show "engine_ok N J s' \<and> engine_view N s' = engine_view N s" if "r = Inr ()"
    using eff(3) [OF that] view by (simp add: engine_view_def fields)
qed

section \<open>Writing a checkpoint\<close>

text \<open>What \<^verbatim>\<open>create_node\<close> and \<^verbatim>\<open>save_snapshot\<close> have in common: the record is durable before the index names it.\<close>

definition write_checkpoint ::
  "('le, 'lg) noraft \<Rightarrow> 'v nojson \<Rightarrow> NodeId \<Rightarrow> 'le SnapshotCheckpoint \<Rightarrow> (engine, CheckpointIndex) io" where
  "write_checkpoint N J n c =
     sbind (sbind (SegmentWriter_append N n (Checkpoint c)) (\<lambda>p. sbind SegmentWriter_sync (\<lambda>_. sret p))) (\<lambda>p.
     sbind (sget st_index) (\<lambda>idx.
     sbind (CheckpointIndex_save J (set_checkpoint_position n p idx)) (\<lambda>_.
     sret (set_checkpoint_position n p idx))))"

lemma sbind_assoc: "sbind (sbind m f) g = sbind m (\<lambda>x. sbind (f x) g)"
  by (rule ext) (simp add: sbind_def split: prod.split sum.split)

lemma sret_sbind: "sbind (sret x) f = f x"
  by (rule ext) simp

lemma create_node_split:
  "create_node N J n meta =
     sbind (sget st_registry) (\<lambda>reg. sbind (slift (Registry_create_node n meta reg)) (\<lambda>reg'.
     sbind (write_checkpoint N J n (initial_checkpoint N)) (\<lambda>idx'.
     sbind (NodeRegistry_save J reg') (\<lambda>_. sbind (set_registry reg') (\<lambda>_. sbind (set_index idx') (\<lambda>_.
     sbind (count_metric node_created) (\<lambda>_. sbind refresh_registry_metrics (\<lambda>_. refresh_checkpoint_index_metrics))))))))"
  by (simp only: create_node_def write_checkpoint_def Let_def sbind_assoc sret_sbind)

lemma save_snapshot_split:
  "save_snapshot N J n c =
     sbind (Engine_ensure_node_exists n OpSaveSnapshot) (\<lambda>_. sbind (slift (SnapshotCheckpoint_validate N c)) (\<lambda>_.
     sbind (write_checkpoint N J n c) (\<lambda>idx'. sbind (set_index idx') (\<lambda>_. sbind refresh_checkpoint_index_metrics (\<lambda>_.
     sbind collect_garbage (\<lambda>_. count_metric snapshot_checkpoint_saved))))))"
  by (simp only: save_snapshot_def write_checkpoint_def Let_def sbind_assoc sret_sbind)

lemma index_ok_insert:
  assumes "index_ok N d reg idx" and "ckpt_at N n (dir_records d) p"
  shows "index_ok N d reg (bt_insert n p idx)"
  using assms by (auto simp: index_ok_def bt_get_insert)

text \<open>
  The state behind \<open>write_checkpoint\<close>: the record may or may not be there and the file has the old
  or the new index; on success both are new, and only the engine's own index is still behind.
\<close>

definition checkpoint_written ::
  "('le, 'lg) noraft \<Rightarrow> 'v nojson \<Rightarrow> NodeId \<Rightarrow> 'le SnapshotCheckpoint \<Rightarrow> engine \<Rightarrow> CheckpointIndex \<Rightarrow> engine \<Rightarrow> bool" where
  "checkpoint_written N J n c s idx' s' \<longleftrightarrow> writer_ok s' \<and> all_clean (st_disk s') \<and> d_locked (st_disk s') \<and>
     st_registry s' = st_registry s \<and> storage_ok N J (st_disk s') (st_registry s) idx' \<and>
     (\<exists>p body. idx' = bt_insert n p (st_index s) \<and> ckpt_at N n (dir_records (st_disk s')) p \<and>
       decode_node_record N body = Inr \<lparr>nr_node_id = n, nr_record = Checkpoint c\<rparr> \<and>
       dir_records (st_disk s') = dir_records (st_disk s) @ [(p, body)])"

lemma checkpoint_index_saved:
  assumes ok: "engine_ok N J s" and p: "ckpt_at N n (dir_records (st_disk s)) p"
    and run: "CheckpointIndex_save J (bt_insert n p (st_index s)) s = (q, s')"
  shows "dir_records (st_disk s') = dir_records (st_disk s)" and "\<exists>idx. storage_ok N J (st_disk s') (st_registry s) idx"
    and "q = Inr () \<Longrightarrow> writer_ok s' \<and> all_clean (st_disk s') \<and> d_locked (st_disk s') \<and> st_registry s' = st_registry s \<and>
      storage_ok N J (st_disk s') (st_registry s) (bt_insert n p (st_index s)) \<and> ckpt_at N n (dir_records (st_disk s')) p"
proof -
  note inv = engine_okD [OF ok]
  obtain idx where idx: "storage_ok N J (st_disk s) (st_registry s) idx" using engine_ok_index [OF ok] by metis
  note sav = index_save_effect [OF idx bt_wf_insert [OF inv(8)] index_ok_insert [OF inv(9) p] run]
  have dok: "disk_ok (st_disk s')" by (rule touch_disk_ok [OF sav(3) inv(4)])
  note same = same_segments [OF inv(4) dok sav(2)]
  show "dir_records (st_disk s') = dir_records (st_disk s)" by (rule same(1))
  show "\<exists>idx. storage_ok N J (st_disk s') (st_registry s) idx" using sav(1) by blast
  show "writer_ok s' \<and> all_clean (st_disk s') \<and> d_locked (st_disk s') \<and> st_registry s' = st_registry s \<and>
      storage_ok N J (st_disk s') (st_registry s) (bt_insert n p (st_index s)) \<and> ckpt_at N n (dir_records (st_disk s')) p"
    if "q = Inr ()"
  proof -
    have more: "io_state.more s' = io_state.more s" using sav(4) that by simp
    note fields = engine_more [OF more]
    have "writer_ok s'" using fields writer_ok_cong [OF _ sav(2) dok inv(1)] by simp
    moreover have "all_clean (st_disk s')" "d_locked (st_disk s')"
      using inv(2,12) sav(3) by (simp_all add: same(4) touch_def)
    ultimately show ?thesis using fields sav(1) that p by (simp add: same(1))
  qed
qed

lemma write_checkpoint_effect:
  assumes "noraft_laws N" and "record_wf N (Checkpoint c)" and ok: "engine_ok N J s"
    and run: "write_checkpoint N J n c s = (res, s')"
  obtains (unchanged) e idx where "res = Inl e" and "dir_records (st_disk s') = dir_records (st_disk s)"
      and "storage_ok N J (st_disk s') (st_registry s) idx"
  | (grew) e idx p body where "res = Inl e" and "dir_records (st_disk s') = dir_records (st_disk s) @ [(p, body)]"
      and "decode_node_record N body = Inr \<lparr>nr_node_id = n, nr_record = Checkpoint c\<rparr>"
      and "storage_ok N J (st_disk s') (st_registry s) idx"
  | (written) idx' where "res = Inr idx'" and "checkpoint_written N J n c s idx' s'"
proof -
  obtain idx0 where idx0: "storage_ok N J (st_disk s) (st_registry s) idx0" using engine_ok_index [OF ok] by metis
  show thesis using run unfolding write_checkpoint_def
  proof (cases rule: sbind_cases)
    case (1 e)
    from engine_append_sync [OF assms(1,2) ok 1(1)] show thesis
      by (cases rule: grownE) (use idx0 1(2) unchanged grew in blast)+
  next
    case (2 p s1)
    from engine_append_sync [OF assms(1,2) ok 2(1)] show thesis
    proof (cases rule: grownE)
      case rec: (grew p' body)
      then have s1: "p' = p" "engine_ok N J s1" "st_registry s1 = st_registry s" "st_index s1 = st_index s" by auto
      have ckpt: "ckpt_at N n (dir_records (st_disk s1)) p" by (rule ckpt_at_new [OF rec(1) [unfolded s1(1)] rec(2)])
      have "sbind (CheckpointIndex_save J (bt_insert n p (st_index s1))) (\<lambda>_. sret (bt_insert n p (st_index s1))) s1 = (res, s')"
        using 2(2) by (simp add: set_checkpoint_position_def)
      then obtain q where q: "CheckpointIndex_save J (bt_insert n p (st_index s1)) s1 = (q, s')"
          "res = rbind q (\<lambda>_. Inr (bt_insert n p (st_index s1)))"
        by (cases "CheckpointIndex_save J (bt_insert n p (st_index s1)) s1";
            cases "fst (CheckpointIndex_save J (bt_insert n p (st_index s1)) s1)") (auto simp: sret_def)
      note sav = checkpoint_index_saved [OF s1(2) ckpt q(1), unfolded s1(3,4)]
      have recs: "dir_records (st_disk s') = dir_records (st_disk s) @ [(p, body)]" using sav(1) rec(1) s1(1) by simp
      show thesis
      proof (cases q)
        case (Inl e)
        then show thesis using grew [of e p body] recs rec(2) sav(2) q(2) by auto
      next
        case (Inr u)
        then have "checkpoint_written N J n c s (bt_insert n p (st_index s)) s'"
          using sav(3) recs rec(2) unfolding checkpoint_written_def by auto
        then show thesis using written q(2) Inr s1(4) by simp
      qed
    qed simp
  qed
qed


section \<open>Snapshots, creation and removal\<close>

lemma engine_set [simp]:
  "st_disk (s\<lparr>st_registry := reg\<rparr>) = st_disk s" "st_disk (s\<lparr>st_index := idx\<rparr>) = st_disk s"
  "writer_ok (s\<lparr>st_registry := reg\<rparr>) = writer_ok s" "writer_ok (s\<lparr>st_index := idx\<rparr>) = writer_ok s"
  for s :: engine
  by (simp_all add: writer_ok_def)

lemma refresh_metrics:
  "refresh_registry_metrics s = (Inr (), on_metrics (node_counts_changed (of_nat (active_node_count (st_registry s)))
     (of_nat (removed_node_count (st_registry s)))) s)"
  "refresh_checkpoint_index_metrics s = (Inr (), on_metrics (checkpoint_index_changed (of_nat (length (st_index s)))) s)"
  by (simp_all add: refresh_registry_metrics_def refresh_checkpoint_index_metrics_def count_metric_def smodify_def)

lemma is_active_insert:
  "is_active (bt_insert n e reg) k \<longleftrightarrow> (if k = n then \<not> re_removed e else is_active reg k)"
  by (simp add: is_active_def bt_get_insert)

lemma registry_ok_insert: "registry_ok J reg \<Longrightarrow> entry_ok J e \<Longrightarrow> registry_ok J (bt_insert n e reg)"
proof -
  assume ok: "registry_ok J reg" and e: "entry_ok J e"
  then have wf: "bt_wf (bt_insert n e reg)" by (simp add: registry_ok_def bt_wf_insert)
  have "entry_ok J x" if "(k, x) \<in> set (bt_insert n e reg)" for k x
  proof -
    have "bt_get (bt_insert n e reg) k = Some x" using wf that by (simp add: strict_sorted_iff)
    then show ?thesis using ok e by (auto simp: bt_get_insert registry_ok_def dest: map_of_SomeD split: if_splits)
  qed
  with wf show ?thesis by (auto simp: registry_ok_def)
qed

lemma index_keys_active:
  assumes "bt_wf idx" and "\<And>n. bt_get idx n \<noteq> None \<Longrightarrow> is_active reg n"
  shows "idx = active_entries reg idx"
  using bt_retain_id [OF assms(1), of "is_active reg"] assms(2) by simp

lemma counted:
  assumes "sbind m (\<lambda>_. count_metric g) s = (res, s')"
  obtains q s1 where "m s = (q, s1)" and "st_disk s' = st_disk s1" and "res = Inr () \<longrightarrow> q = Inr () \<and> s' = on_metrics g s1"
  using assms
proof (cases rule: sbind_cases)
  case (1 e)
  then show thesis using that [of "Inl e" s'] by simp
next
  case (2 u s1)
  have "st_disk s' = st_disk s1" "res = Inr () \<longrightarrow> s' = on_metrics g s1"
    using 2(2) by (auto simp: count_metric_def smodify_def)
  with 2(1) show thesis by (intro that) auto
qed

text \<open>When writing a checkpoint fails, the record may be there, but only the old index is in use.\<close>

lemma write_checkpoint_failed:
  assumes "noraft_laws N" and "record_wf N (Checkpoint c)" and "engine_ok N J s"
    and "write_checkpoint N J n c s = (Inl e, s')" and "res \<noteq> Inr ()"
    and "\<And>w. is_active (st_registry s) n \<Longrightarrow> w = view_append n (Checkpoint c) (engine_view N s) \<Longrightarrow> w = v"
  shows "outcome N J s v res s'"
  using assms(1-4)
proof (cases rule: write_checkpoint_effect)
  case (unchanged e idx)
  from outcome_failed [OF assms(5) stands_forI [OF unchanged(3)]] show ?thesis
    by (simp add: engine_view_def view_same_records [OF unchanged(2)])
next
  case (grew e idx p body)
  from outcome_failed [OF assms(5) stands_forI [OF grew(4)]] show ?thesis
    using assms(6) by (simp add: engine_view_def view_grown [OF grew(2,3)])
qed simp

text \<open>The engine uses the new index.\<close>

lemma checkpoint_published:
  assumes ok: "engine_ok N J s" and w: "checkpoint_written N J n c s idx' s1" and act: "is_active (st_registry s) n"
  shows "engine_ok N J (s1\<lparr>st_index := idx'\<rparr>)" and "engine_view N (s1\<lparr>st_index := idx'\<rparr>) = view_append n (Checkpoint c) (engine_view N s)"
proof -
  obtain p body where p: "idx' = bt_insert n p (st_index s)" "dir_records (st_disk s1) = dir_records (st_disk s) @ [(p, body)]"
    "decode_node_record N body = Inr \<lparr>nr_node_id = n, nr_record = Checkpoint c\<rparr>"
    using w by (auto simp: checkpoint_written_def)
  have "idx' = active_entries (st_registry s) idx'"
    using engine_okD(8,10) [OF ok] act
    by (intro index_keys_active) (auto simp: p(1) bt_wf_insert bt_get_insert split: if_splits)
  then show "engine_ok N J (s1\<lparr>st_index := idx'\<rparr>)" using w by (auto simp: engine_ok_def checkpoint_written_def)
  have "st_registry s1 = st_registry s" using w by (simp add: checkpoint_written_def)
  then show "engine_view N (s1\<lparr>st_index := idx'\<rparr>) = view_append n (Checkpoint c) (engine_view N s)"
    using act by (simp add: engine_view_def view_grown [OF p(2,3)])
qed

lemma save_snapshot_effect:
  assumes "noraft_laws N" and "record_wf N (Checkpoint c)" and ok: "engine_ok N J s"
    and run: "save_snapshot N J n c s = (res, s')"
  shows "outcome N J s (view_append n (Checkpoint c) (engine_view N s)) res s'" (is "outcome N J s ?v res s'")
proof (cases "is_active (st_registry s) n \<and> SnapshotCheckpoint_validate N c = Inr ()")
  case False
  then have "st_disk s' = st_disk s" "res \<noteq> Inr ()"
    using run by (cases "SnapshotCheckpoint_validate N c";
        auto simp: save_snapshot_def Engine_ensure_node_exists_def sbind_def io_defs count_metric_def split: if_splits)+
  then show ?thesis using outcome_refused [OF ok] by simp
next
  case True
  then have "sbind (write_checkpoint N J n c) (\<lambda>idx'. sbind (set_index idx') (\<lambda>_. sbind refresh_checkpoint_index_metrics (\<lambda>_.
      sbind collect_garbage (\<lambda>_. count_metric snapshot_checkpoint_saved)))) s = (res, s')"
    using run unfolding save_snapshot_split by (simp add: ensure_active)
  then show ?thesis
  proof (cases rule: sbind_cases)
    case (1 e)
    then show ?thesis by (intro write_checkpoint_failed [OF assms(1,2) ok 1(1)]) simp_all
  next
    case (2 idx' s1)
    have w: "checkpoint_written N J n c s idx' s1"
      using assms(1,2) ok 2(1) by (cases rule: write_checkpoint_effect) auto
    note pub = checkpoint_published [OF ok w conjunct1 [OF True]]
    let ?s2 = "on_metrics (checkpoint_index_changed (of_nat (length idx'))) (s1\<lparr>st_index := idx'\<rparr>)"
    have "sbind collect_garbage (\<lambda>_. count_metric snapshot_checkpoint_saved) ?s2 = (res, s')"
      using 2(2) by (simp add: set_index_def refresh_metrics)
    then obtain q s3 where q: "collect_garbage ?s2 = (q, s3)" and s': "st_disk s' = st_disk s3"
        "res = Inr () \<longrightarrow> q = Inr () \<and> s' = on_metrics snapshot_checkpoint_saved s3"
      by (rule counted)
    have "engine_ok N J ?s2" using pub(1) by simp
    from gc_effect [OF this q] show ?thesis using s' pub(2) by (auto simp: outcome_def)
  qed
qed

lemma live_created:
  assumes "dir_records d' = dir_records d @ [(p, body)]"
    and "decode_node_record N body = Inr \<lparr>nr_node_id = n, nr_record = Checkpoint c\<rparr>"
    and "bt_get reg n = None"
  shows "view_of N d' (bt_insert n \<lparr>re_metadata = meta, re_removed = False\<rparr> reg) =
    \<lparr>v_registry = bt_insert n \<lparr>re_metadata = meta, re_removed = False\<rparr> reg,
     v_live = (v_live (view_of N d reg))(n := [Checkpoint c])\<rparr>"
  using live_snoc [OF assms(1,2)]
  by (auto simp: view_of_def is_active_insert live_append_def fun_eq_iff)

text \<open>Saving the registry with the new node, and using it.\<close>

lemma creation_registered:
  assumes meta: "raw_ok J (nm_metadata meta)" and ok: "engine_ok N J s" and new: "bt_get (st_registry s) n = None"
    and w: "checkpoint_written N J n (initial_checkpoint N) s idx' s1"
    and reg': "reg' = bt_insert n \<lparr>re_metadata = meta, re_removed = False\<rparr> (st_registry s)"
    and run: "NodeRegistry_save J reg' s1 = (q, s2)"
  shows "\<exists>v. stands_for N J (st_disk s2) v \<and> (v = engine_view N s \<or> v = view_create N n meta (engine_view N s))"
    and "q = Inr () \<Longrightarrow> engine_ok N J (s2\<lparr>st_registry := reg', st_index := idx'\<rparr>)"
    and "q = Inr () \<Longrightarrow> engine_view N (s2\<lparr>st_registry := reg', st_index := idx'\<rparr>) = view_create N n meta (engine_view N s)"
proof -
  have store: "storage_ok N J (st_disk s1) (st_registry s) idx'" using w by (simp add: checkpoint_written_def)
  obtain p body where p: "idx' = bt_insert n p (st_index s)" "dir_records (st_disk s1) = dir_records (st_disk s) @ [(p, body)]"
    "decode_node_record N body = Inr \<lparr>nr_node_id = n, nr_record = Checkpoint (initial_checkpoint N)\<rparr>"
    "ckpt_at N n (dir_records (st_disk s1)) p"
    using w by (auto simp: checkpoint_written_def)
  have rok: "registry_ok J reg'"
    unfolding reg' using engine_okD(6) [OF ok] meta by (intro registry_ok_insert) (simp_all add: entry_ok_def)
  have iok: "index_ok N (st_disk s1) reg' idx'"
    using store p(1,4) by (auto simp: reg' storage_ok_def index_ok_def is_active_insert bt_get_insert)
  note sav = registry_save_effect [OF store rok iok run]
  have dok: "disk_ok (st_disk s2)" by (rule touch_disk_ok [OF sav(3) storage_ok_disk [OF store]])
  note same = same_segments [OF storage_ok_disk [OF store] dok sav(2)]
  have recs: "dir_records (st_disk s2) = dir_records (st_disk s) @ [(p, body)]" using same(1) p(2) by simp
  have view: "view_of N (st_disk s2) (st_registry s) = engine_view N s" "view_of N (st_disk s2) reg' = view_create N n meta (engine_view N s)"
    using new live_created [OF recs p(3) new]
    by (simp_all add: reg' engine_view_def view_grown [OF recs p(3)] view_create_def is_active_def)
  show "\<exists>v. stands_for N J (st_disk s2) v \<and> (v = engine_view N s \<or> v = view_create N n meta (engine_view N s))"
    using sav(1) stands_for_view [OF _ view(1)] stands_for_view [OF _ view(2)] by blast
  show "engine_view N (s2\<lparr>st_registry := reg', st_index := idx'\<rparr>) = view_create N n meta (engine_view N s)"
    using view(2) by (simp add: engine_view_def)
  show "engine_ok N J (s2\<lparr>st_registry := reg', st_index := idx'\<rparr>)" if "q = Inr ()"
  proof -
    have "writer_ok s2"
      using engine_more [OF conjunct1 [OF sav(4) [OF that]]] w writer_ok_cong [OF _ sav(2) dok] by (simp add: checkpoint_written_def)
    moreover have "idx' = active_entries reg' idx'"
      using engine_okD(8,10) [OF ok]
      by (intro index_keys_active) (auto simp: p(1) reg' bt_wf_insert bt_get_insert is_active_insert split: if_splits)
    moreover have "all_clean (st_disk s2)" "d_locked (st_disk s2)"
      using w sav(3) by (simp_all add: same(4) checkpoint_written_def touch_def)
    ultimately show ?thesis using sav(1) that by (auto simp: engine_ok_def)
  qed
qed

lemma create_node_effect:
  assumes laws: "noraft_laws N" and meta: "raw_ok J (nm_metadata meta)" and wf: "record_wf N (Checkpoint (initial_checkpoint N))"
    and ok: "engine_ok N J s" and run: "create_node N J n meta s = (res, s')"
  shows "outcome N J s (view_create N n meta (engine_view N s)) res s'"
proof (cases "bt_get (st_registry s) n")
  case (Some e)
  then have "s' = s" "res \<noteq> Inr ()"
    using run by (auto simp: create_node_def Registry_create_node_def)
  then show ?thesis using outcome_refused [OF ok] by simp
next
  case None
  let ?reg' = "bt_insert n \<lparr>re_metadata = meta, re_removed = False\<rparr> (st_registry s)"
  have "sbind (write_checkpoint N J n (initial_checkpoint N)) (\<lambda>idx'.
     sbind (NodeRegistry_save J ?reg') (\<lambda>_. sbind (set_registry ?reg') (\<lambda>_. sbind (set_index idx') (\<lambda>_.
     sbind (count_metric node_created) (\<lambda>_. sbind refresh_registry_metrics (\<lambda>_. refresh_checkpoint_index_metrics)))))) s = (res, s')"
    using run None unfolding create_node_split by (simp add: Registry_create_node_def)
  then show ?thesis
  proof (cases rule: sbind_cases)
    case (1 e)
    have "\<not> is_active (st_registry s) n" using None by (simp add: is_active_def)
    with 1 show ?thesis by (intro write_checkpoint_failed [OF laws wf ok 1(1)]) simp_all
  next
    case (2 idx' s1)
    have w: "checkpoint_written N J n (initial_checkpoint N) s idx' s1"
      using laws wf ok 2(1) by (cases rule: write_checkpoint_effect) auto
    from 2(2) show ?thesis
    proof (cases rule: sbind_cases)
      case (1 e)
      from creation_registered(1) [OF meta ok None w refl 1(1)] show ?thesis
        using 1(2) by (auto intro: outcome_failed)
    next
      case (2 u s2)
      from creation_registered(2,3) [OF meta ok None w refl 2(1)] show ?thesis
        using 2(2) by (intro outcome_done) (auto simp: set_registry_def set_index_def count_metric_def smodify_def refresh_metrics)
    qed
  qed
qed

text \<open>Removal: first the registry, then the index, then garbage collection.\<close>

lemma view_removed:
  assumes "bt_get reg n = Some e"
  shows "view_of N d (bt_insert n (e\<lparr>re_removed := True\<rparr>) reg) = view_remove n (view_of N d reg)"
  using assms by (simp add: view_of_def view_remove_def is_active_insert fun_eq_iff)

lemma index_ok_fewer:
  "index_ok N d reg idx \<Longrightarrow> (\<And>n. is_active reg' n \<Longrightarrow> is_active reg n) \<Longrightarrow> index_ok N d reg' idx"
  by (auto simp: index_ok_def)

lemma registry_saved:
  assumes ok: "engine_ok N J s" and reg': "registry_ok J reg'" and fewer: "\<And>n. is_active reg' n \<Longrightarrow> is_active (st_registry s) n"
    and run: "NodeRegistry_save J reg' s = (q, s1)"
  shows "\<exists>idx. storage_ok N J (st_disk s1) reg' idx \<or> q \<noteq> Inr () \<and> storage_ok N J (st_disk s1) (st_registry s) idx"
    and "dir_records (st_disk s1) = dir_records (st_disk s)" and "all_clean (st_disk s1)" and "d_locked (st_disk s1)"
    and "q = Inr () \<Longrightarrow> writer_ok s1 \<and> st_registry s1 = st_registry s \<and> st_index s1 = st_index s"
proof -
  note inv = engine_okD [OF ok]
  obtain idx where idx: "storage_ok N J (st_disk s) (st_registry s) idx" using engine_ok_index [OF ok] by metis
  have iok: "index_ok N (st_disk s) reg' idx"
    by (rule index_ok_fewer [OF _ fewer]) (use idx in \<open>simp_all add: storage_ok_def\<close>)
  note sav = registry_save_effect [OF idx reg' iok run]
  have dok: "disk_ok (st_disk s1)" by (rule touch_disk_ok [OF sav(3) inv(4)])
  note same = same_segments [OF inv(4) dok sav(2)]
  show "writer_ok s1 \<and> st_registry s1 = st_registry s \<and> st_index s1 = st_index s" if "q = Inr ()"
    using engine_more [of s1 s] sav(4) [OF that] writer_ok_cong [OF _ sav(2) dok inv(1)] by simp
  show "\<exists>idx. storage_ok N J (st_disk s1) reg' idx \<or> q \<noteq> Inr () \<and> storage_ok N J (st_disk s1) (st_registry s) idx"
    using sav(1) by blast
  show "dir_records (st_disk s1) = dir_records (st_disk s)" by (rule same(1))
  show "all_clean (st_disk s1)" "d_locked (st_disk s1)" using inv(2,12) sav(3) by (simp_all add: same(4) touch_def)
qed

text \<open>The second half of \<^verbatim>\<open>remove_node\<close>, from the state in which only the index is behind.\<close>

definition forget_checkpoint :: "'v nojson \<Rightarrow> CheckpointIndex \<Rightarrow> (engine, unit) io" where
  "forget_checkpoint J idx' = sbind (CheckpointIndex_save J idx') (\<lambda>_. sbind (set_index idx') (\<lambda>_.
     sbind collect_garbage (\<lambda>_. sbind (count_metric node_removed) (\<lambda>_. sbind refresh_registry_metrics (\<lambda>_.
     refresh_checkpoint_index_metrics)))))"

lemma forget_checkpoint_effect:
  assumes store: "storage_ok N J (st_disk s) (st_registry s) idx" and w: "writer_ok s" and clean: "all_clean (st_disk s)"
    and lock: "d_locked (st_disk s)" and idx': "idx' = active_entries (st_registry s) idx'"
    and wf: "bt_wf idx'" and iok: "index_ok N (st_disk s) (st_registry s) idx'"
    and run: "forget_checkpoint J idx' s = (res, s')"
  shows "outcome N J s (engine_view N s) res s'"
  using run unfolding forget_checkpoint_def
proof (cases rule: sbind_cases)
  case (1 e)
  note sav = index_save_effect [OF store wf iok 1(1)]
  have "view_of N (st_disk s') (st_registry s) = engine_view N s"
    unfolding engine_view_def
    by (rule view_same_segments [OF storage_ok_disk [OF store] touch_disk_ok [OF sav(3) storage_ok_disk [OF store]] sav(2)])
  then have "stands_for N J (st_disk s') (engine_view N s)" using sav(1) stands_for_view by blast
  then show ?thesis using 1(2) by (simp add: outcome_def)
next
  case (2 u s1)
  note sav = index_save_effect [OF store wf iok 2(1)]
  have dok: "disk_ok (st_disk s1)" by (rule touch_disk_ok [OF sav(3) storage_ok_disk [OF store]])
  have more: "io_state.more s1 = io_state.more s" using sav(4) by simp
  note fields = engine_more [OF more]
  have "writer_ok s1" using fields writer_ok_cong [OF _ sav(2) dok w] by simp
  moreover have "all_clean (st_disk s1)" "d_locked (st_disk s1)"
    using clean lock sav(3) same_segments(4) [OF storage_ok_disk [OF store] dok sav(2)] by (simp_all add: touch_def)
  moreover have "storage_ok N J (st_disk s1) (st_registry s) idx'" using sav(1) by simp
  ultimately have ok1: "engine_ok N J (s1\<lparr>st_index := idx'\<rparr>)"
    using fields idx' by (auto simp: engine_ok_def)
  have view1: "engine_view N (s1\<lparr>st_index := idx'\<rparr>) = engine_view N s"
    using view_same_segments [OF storage_ok_disk [OF store] dok sav(2)] fields by (simp add: engine_view_def)
  have "sbind collect_garbage (\<lambda>_. sbind (count_metric node_removed) (\<lambda>_. sbind refresh_registry_metrics (\<lambda>_.
      refresh_checkpoint_index_metrics))) (s1\<lparr>st_index := idx'\<rparr>) = (res, s')"
    using 2(2) by (simp add: set_index_def)
  then show ?thesis
  proof (cases rule: sbind_cases)
    case (1 e)
    then show ?thesis using gc_effect [OF ok1 1(1)] view1 by (simp add: outcome_def)
  next
    case (2 u s2)
    then show ?thesis using gc_effect(2) [OF ok1 2(1)] view1
      by (intro outcome_done) (auto simp: count_metric_def smodify_def refresh_metrics)
  qed
qed

text \<open>The first half was successful: the engine uses the new registry, and the second half runs.\<close>

lemma removal_registered:
  assumes ok: "engine_ok N J s" and reg': "registry_ok J reg'" and fewer: "\<And>k. is_active reg' k \<Longrightarrow> is_active (st_registry s) k \<and> k \<noteq> n"
    and others: "\<And>k. is_active (st_registry s) k \<Longrightarrow> k \<noteq> n \<Longrightarrow> is_active reg' k"
    and sav: "NodeRegistry_save J reg' s = (Inr (), s1)"
    and run: "forget_checkpoint J (bt_remove n (st_index s)) (s1\<lparr>st_registry := reg'\<rparr>) = (res, s')"
  shows "outcome N J (s1\<lparr>st_registry := reg'\<rparr>) (view_of N (st_disk s1) reg') res s'"
proof -
  let ?s1 = "s1\<lparr>st_registry := reg'\<rparr>" and ?idx' = "bt_remove n (st_index s)"
  have fewer': "is_active (st_registry s) k" if "is_active reg' k" for k using fewer [OF that] by simp
  note saved = registry_saved [OF ok reg' fewer' sav]
  obtain idx where idx: "storage_ok N J (st_disk s1) reg' idx" using saved(1) by auto
  have w: "writer_ok s1" "st_registry s1 = st_registry s" "st_index s1 = st_index s" using saved(5) by simp_all
  have wf: "bt_wf ?idx'" using engine_okD(8) [OF ok] by (rule bt_wf_remove)
  have iok: "index_ok N (st_disk ?s1) (st_registry ?s1) ?idx'"
    using engine_okD(9) [OF ok] fewer by (auto simp: index_ok_def saved(2) bt_get_remove)
  have keys: "?idx' = active_entries (st_registry ?s1) ?idx'"
    using engine_okD(10) [OF ok] others
    by (intro index_keys_active [OF wf]) (auto simp: bt_get_remove split: if_splits)
  show ?thesis
    using forget_checkpoint_effect [OF _ _ _ _ keys wf iok run, of idx] idx saved(3,4) w(1) by (simp add: engine_view_def)
qed

lemma remove_node_effect:
  assumes ok: "engine_ok N J s" and run: "remove_node J n s = (res, s')"
  shows "outcome N J s (view_remove n (engine_view N s)) res s'" (is "outcome N J s ?v res s'")
proof (cases "is_active (st_registry s) n")
  case False
  then have "st_disk s' = st_disk s" "res \<noteq> Inr ()"
    using run by (auto simp: remove_node_def Engine_ensure_node_exists_def sbind_def io_defs count_metric_def split: if_splits)
  then show ?thesis using outcome_refused [OF ok] by simp
next
  case True
  then obtain e where e: "bt_get (st_registry s) n = Some e" "\<not> re_removed e" by (auto simp: is_active_def split: option.splits)
  let ?reg' = "bt_insert n (e\<lparr>re_removed := True\<rparr>) (st_registry s)"
  have fewer: "is_active ?reg' k \<longleftrightarrow> is_active (st_registry s) k \<and> k \<noteq> n" for k by (simp add: is_active_insert)
  have reg': "registry_ok J ?reg'"
    using engine_okD(6) [OF ok] e(1)
    by (intro registry_ok_insert) (auto simp: registry_ok_def entry_ok_def dest: map_of_SomeD)
  have "sbind (NodeRegistry_save J ?reg') (\<lambda>_. sbind (set_registry ?reg') (\<lambda>_. sbind (sget st_index) (\<lambda>idx.
      forget_checkpoint J (bt_remove n idx)))) s = (res, s')"
    using run e
    by (simp add: remove_node_def ensure_active [OF True] Registry_remove_node_def Index_remove_node_def Let_def forget_checkpoint_def)
  then show ?thesis
  proof (cases rule: sbind_cases)
    case (1 e')
    note saved = registry_saved [OF ok reg' _ 1(1), unfolded fewer]
    have view: "view_of N (st_disk s') (st_registry s) = engine_view N s" "view_of N (st_disk s') ?reg' = ?v"
      using view_removed [OF e(1)] by (simp_all add: engine_view_def view_same_records [OF saved(2)])
    show ?thesis
      using saved(1) stands_for_view [OF _ view(1)] stands_for_view [OF _ view(2)] 1(2) by (auto simp: outcome_def)
  next
    case (2 u s1)
    note saved = registry_saved [OF ok reg' _ 2(1), unfolded fewer]
    have "view_of N (st_disk s1) ?reg' = ?v"
      using view_removed [OF e(1)] by (simp add: engine_view_def view_same_records [OF saved(2)])
    moreover have "outcome N J (s1\<lparr>st_registry := ?reg'\<rparr>) (view_of N (st_disk s1) ?reg') res s'"
      by (rule removal_registered [OF ok reg', unfolded fewer]) (use 2 saved(5) in \<open>simp_all add: set_registry_def\<close>)
    ultimately show ?thesis by (simp add: outcome_def engine_view_def)
  qed
qed

end
