(* ===== verification/Recovery.thy ===== *)
theory Recovery
  imports Engine_Refine
begin

text \<open>
  Opening a directory: recovery cuts the torn tail of the last segment and nothing else, the
  metadata loads, and the engine that results has the registry and the live records that the
  directory stood for. Whatever system call fails on the way, the directory still stands for them.
\<close>

section \<open>Repair\<close>

text \<open>Each segment keeps its complete records; it may only lose bytes behind them.\<close>

definition trims :: "bytes \<Rightarrow> bytes \<Rightarrow> bool" where
  "trims c c' \<longleftrightarrow> c' = c \<or> \<not> clean c \<and> recoverable c' \<and> seg_bodies c' = seg_bodies c \<and> length c' \<le> length c"

lemma trims_refl: "trims c c"
  by (simp add: trims_def)

lemma trims_trans: "trims a b \<Longrightarrow> trims b c \<Longrightarrow> trims a c"
  by (auto simp: trims_def)

text \<open>What is left of a file is as durable as it was.\<close>

definition cut_file :: "SFile \<Rightarrow> SFile \<Rightarrow> bool" where
  "cut_file f f' \<longleftrightarrow> prefix (f_content f') (f_content f) \<and> min (f_durable f) (length (f_content f')) \<le> f_durable f'"

lemma cut_file_refl: "cut_file f f"
  by (simp add: cut_file_def)

lemma cut_file_trans: "cut_file f g \<Longrightarrow> cut_file g h \<Longrightarrow> cut_file f h"
  using prefix_length_le [of "f_content h" "f_content g"] by (auto simp: cut_file_def min_def split: if_splits)

definition repairs :: "Disk \<Rightarrow> Disk \<Rightarrow> bool" where
  "repairs d d' \<longleftrightarrow> touch segment_files d d' \<and> (\<forall>n. rel_option trims (seg d n) (seg d' n)) \<and>
     (\<forall>n. rel_option cut_file (file_at d (SegmentName_file_name n)) (file_at d' (SegmentName_file_name n)))"

lemma repairsD:
  assumes "repairs d d'"
  shows "seg d n = None \<longleftrightarrow> seg d' n = None" and "seg d' n = Some c' \<Longrightarrow> \<exists>c. seg d n = Some c \<and> trims c c'"
    and "touch segment_files d d'"
proof -
  have "rel_option trims (seg d n) (seg d' n)" using assms by (simp add: repairs_def)
  then show "seg d n = None \<longleftrightarrow> seg d' n = None" and "seg d' n = Some c' \<Longrightarrow> \<exists>c. seg d n = Some c \<and> trims c c'"
    by (cases "seg d n"; cases "seg d' n"; simp)+
  show "touch segment_files d d'" using assms by (simp add: repairs_def)
qed

interpretation repair: disk_preorder repairs
proof
  show "repairs d d" for d by (simp add: repairs_def touching.refl option.rel_refl trims_refl cut_file_refl)
  have "transp trims" "transp cut_file" using trims_trans cut_file_trans by (auto simp: transp_def)
  then have "transp (rel_option trims)" "transp (rel_option cut_file)" by (simp_all add: option.rel_transp)
  then show "repairs d f" if "repairs d e" "repairs e f" for d e f
    using that touching.trans unfolding repairs_def transp_def by blast
qed

lemma repairs_records:
  assumes "repairs d d'" and "crash_ok d"
  shows "crash_ok d'" and "dir_records d' = dir_records d"
proof -
  note rep = repairsD [OF assms(1)]
  have ok: "disk_ok d" "disk_ok d'"
    using assms(2) touch_disk_ok [OF rep(3)] by (auto simp: crash_ok_def)
  have recs: "seg_records d' n = seg_records d n" for n
  proof (cases "seg d' n")
    case (Some c')
    then show ?thesis using rep(2) [OF Some] by (auto simp: seg_records_def trims_def)
  qed (use rep(1) [of n] in \<open>auto simp: seg_records_def\<close>)
  show "dir_records d' = dir_records d" by (rule dir_records_cong [OF ok recs])
  have "length c' \<le> MAX_FILE_LEN \<and> recoverable c' \<and> (clean c' \<or> (\<forall>m. seg d' m \<noteq> None \<longrightarrow> m \<le> n))"
    if c': "seg d' n = Some c'" for n c'
  proof -
    obtain c where c: "seg d n = Some c" "trims c c'" using rep(2) [OF c'] by blast
    have crash: "length c \<le> MAX_FILE_LEN" "recoverable c" "clean c \<or> (\<forall>m. seg d m \<noteq> None \<longrightarrow> m \<le> n)"
      using assms(2) c(1) by (auto simp: crash_ok_def)
    show ?thesis using c(2) crash rep(1) by (auto simp: trims_def)
  qed
  with ok(2) show "crash_ok d'" by (simp add: crash_ok_def)
qed

text \<open>Nothing is left to repair, except that a segment may have lost even its header.\<close>

definition repaired :: "Disk \<Rightarrow> SegmentName \<Rightarrow> bool" where
  "repaired d n \<longleftrightarrow> (\<forall>c. seg d n = Some c \<longrightarrow> clean c \<or> c = [])"

lemma repairs_repaired: "repairs d d' \<Longrightarrow> repaired d n \<Longrightarrow> repaired d' n"
  using repairsD(2) [of d d' n] by (fastforce simp: repaired_def trims_def)

text \<open>Without failures of the system calls, an operation succeeds and leaves no failures to come.\<close>

definition calmly :: "'x io_state_scheme \<Rightarrow> 'a io_result \<Rightarrow> 'x io_state_scheme \<Rightarrow> bool" where
  "calmly s r s' \<longleftrightarrow> (d_faults (st_disk s) = [] \<longrightarrow> (\<exists>x. r = Inr x) \<and> d_faults (st_disk s') = [])"

lemma calmly_syscall: "d_faults (st_disk s) = [] \<Longrightarrow> syscall act s = act s"
  by (simp add: syscall_def next_fault_def)

lemma faults_content [simp]:
  "d_faults (set_content name c d) = d_faults d" "d_faults (append_content name c d) = d_faults d"
  "d_faults (mark_durable name d) = d_faults d"
  by (auto simp: set_content_def append_content_def mark_durable_def split: option.split)

lemma set_len_effect:
  assumes "sys_set_len name k s = (r, s')" and "file_at (st_disk s) name = Some f" and "k \<le> length (f_content f)"
  shows "file_at (st_disk s') = file_at (st_disk s) \<and> r \<noteq> Inr () \<or>
    file_at (st_disk s') = (file_at (st_disk s))(name \<mapsto> f\<lparr>f_content := take k (f_content f), f_durable := min (f_durable f) k\<rparr>) \<and>
    r = Inr ()"
proof -
  from assms(1) show ?thesis
    unfolding sys_set_len_def
  proof (cases rule: syscall_any)
    case (2 fs)
    have "content_at (st_disk s\<lparr>d_faults := fs\<rparr>) name = Some (f_content f)" using assms(2) by (simp add: content_at_def)
    then have "st_disk s' = set_content name (take k (f_content f)) (st_disk s\<lparr>d_faults := fs\<rparr>)" "r = Inr ()"
      using 2 assms(2,3) by (auto simp: smodify_def content_at_def)
    then show ?thesis using assms(2,3) by (simp add: set_content_def file_at_put min.absorb2)
  qed (simp add: os_error_def)
qed

lemma repairs_cut:
  assumes "touch segment_files d d'" and "file_at d (SegmentName_file_name n) = Some f"
    and "file_at d' = (file_at d)(SegmentName_file_name n \<mapsto>
      f\<lparr>f_content := take k (f_content f), f_durable := min (f_durable f) k\<rparr>)"
    and "k \<le> length (f_content f)" and "\<not> clean (f_content f)"
    and "recoverable (take k (f_content f))" and "seg_bodies (take k (f_content f)) = seg_bodies (f_content f)"
  shows "repairs d d'" and "seg d' n = Some (take k (f_content f))"
proof -
  have "content_at d' = (content_at d)(SegmentName_file_name n \<mapsto> take k (f_content f))"
    by (auto simp: content_at_def fun_eq_iff assms(3))
  then have seg: "seg d' = (seg d)(n \<mapsto> take k (f_content f))" by (rule seg_content_upd)
  moreover have "seg d n = Some (f_content f)" using assms(2) by (simp add: seg_def content_at_def)
  moreover have "cut_file f (f\<lparr>f_content := take k (f_content f), f_durable := min (f_durable f) k\<rparr>)"
    by (simp add: cut_file_def take_is_prefix)
  ultimately show "repairs d d'" and "seg d' n = Some (take k (f_content f))"
    using assms by (auto simp: repairs_def trims_def option.rel_refl cut_file_refl)
qed

lemma repairs_same_files: "touch segment_files d d' \<Longrightarrow> file_at d' = file_at d \<Longrightarrow> repairs d d'"
  by (simp add: repairs_def seg_def content_at_def option.rel_refl trims_refl cut_file_refl)

lemma sys_open_read_seg: "seg (st_disk s) n = Some c \<Longrightarrow> sys_open_read (SegmentName_file_name n) s = (Inr \<lparr>rd_content = c, rd_pos = 0\<rparr>, s)"
  by (auto simp: sys_open_read_def seg_def content_at_def file_at_def split: option.splits dirent.splits)

text \<open>What is cut off is what no reader would have returned.\<close>

lemma cut_repairs:
  assumes "crash_ok (st_disk s)" and "seg (st_disk s) n = Some c" and "\<not> clean c" and "k \<le> length c"
    and "clean (take k c) \<and> seg_bodies (take k c) = seg_bodies c \<or> k = 0 \<and> seg_bodies c = []"
    and "sys_set_len (SegmentName_file_name n) k s = (r, s')"
  shows "repairs (st_disk s) (st_disk s')" and "r = Inr () \<Longrightarrow> repaired (st_disk s') n" and "calmly s r s'"
proof -
  show "calmly s r s'"
    using assms(2,6) by (auto simp: calmly_def sys_set_len_def calmly_syscall smodify_def seg_def split: option.split)
  obtain f where f: "file_at (st_disk s) (SegmentName_file_name n) = Some f" "f_content f = c"
    using assms(2) by (auto simp: seg_def content_at_def)
  have touch: "touch segment_files (st_disk s) (st_disk s')" by (rule obeysD [OF touch_sys(3) assms(6)]) simp
  have rec: "recoverable (take k c)" "seg_bodies (take k c) = seg_bodies c"
    using assms(5) clean_recoverable recoverable_header [of 0] by auto
  note cut = repairs_cut [OF touch f(1)]
  have eff: "repairs (st_disk s) (st_disk s') \<and> (r = Inr () \<longrightarrow> seg (st_disk s') n = Some (take k c))"
    using set_len_effect [OF assms(6) f(1)] assms(3,4) rec cut [of k] repairs_same_files [OF touch] by (auto simp: f(2))
  then show "repairs (st_disk s) (st_disk s')" ..
  show "repaired (st_disk s') n" if "r = Inr ()"
    using eff that assms(5) by (auto simp: repaired_def)
qed

lemma recoverable_long:
  assumes "recoverable c" and "SEGMENT_FILE_HEADER_LEN \<le> length c"
  obtains rest where "c = SEGMENT_FORMAT_MAGIC @ frames (seg_bodies c) @ rest" and "next_frame rest = Torn"
    and "parse_bodies (drop SEGMENT_FILE_HEADER_LEN c) = (seg_bodies c, rest)" and "clean c \<longleftrightarrow> rest = []"
    and "clean (take (length c - length rest) c)" and "seg_bodies (take (length c - length rest) c) = seg_bodies c"
  using assms(1)
proof (cases rule: recoverable_content)
  case (records rest)
  have nf: "not_frame rest" using records(3) by (simp add: not_frame_def)
  have "drop SEGMENT_FILE_HEADER_LEN c = frames (seg_bodies c) @ rest" by (subst records(1)) simp
  then have parse: "parse_bodies (drop SEGMENT_FILE_HEADER_LEN c) = (seg_bodies c, rest)"
    using parse_bodies_frames [OF records(2) nf] by simp
  have c: "c = (SEGMENT_FORMAT_MAGIC @ frames (seg_bodies c)) @ rest" using records(1) by simp
  have prefix: "clean (SEGMENT_FORMAT_MAGIC @ frames (seg_bodies c))"
    "seg_bodies (SEGMENT_FORMAT_MAGIC @ frames (seg_bodies c)) = seg_bodies c"
    using records(2) seg_bodies_frames by (auto simp: clean_def)
  have "length c - length rest = length (SEGMENT_FORMAT_MAGIC @ frames (seg_bodies c))"
    by (subst c) (simp del: append_assoc length_concat)
  then have take: "take (length c - length rest) c = SEGMENT_FORMAT_MAGIC @ frames (seg_bodies c)"
    using c by (metis append_eq_conv_conj)
  have "clean c \<longleftrightarrow> rest = []"
    using clean_content [of c] c prefix(1) by (metis append_Nil2 append_self_conv)
  then show thesis using that [OF records(1,3) parse] take prefix by simp
qed (use assms(2) in simp)

lemma scan_long_effect:
  assumes crash: "crash_ok (st_disk s)" and c: "seg (st_disk s) n = Some c" and allow: "clean c \<or> allow_partial"
    and long: "SEGMENT_FILE_HEADER_LEN \<le> length c"
    and run: "scan_loop (SegmentName_file_name n) allow_partial \<lparr>rd_content = c, rd_pos = SEGMENT_FILE_HEADER_LEN\<rparr> s = (r, s')"
  shows "repairs (st_disk s) (st_disk s') \<and> (r = Inr () \<longrightarrow> repaired (st_disk s') n) \<and> calmly s r s'"
proof -
  obtain rest where rest: "c = SEGMENT_FORMAT_MAGIC @ frames (seg_bodies c) @ rest" "next_frame rest = Torn"
      "parse_bodies (drop SEGMENT_FILE_HEADER_LEN c) = (seg_bodies c, rest)" "clean c \<longleftrightarrow> rest = []"
      "clean (take (length c - length rest) c)" "seg_bodies (take (length c - length rest) c) = seg_bodies c"
    using recoverable_long [OF seg_recoverable [OF crash c] long] by metis
  have ok: "reader_ok \<lparr>rd_content = c, rd_pos = SEGMENT_FILE_HEADER_LEN\<rparr>" using long by (simp add: reader_ok_def)
  have tail: "end_of_records (SegmentName_file_name n) allow_partial True (length c - length rest) (length c) () s = (r, s')"
    using run rest(2,3) by (simp add: scan_loop_fold [OF ok] tail_action_def)
  show ?thesis
  proof (cases "rest = []")
    case True
    then show ?thesis using tail rest(4) c by (auto simp: end_of_records_def sret_def repaired_def repair.refl calmly_def)
  next
    case False
    then have "length c - length rest \<noteq> length c" by (subst (1 2) rest(1)) simp
    moreover have "allow_partial" "\<not> clean c" using allow rest(4) False by auto
    moreover have "sbind (sys_set_len name k) (\<lambda>_. sret ()) t = sys_set_len name k t" for name k and t :: "'a io_state_scheme"
      by (simp add: sbind_def sret_def split: prod.split sum.split)
    ultimately have "sys_set_len (SegmentName_file_name n) (length c - length rest) (on_metrics replay_truncated s) = (r, s')"
      using tail by (simp add: end_of_records_def count_metric_def)
    then show ?thesis
      using cut_repairs [of "on_metrics replay_truncated s" n c "length c - length rest" r s'] crash c \<open>\<not> clean c\<close> rest(5,6)
      by (simp add: calmly_def)
  qed
qed

lemma scan_segment_effect:
  assumes crash: "crash_ok (st_disk s)" and c: "seg (st_disk s) n = Some c" and allow: "clean c \<or> allow_partial"
    and run: "scan_segment (SegmentName_file_name n) allow_partial s = (r, s')"
  shows "repairs (st_disk s) (st_disk s') \<and> (r = Inr () \<longrightarrow> repaired (st_disk s') n) \<and> calmly s r s'"
proof -
  let ?f = "SegmentName_file_name n" and ?file = "\<lparr>rd_content = c, rd_pos = 0\<rparr>"
  have run: "sbind (read_segment_header ?f ?file allow_partial True True)
      (\<lambda>(found, file). if \<not> found then sret () else scan_loop ?f allow_partial file) s = (r, s')"
    using run sys_open_read_seg [OF c] by (simp add: scan_segment_def)
  have rec: "recoverable c" using seg_recoverable [OF crash c] .
  consider "SEGMENT_FILE_HEADER_LEN \<le> length c" | "c = []" | "0 < length c" "length c < SEGMENT_FILE_HEADER_LEN"
    by fastforce
  then show ?thesis
  proof cases
    case 1
    then have "scan_loop ?f allow_partial \<lparr>rd_content = c, rd_pos = SEGMENT_FILE_HEADER_LEN\<rparr> s = (r, s')"
      using run by (simp add: recoverable_header_read [OF rec])
    then show ?thesis by (rule scan_long_effect [OF crash c allow 1])
  next
    case 2
    then have "allow_partial" using allow clean_length [of c] by (auto simp: SEGMENT_FILE_HEADER_LEN_def)
    then have "r = Inr ()" "s' = s" using run 2 by (simp_all add: read_segment_header_def Let_def sret_def)
    then show ?thesis using c 2 by (simp add: repaired_def repair.refl calmly_def)
  next
    case 3
    then have nclean: "\<not> clean c" "allow_partial" using allow clean_length by force+
    have bodies: "seg_bodies c = []" using rec
    proof (cases rule: recoverable_content)
      case (records rest)
      have "SEGMENT_FILE_HEADER_LEN \<le> length c" by (subst records(1)) simp
      then show ?thesis using 3(2) by simp
    qed
    have "sbind (sys_set_len ?f 0) (\<lambda>_. sret ()) (on_metrics replay_truncated s) = (r, s')"
      using run 3 nclean(2) by (simp add: read_segment_header_def Let_def count_metric_def sbind_def sret_def smodify_def split: prod.splits sum.splits)
    then have "sys_set_len ?f 0 (on_metrics replay_truncated s) = (r, s')"
      by (simp add: sbind_def sret_def split: prod.splits sum.splits)
    then show ?thesis
      using cut_repairs [of "on_metrics replay_truncated s" n c 0 r s'] crash c nclean(1) bodies by (simp add: calmly_def)
  qed
qed

text \<open>Recovery of the directory.\<close>

lemma recover_loop_effect:
  assumes "crash_ok (st_disk s)" and "set ns \<subseteq> {n. seg (st_disk s) n \<noteq> None}"
    and "\<And>n c. seg (st_disk s) n = Some c \<Longrightarrow> clean c \<or> n = active"
    and "sfold (\<lambda>segment _. scan_segment (sp_path segment) (sp_name segment = active)) (map seg_path ns) () s = (r, s')"
  shows "repairs (st_disk s) (st_disk s') \<and> (r = Inr () \<longrightarrow> (\<forall>n \<in> set ns. repaired (st_disk s') n)) \<and> calmly s r s'"
  using assms
proof (induction ns arbitrary: s)
  case Nil
  then show ?case by (simp add: sret_def repair.refl calmly_def)
next
  case (Cons n ns)
  obtain q s1 where one: "scan_segment (SegmentName_file_name n) (n = active) s = (q, s1)" by fastforce
  obtain c where c: "seg (st_disk s) n = Some c" using Cons.prems(2) by auto
  have eff: "repairs (st_disk s) (st_disk s1)" "q = Inr () \<Longrightarrow> repaired (st_disk s1) n" "calmly s q s1"
    using scan_segment_effect [OF Cons.prems(1) c _ one] Cons.prems(3) [OF c] by auto
  show ?case
  proof (cases q)
    case (Inl e)
    then show ?thesis using Cons.prems(4) one eff by (auto simp: calmly_def)
  next
    case (Inr u)
    have rest: "sfold (\<lambda>segment _. scan_segment (sp_path segment) (sp_name segment = active)) (map seg_path ns) () s1 = (r, s')"
      using Cons.prems(4) one Inr by simp
    have "clean c' \<or> k = active" if "seg (st_disk s1) k = Some c'" for k c'
      using repairsD(2) [OF eff(1) that] Cons.prems(3) by (auto simp: trims_def)
    moreover have "set ns \<subseteq> {n. seg (st_disk s1) n \<noteq> None}"
      using Cons.prems(2) repairsD(1) [OF eff(1)] by auto
    ultimately have IH: "repairs (st_disk s1) (st_disk s') \<and> (r = Inr () \<longrightarrow> (\<forall>n \<in> set ns. repaired (st_disk s') n)) \<and> calmly s1 r s'"
      using Cons.IH [OF repairs_records(1) [OF eff(1) Cons.prems(1)] _ _ rest] by blast
    then show ?thesis
      using repair.trans [OF eff(1)] repairs_repaired [of "st_disk s1" "st_disk s'" n] eff(2,3) Inr by (auto simp: calmly_def)
  qed
qed

lemma recover_effect:
  assumes crash: "crash_ok (st_disk s)" and run: "recover_storage_dir (select_active_append_segment (st_disk s)) s = (r, s')"
  shows "repairs (st_disk s) (st_disk s')" and "r = Inr () \<Longrightarrow> repaired (st_disk s') n" and "calmly s r s'"
proof -
  let ?active = "select_active_append_segment (st_disk s)"
  have ok: "disk_ok (st_disk s)" using crash by (simp add: crash_ok_def)
  note names = seg_names [OF ok]
  have active: "clean c \<or> n = ?active" if c: "seg (st_disk s) n = Some c" for n c
  proof -
    have n: "n \<in> set (seg_names (st_disk s))" using c names(2) by auto
    then have last: "?active = last (seg_names (st_disk s))" by (intro select_active_last [OF ok]) auto
    have "last (seg_names (st_disk s)) \<in> set (seg_names (st_disk s))" using n by (intro last_in_set) auto
    then have "seg (st_disk s) ?active \<noteq> None" using last names(2) by auto
    moreover have "n \<le> ?active"
      using n names(3) unfolding last
      by (cases "seg_names (st_disk s)" rule: rev_cases) (auto simp: sorted_wrt_append less_imp_le)
    ultimately show ?thesis using crash c by (fastforce simp: crash_ok_def)
  qed
  have loop: "sfold (\<lambda>segment _. scan_segment (sp_path segment) (sp_name segment = ?active)) (map seg_path (seg_names (st_disk s))) () s = (r, s')"
    using run names(1) by (simp add: recover_storage_dir_def)
  note eff = recover_loop_effect [OF crash _ active loop]
  show rep: "repairs (st_disk s) (st_disk s')" and "calmly s r s'" using eff names(2) by simp_all
  show "repaired (st_disk s') n" if "r = Inr ()"
  proof (cases "seg (st_disk s) n")
    case None
    then show ?thesis using repairsD(1) [OF rep, of n] by (simp add: repaired_def)
  next
    case (Some c)
    then show ?thesis using eff that names(2) by auto
  qed
qed


section \<open>Opening the active segment\<close>

lemma sys_open_create_any:
  assumes "sys_open_create name s = (r, s')"
  shows "content_at (st_disk s') = content_at (st_disk s) \<and> (r = Inr () \<longrightarrow> content_at (st_disk s) name \<noteq> None) \<or>
    disk_get (st_disk s) name = None \<and> content_at (st_disk s') = (content_at (st_disk s))(name \<mapsto> []) \<and> r = Inr ()"
    and "io_state.more s' = io_state.more s"
proof -
  have "(content_at (st_disk s') = content_at (st_disk s) \<and> (r = Inr () \<longrightarrow> content_at (st_disk s) name \<noteq> None) \<or>
    disk_get (st_disk s) name = None \<and> content_at (st_disk s') = (content_at (st_disk s))(name \<mapsto> []) \<and> r = Inr ()) \<and>
    io_state.more s' = io_state.more s"
    using assms unfolding sys_open_create_def
    by (rule syscall_any)
      (auto simp: smodify_def serr_def sret_def content_at_put empty_file_def content_at_def [of "st_disk s" name] file_at_def
        split: option.splits dirent.splits)
  then show "content_at (st_disk s') = content_at (st_disk s) \<and> (r = Inr () \<longrightarrow> content_at (st_disk s) name \<noteq> None) \<or>
    disk_get (st_disk s) name = None \<and> content_at (st_disk s') = (content_at (st_disk s))(name \<mapsto> []) \<and> r = Inr ()"
    and "io_state.more s' = io_state.more s" by auto
qed

lemma obeys_open: "obeys (touch segment_files) (SegmentWriter_open a max_len)"
  unfolding SegmentWriter_open_def open_active_segment_file_def Let_def
  by (intro touching.bind touching.pure touching.conditional touch_sys touch_sync_dir rangeI)

text \<open>An empty or missing active segment gets a part of the header, or all of it.\<close>

lemma open_active_effect:
  assumes run: "open_active_segment_file (SegmentName_file_name a) s = (r, s')"
  shows "seg (st_disk s') = seg (st_disk s) \<and> (r = Inr () \<longrightarrow> (\<exists>c. seg (st_disk s) a = Some c \<and> c \<noteq> [])) \<or>
    (seg (st_disk s) a = None \<or> seg (st_disk s) a = Some []) \<and>
    (\<exists>k. seg (st_disk s') = (seg (st_disk s))(a \<mapsto> take k SEGMENT_FORMAT_MAGIC) \<and>
      (r = Inr () \<longrightarrow> take k SEGMENT_FORMAT_MAGIC = SEGMENT_FORMAT_MAGIC))"
    (is "?same s' \<or> ?new s'")
proof -
  let ?f = "SegmentName_file_name a"
  have start: "seg (st_disk s) = (seg (st_disk s))(a \<mapsto> take 0 SEGMENT_FORMAT_MAGIC)" if "seg (st_disk s) a = Some []"
    using that by (simp add: fun_upd_idem)
  from run show ?thesis unfolding open_active_segment_file_def
  proof (cases rule: sbind_cases)
    case (1 e)
    then show ?thesis using sys_open_create_any(1) [OF 1(1)] content_seg by blast
  next
    case (2 u s1)
    note created = sys_open_create_any(1) [OF 2(1)]
    then obtain c where c: "content_at (st_disk s1) ?f = Some c" by auto
    have s1: "seg (st_disk s1) = seg (st_disk s) \<or> seg (st_disk s) a = None \<and> c = [] \<and> seg (st_disk s1) = (seg (st_disk s))(a \<mapsto> [])"
    proof (cases "content_at (st_disk s1) = content_at (st_disk s)")
      case True
      show ?thesis using content_seg [OF True] by simp
    next
      case False
      then have new: "disk_get (st_disk s) ?f = None" "content_at (st_disk s1) = (content_at (st_disk s))(?f \<mapsto> [])"
        using created by auto
      then have "seg (st_disk s) a = None" "c = []" using c by (simp_all add: seg_def content_at_def file_at_def)
      then show ?thesis using seg_content_upd [OF new(2)] by simp
    qed
    show ?thesis
    proof (cases "c = []")
      case False
      then have same: "seg (st_disk s1) = seg (st_disk s)" "s' = s1" using 2(2) c s1 by (auto simp: sret_def)
      then have "seg (st_disk s) a = Some c" using c by (metis seg_def)
      then show ?thesis using same False by (intro disjI1) simp
    next
      case True
      have c1: "content_at (st_disk s1) ?f = Some []" using c True by simp
      have "sys_write_all ?f SEGMENT_FORMAT_MAGIC s1 = (r, s')" using 2(2) c1 by simp
      then obtain fs k where k: "s' = on_disk (append_content ?f (take k SEGMENT_FORMAT_MAGIC)) (set_faults fs s1)"
          "r = Inr () \<Longrightarrow> take k SEGMENT_FORMAT_MAGIC = SEGMENT_FORMAT_MAGIC"
        by (rule sys_write_all_any [OF _ c1]) (simp, rule that)
      have "content_at (st_disk s') = (content_at (st_disk s1))(?f \<mapsto> take k SEGMENT_FORMAT_MAGIC)"
        using append_content_effect(1) [of "(st_disk s1)\<lparr>d_faults := fs\<rparr>" ?f "[]"] c1 by (simp add: k(1))
      from seg_content_upd [OF this] have new: "seg (st_disk s') = (seg (st_disk s))(a \<mapsto> take k SEGMENT_FORMAT_MAGIC)"
        using s1 by auto
      have "seg (st_disk s) a = None \<or> seg (st_disk s) a = Some []" using s1 c1 by (metis seg_def)
      then show ?thesis using new k(2) by blast
    qed
  qed
qed

text \<open>The directory that results when the active segment is empty or new and gets a part of the header.\<close>

lemma header_effect:
  assumes crash: "crash_ok d" and ok': "disk_ok d'" and top: "is_top d a"
    and exists: "seg d a \<noteq> None \<or> (\<forall>n. seg d n = None)" and empty: "seg d a = None \<or> seg d a = Some []"
    and seg': "seg d' = (seg d)(a \<mapsto> take k SEGMENT_FORMAT_MAGIC)"
  shows "crash_ok d'" and "dir_records d' = dir_records d" and "is_top d' a"
    and "take k SEGMENT_FORMAT_MAGIC = SEGMENT_FORMAT_MAGIC \<Longrightarrow> all_clean d'"
proof -
  have ok: "disk_ok d" using crash by (simp add: crash_ok_def)
  have len: "length (take k SEGMENT_FORMAT_MAGIC) \<le> MAX_FILE_LEN"
    by (simp add: SEGMENT_FILE_HEADER_LEN_def MAX_FILE_LEN_def)
  have others: "clean c \<and> length c \<le> MAX_FILE_LEN" if "seg d n = Some c" "n \<noteq> a" for n c
  proof -
    have "n \<le> a" "seg d a \<noteq> None" using top exists that by (auto simp: is_top_def)
    then show ?thesis using crash that unfolding crash_ok_def by (metis order_antisym)
  qed
  show top': "is_top d' a" using top by (simp add: is_top_def seg')
  show "crash_ok d'"
    using ok' len others top' recoverable_header(1) clean_recoverable unfolding crash_ok_def is_top_def seg' by auto
  show "all_clean d'" if "take k SEGMENT_FORMAT_MAGIC = SEGMENT_FORMAT_MAGIC"
    using ok' len others unfolding all_clean_def seg' that by auto
  have "parse_bodies [] = ([], [])" by (simp add: parse_bodies_not_frame)
  then have "seg_records d' n = seg_records d n" for n
    using empty by (auto simp: seg_records_def seg' recoverable_header(2) seg_bodies_def [of "[]"] split: option.splits)
  then show "dir_records d' = dir_records d" by (rule dir_records_cong [OF ok ok'])
qed

text \<open>The writer is opened on the segment, whose length it knows.\<close>

lemma SegmentWriter_open_steps:
  fixes s :: "'x io_state_scheme"
  assumes "SegmentWriter_open a max_len s = (r, s')"
  obtains q s1 where "open_active_segment_file (SegmentName_file_name a) s = (q, s1)" and "seg (st_disk s') = seg (st_disk s1)"
    and "\<And>w. r = Inr w \<Longrightarrow> q = Inr () \<and> w = \<lparr>sw_active_segment = a,
        sw_segment_len = file_len_u64 (st_disk s') (SegmentName_file_name a), sw_max_segment_len = max_len\<rparr>"
proof -
  let ?f = "SegmentName_file_name a"
  define rest :: "bool \<Rightarrow> unit \<Rightarrow> ('x io_state_scheme, SegmentWriter) io" where "rest existed = (\<lambda>_ :: unit. sbind (if existed then sret () else sys_sync_dir) (\<lambda>_.
      sbind (sget (\<lambda>s. file_len_u64 (st_disk s) ?f)) (\<lambda>segment_len.
      sbind (count_metric (segment_opened a segment_len)) (\<lambda>_.
      sret \<lparr>sw_active_segment = a, sw_segment_len = segment_len, sw_max_segment_len = max_len\<rparr>))))" for existed
  have same: "obeys same_content (rest b u)" for b u
    unfolding rest_def by (intro content.bind content.pure content.conditional same_content_sync_dir)
  have val: "w = \<lparr>sw_active_segment = a, sw_segment_len = file_len_u64 (st_disk t') ?f, sw_max_segment_len = max_len\<rparr>"
    if "rest b u t = (Inr w, t')" for b u t t' w
    using that by (auto simp: rest_def result_simps sret_def sget_def count_metric_def smodify_def on_metrics_def split: if_splits)
  have "sbind (open_active_segment_file ?f) (rest (disk_get (st_disk s) ?f \<noteq> None)) s = (r, s')"
    using assms by (simp add: SegmentWriter_open_def Let_def rest_def)
  then show thesis
  proof (cases rule: sbind_cases)
    case (1 e)
    show thesis by (rule that [OF 1(1)]) (simp_all add: 1(2))
  next
    case (2 u s1)
    have "seg (st_disk s') = seg (st_disk s1)"
      using obeysD [OF same 2(2)] by (intro content_seg) (simp add: same_content_def)
    with val 2 show thesis by (intro that [OF 2(1)]) auto
  qed
qed

lemma SegmentWriter_open_effect:
  assumes crash: "crash_ok (st_disk s)" and good: "\<And>n. repaired (st_disk s) n" and top: "is_top (st_disk s) a"
    and exists: "seg (st_disk s) a \<noteq> None \<or> (\<forall>n. seg (st_disk s) n = None)"
    and run: "SegmentWriter_open a max_len s = (r, s')"
  shows "crash_ok (st_disk s')" and "dir_records (st_disk s') = dir_records (st_disk s)"
    and "r = Inr w \<Longrightarrow> all_clean (st_disk s') \<and> sw_active_segment w = a \<and> sw_max_segment_len w = max_len \<and>
      (\<exists>c. seg (st_disk s') a = Some c \<and> sw_segment_len w = of_nat (length c)) \<and> is_top (st_disk s') a"
proof -
  let ?d = "st_disk s" and ?d' = "st_disk s'"
  have ok: "disk_ok ?d" "disk_ok ?d'"
    using crash touch_disk_ok [OF obeysD [OF obeys_open run]] by (auto simp: crash_ok_def)
  obtain q s1 where q: "open_active_segment_file (SegmentName_file_name a) s = (q, s1)" and seg1: "seg ?d' = seg (st_disk s1)"
    and success: "\<And>w. r = Inr w \<Longrightarrow> q = Inr () \<and> w = \<lparr>sw_active_segment = a,
        sw_segment_len = file_len_u64 ?d' (SegmentName_file_name a), sw_max_segment_len = max_len\<rparr>"
    using SegmentWriter_open_steps [OF run] by metis
  have len: "file_len_u64 ?d' (SegmentName_file_name a) = of_nat (length c)" if "seg ?d' a = Some c" for c
    using that by (simp add: file_len_u64_def seg_def)
  consider (same) "seg ?d' = seg ?d" "q = Inr () \<Longrightarrow> \<exists>c. seg ?d a = Some c \<and> c \<noteq> []"
    | (header) k where "seg ?d a = None \<or> seg ?d a = Some []" "seg ?d' = (seg ?d)(a \<mapsto> take k SEGMENT_FORMAT_MAGIC)"
        "q = Inr () \<Longrightarrow> take k SEGMENT_FORMAT_MAGIC = SEGMENT_FORMAT_MAGIC"
    using open_active_effect [OF q] unfolding seg1 by blast
  then have "crash_ok ?d' \<and> dir_records ?d' = dir_records ?d \<and> is_top ?d' a \<and>
      (q = Inr () \<longrightarrow> all_clean ?d' \<and> (\<exists>c. seg ?d' a = Some c))"
  proof cases
    case same
    note eq = same_segments [OF ok same(1)]
    have "clean c" if q: "q = Inr ()" and c: "seg ?d n = Some c" for n c
    proof (rule ccontr)
      assume "\<not> clean c"
      then have "c = []" "a \<le> n" using good [of n] c crash exists by (auto simp: repaired_def crash_ok_def)
      moreover have "n \<le> a" using top c by (simp add: is_top_def)
      ultimately show False using same(2) [OF q] c by auto
    qed
    then have "q = Inr () \<Longrightarrow> all_clean ?d" using crash by (simp add: all_clean_def crash_ok_def)
    then show ?thesis using crash top same(2) by (auto simp: eq is_top_def same(1))
  next
    case header
    note eff = header_effect [OF crash ok(2) top exists header(1,2)]
    show ?thesis using eff header(2,3) by simp
  qed
  note all = this
  show "crash_ok ?d'" and "dir_records ?d' = dir_records ?d" using all by auto
  show "all_clean ?d' \<and> sw_active_segment w = a \<and> sw_max_segment_len w = max_len \<and>
      (\<exists>c. seg ?d' a = Some c \<and> sw_segment_len w = of_nat (length c)) \<and> is_top ?d' a" if "r = Inr w"
    using all success [OF that] len by auto
qed

end
