(* ===== verification/Opening.thy ===== *)
theory Opening
  imports Recovery
begin

text \<open>
  Opening and closing a storage directory for writing: the directory is created when it is missing,
  the lock is taken, the directory is recovered, and the engine that results has the registry and
  the live records that the directory stood for. Whatever system call fails on the way, the
  directory still stands for them and the lock is free again.
\<close>

section \<open>The lock\<close>

lemma lock_flag [simp]:
  "content_at (d\<lparr>d_locked := b\<rparr>) = content_at d" "seg (d\<lparr>d_locked := b\<rparr>) = seg d" "disk_ok (d\<lparr>d_locked := b\<rparr>) = disk_ok d"
  by (simp_all add: fun_eq_iff seg_def content_at_def file_at_def disk_ok_def)

lemma storage_ok_lock: "storage_ok N J d reg idx \<Longrightarrow> storage_ok N J (d\<lparr>d_locked := b\<rparr>) reg idx"
proof -
  assume ok: "storage_ok N J d reg idx"
  note same = same_segments [of d "d\<lparr>d_locked := b\<rparr>", OF storage_ok_disk [OF ok]]
  show ?thesis
    using ok storage_ok_disk [OF ok] unfolding storage_ok_def by (simp add: same registry_stored_def index_stored_def)
qed

lemma stands_for_lock: "stands_for N J d v \<Longrightarrow> stands_for N J (d\<lparr>d_locked := b\<rparr>) v"
proof -
  assume "stands_for N J d v"
  then obtain idx where idx: "storage_ok N J d (v_registry v) idx" and v: "v = view_of N d (v_registry v)"
    by (auto simp: stands_for_def)
  have "disk_ok d" by (rule storage_ok_disk [OF idx])
  then have "view_of N (d\<lparr>d_locked := b\<rparr>) (v_registry v) = v"
    using view_same_segments [of d "d\<lparr>d_locked := b\<rparr>" N] v by simp
  then show ?thesis by (rule stands_for_view [OF storage_ok_lock [OF idx]])
qed

text \<open>Files that are neither segments nor metadata do not matter.\<close>

lemma stands_for_touch:
  assumes "stands_for N J d v" and "touch {WRITE_LOCK_FILE_NAME} d d'"
  shows "stands_for N J d' v"
proof -
  obtain idx where idx: "storage_ok N J d (v_registry v) idx" and v: "v = view_of N d (v_registry v)"
    using assms(1) by (auto simp: stands_for_def)
  have ok: "disk_ok d" "disk_ok d'" using storage_ok_disk [OF idx] touch_disk_ok [OF assms(2)] by auto
  have seg: "seg d' = seg d" by (rule touch_same_segments [OF assms(2)]) simp
  note same = same_segments [OF ok seg]
  have "storage_ok N J d' (v_registry v) idx"
    using idx lock_file_touch [OF _ assms(2)] meta_distinct(7,9) [THEN not_sym]
    by (simp add: storage_ok_def same stored_touch [OF _ assms(2)])
  then show ?thesis by (rule stands_for_view) (simp add: view_same_segments [OF ok seg] v [symmetric])
qed

section \<open>Creating the directory\<close>

definition empty_view :: "'le storage_view" where
  "empty_view = \<lparr>v_registry = [], v_live = (\<lambda>_. [])\<rparr>"

text \<open>A directory that does not exist stands for the empty storage.\<close>

definition at_rest :: "('le, 'lg) noraft \<Rightarrow> 'v nojson \<Rightarrow> Disk \<Rightarrow> 'le storage_view \<Rightarrow> bool" where
  "at_rest N J d v \<longleftrightarrow> stands_for N J d v \<or> d_dir d = Missing \<and> v = empty_view"

lemma empty_directory: "stands_for N J (d\<lparr>d_dir := Directory, d_files := []\<rparr>) empty_view"
proof -
  let ?d = "d\<lparr>d_dir := Directory, d_files := []\<rparr>"
  have none: "disk_get ?d k = None" for k by (simp add: disk_get_def)
  then have seg: "seg ?d n = None" for n by (simp add: seg_def content_at_def file_at_def)
  have ok: "disk_ok ?d" by (simp add: disk_ok_def)
  have "seg_names ?d = []" using seg_names(2) [OF ok] seg by simp
  then have recs: "dir_records ?d = []" by (simp add: dir_records_def)
  have "storage_ok N J ?d [] []"
    using ok seg none by (simp add: storage_ok_def crash_ok_def decodable_def recs registry_stored_def index_stored_def
      registry_ok_def index_ok_def is_active_def)
  then show ?thesis
    by (rule stands_for_view) (simp add: view_of_def empty_view_def is_active_def)
qed

lemma create_dir_effect:
  assumes rest: "at_rest N J (st_disk s) v" and run: "create_dir_all_synced s = (r, s')"
  shows "at_rest N J (st_disk s') v" and "d_locked (st_disk s') = d_locked (st_disk s)"
    and "r = Inr () \<Longrightarrow> stands_for N J (st_disk s') v"
proof -
  have dir: "d_dir (st_disk s) = Directory" if "stands_for N J (st_disk s) v"
    using that by (auto simp: stands_for_def storage_ok_def crash_ok_def disk_ok_def)
  have "at_rest N J (st_disk s') v \<and> d_locked (st_disk s') = d_locked (st_disk s) \<and>
      (r = Inr () \<longrightarrow> stands_for N J (st_disk s') v)"
  proof (cases "d_dir (st_disk s)")
    case Directory
    then have "stands_for N J (st_disk s) v" using rest by (simp add: at_rest_def)
    then show ?thesis using run Directory by (auto simp: create_dir_all_synced_def sret_def at_rest_def)
  next
    case NotDirectory
    then show ?thesis using rest dir by (auto simp: at_rest_def)
  next
    case Missing
    then have v: "v = empty_view" using rest dir by (auto simp: at_rest_def)
    have "sbind (syscall (smodify (on_disk (\<lambda>d. d\<lparr>d_dir := Directory, d_files := []\<rparr>)))) (\<lambda>_. sys_sync_dir) s = (r, s')"
      using run Missing by (simp add: create_dir_all_synced_def)
    then show ?thesis
    proof (cases rule: sbind_cases)
      case (1 e)
      from 1(1) show ?thesis
        by (cases rule: syscall_any) (use v Missing 1(2) in \<open>auto simp: at_rest_def smodify_def\<close>)
    next
      case (2 u s1)
      from 2(1) obtain fs where s1: "st_disk s1 = (st_disk s)\<lparr>d_faults := fs, d_dir := Directory, d_files := []\<rparr>"
        by (cases rule: syscall_any) (auto simp: smodify_def)
      have made: "stands_for N J (st_disk s1) v" using empty_directory [of N J "(st_disk s)\<lparr>d_faults := fs\<rparr>"] s1 v by simp
      have "touch {WRITE_LOCK_FILE_NAME} (st_disk s1) (st_disk s')" by (rule obeysD [OF touch_sync_dir 2(2)])
      then have "stands_for N J (st_disk s') v" "d_locked (st_disk s') = d_locked (st_disk s1)"
        using stands_for_touch [OF made] by (auto simp: touch_def)
      then show ?thesis using s1 by (simp add: at_rest_def)
    qed
  qed
  then show "at_rest N J (st_disk s') v" and "d_locked (st_disk s') = d_locked (st_disk s)"
    and "r = Inr () \<Longrightarrow> stands_for N J (st_disk s') v" by auto
qed

text \<open>Taking the lock fails without it, or succeeds on a directory that nobody had locked.\<close>

lemma acquire_lock_cases:
  assumes "acquire_write_lock s = (r, s')"
  obtains (refused) e where "r = Inl e" and "touch {WRITE_LOCK_FILE_NAME} (st_disk s) (st_disk s')"
  | (taken) d where "r = Inr ()" and "touch {WRITE_LOCK_FILE_NAME} (st_disk s) d" and "\<not> d_locked d"
      and "st_disk s' = d\<lparr>d_locked := True\<rparr>"
  using assms unfolding acquire_write_lock_def
proof (cases rule: sbind_cases)
  case (1 e)
  have "touch {WRITE_LOCK_FILE_NAME} (st_disk s) (st_disk s')" by (rule obeysD [OF touch_sys(4) 1(1)]) simp
  with 1(2) show thesis by (rule refused)
next
  case (2 u s1)
  have touch: "touch {WRITE_LOCK_FILE_NAME} (st_disk s) (st_disk s1)" by (rule obeysD [OF touch_sys(4) 2(1)]) simp
  have faults: "touch {WRITE_LOCK_FILE_NAME} (st_disk s) ((st_disk s1)\<lparr>d_faults := fs\<rparr>)" for fs
    using touch by (simp add: touch_def)
  obtain fs where fs: "next_fault s1 = (Inr None, set_faults fs s1) \<or> (\<exists>k. next_fault s1 = (Inr (Some k), set_faults fs s1))"
    using next_fault_ok [of s1] by (metis option.exhaust)
  then show thesis
    using 2(2) refused [of _] taken [OF _ faults [of fs]] faults [of fs]
    by (auto simp: sys_try_lock_def syscall_def sbind_def smodify_def serr_def sget_def sret_def split: if_splits)
qed

lemma acquire_lock_effect:
  assumes stands: "stands_for N J (st_disk s) v" and run: "acquire_write_lock s = (r, s')"
  shows "stands_for N J (st_disk s') v" and "r \<noteq> Inr () \<Longrightarrow> d_locked (st_disk s') = d_locked (st_disk s)"
    and "r = Inr () \<Longrightarrow> \<not> d_locked (st_disk s) \<and> d_locked (st_disk s')"
proof -
  have "stands_for N J (st_disk s') v \<and> (r \<noteq> Inr () \<longrightarrow> d_locked (st_disk s') = d_locked (st_disk s)) \<and>
      (r = Inr () \<longrightarrow> \<not> d_locked (st_disk s) \<and> d_locked (st_disk s'))"
    using run
  proof (cases rule: acquire_lock_cases)
    case (refused e)
    then show ?thesis using stands_for_touch [OF stands refused(2)] by (simp add: touch_def)
  next
    case (taken d)
    then show ?thesis using stands_for_lock [OF stands_for_touch [OF stands taken(2)], of True] by (simp add: touch_def)
  qed
  then show "stands_for N J (st_disk s') v" and "r \<noteq> Inr () \<Longrightarrow> d_locked (st_disk s') = d_locked (st_disk s)"
    and "r = Inr () \<Longrightarrow> \<not> d_locked (st_disk s) \<and> d_locked (st_disk s')" by auto
qed

section \<open>Recovery under the lock\<close>

text \<open>What keeps the records keeps what the directory stands for.\<close>

lemma storage_ok_records:
  assumes "storage_ok N J d reg idx" and "touch segment_files d d'" and "crash_ok d'" and "dir_records d' = dir_records d"
  shows "storage_ok N J d' reg idx" and "view_of N d' reg = view_of N d reg"
proof -
  have "decodable N d'" "index_ok N d' reg idx"
    using assms(1) by (auto simp: storage_ok_def decodable_def index_ok_def assms(4))
  then show "storage_ok N J d' reg idx" by (rule storage_ok_segments [OF assms(1-3)])
  show "view_of N d' reg = view_of N d reg" by (simp add: view_of_def live_def assms(4) fun_eq_iff)
qed

lemma active_top:
  assumes "disk_ok d"
  shows "is_top d (select_active_append_segment d)"
    and "seg d (select_active_append_segment d) \<noteq> None \<or> (\<forall>n. seg d n = None)"
proof -
  note names = seg_names [OF assms]
  show "is_top d (select_active_append_segment d)"
    unfolding is_top_def
  proof (intro allI impI)
    fix n assume "seg d n \<noteq> None"
    then have n: "n \<in> set (seg_names d)" using names(2) by auto
    then have last: "select_active_append_segment d = last (seg_names d)" by (intro select_active_last [OF assms]) auto
    show "n \<le> select_active_append_segment d"
      using n names(3) unfolding last
      by (cases "seg_names d" rule: rev_cases) (auto simp: sorted_wrt_append less_imp_le)
  qed
  show "seg d (select_active_append_segment d) \<noteq> None \<or> (\<forall>n. seg d n = None)"
  proof (cases "seg_names d = []")
    case True
    then show ?thesis using names(2) by auto
  next
    case False
    then have "select_active_append_segment d \<in> set (seg_names d)" by (simp add: select_active_last [OF assms])
    then show ?thesis using names(2) by auto
  qed
qed

lemma open_locked_steps:
  fixes s :: "'c io_state_scheme"
  assumes "json_laws J" and "open_locked N J m s = (r, s')"
    and loads: "\<forall>d. repairs (st_disk s) d \<longrightarrow> NodeRegistry_load J d = Inr reg \<and> CheckpointIndex_load N J d reg = Inr idx"
    and crash: "crash_ok (st_disk s)"
  obtains (recovery) e where "recover_storage_dir (select_active_append_segment (st_disk s)) s = (Inl e, s')" and "r = Inl e"
  | (writer) s1 g q where "recover_storage_dir (select_active_append_segment (st_disk s)) s = (Inr (), s1)"
      and "SegmentWriter_open (select_active_append_segment (st_disk s)) m (on_metrics g s1) = (q, s')"
      and "r = rbind q (\<lambda>w. Inr (reg, idx, w))"
proof -
  let ?a = "select_active_append_segment (st_disk s)"
  obtain q s1 where q: "recover_storage_dir ?a s = (q, s1)" by fastforce
  show thesis
  proof (cases q)
    case (Inl e)
    then show thesis using assms(2) q recovery by (simp add: open_locked_def)
  next
    case (Inr u)
    have ld: "NodeRegistry_load J (st_disk s1) = Inr reg" "CheckpointIndex_load N J (st_disk s1) reg = Inr idx"
      using loads recover_effect(1) [OF crash q] by auto
    let ?g = "\<lambda>x. checkpoint_index_loaded (of_nat (length idx))
       (registry_loaded (of_nat (active_node_count reg)) (of_nat (removed_node_count reg)) x)"
    obtain q' s2 where q': "SegmentWriter_open ?a m (on_metrics ?g s1) = (q', s2)" by fastforce
    have comp: "on_metrics f (on_metrics g t) = on_metrics (\<lambda>x. f (g x)) t" for f g and t :: "'c io_state_scheme"
      by (simp add: on_metrics_def)
    have "sbind (SegmentWriter_open ?a m) (\<lambda>w. sret (reg, idx, w)) (on_metrics ?g s1) = (r, s')"
      using assms(2) q ld Inr by (simp add: open_locked_def count_metric_def comp)
    then have "(r, s') = (rbind q' (\<lambda>w. Inr (reg, idx, w)), s2)"
      using q' by (cases q') (auto simp: sret_def)
    then show thesis using writer [of s1 ?g q'] q q' Inr by simp
  qed
qed

text \<open>What the repairs leave loads as before.\<close>

lemma repairs_storage:
  assumes "storage_ok N J d reg idx" and "repairs d d'"
  shows "storage_ok N J d' reg idx" and "view_of N d' reg = view_of N d reg"
proof -
  have "crash_ok d" using assms(1) by (simp add: storage_ok_def)
  then show "storage_ok N J d' reg idx" "view_of N d' reg = view_of N d reg"
    using storage_ok_records [OF assms(1) repairsD(3) [OF assms(2)] repairs_records [OF assms(2)]] by simp_all
qed

lemma storage_loads:
  assumes "json_laws J" and "storage_ok N J d reg idx"
  shows "\<forall>d'. repairs d d' \<longrightarrow> NodeRegistry_load J d' = Inr reg \<and> CheckpointIndex_load N J d' reg = Inr (active_entries reg idx)"
  using repairs_storage(1) [OF assms(2)]
  by (simp add: CheckpointIndex_load_stored [OF assms(1)] NodeRegistry_load_stored [OF assms(1)] storage_ok_def)

text \<open>The active segment of a repaired directory was opened: the engine is well-formed.\<close>

lemma opened_active:
  assumes store: "storage_ok N J (st_disk s) reg idx" and lock: "d_locked (st_disk s)"
    and good: "\<And>n. repaired (st_disk s) n"
    and top: "is_top (st_disk s) a" "seg (st_disk s) a \<noteq> None \<or> (\<forall>n. seg (st_disk s) n = None)"
    and run: "SegmentWriter_open a m s = (q, s')"
  shows "storage_ok N J (st_disk s') reg idx" and "view_of N (st_disk s') reg = view_of N (st_disk s) reg"
    and "q = Inr w \<Longrightarrow> sw_max_segment_len w = m \<and> engine_ok N J
      \<lparr>st_disk = st_disk s', st_metrics = mm, st_writer = w, st_registry = reg, st_index = active_entries reg idx\<rparr>"
proof -
  have crash: "crash_ok (st_disk s)" using store by (simp add: storage_ok_def)
  have touch: "touch segment_files (st_disk s) (st_disk s')" by (rule obeysD [OF obeys_open run])
  note eff = SegmentWriter_open_effect [OF crash good top run]
  show store': "storage_ok N J (st_disk s') reg idx" and "view_of N (st_disk s') reg = view_of N (st_disk s) reg"
    using storage_ok_records [OF store touch eff(1,2)] by auto
  show "sw_max_segment_len w = m \<and> engine_ok N J
      \<lparr>st_disk = st_disk s', st_metrics = mm, st_writer = w, st_registry = reg, st_index = active_entries reg idx\<rparr>" (is "_ \<and> engine_ok N J ?e")
    if "q = Inr w"
  proof -
    note w = eff(3) [OF that]
    obtain c where c: "seg (st_disk s') a = Some c" "sw_segment_len w = of_nat (length c)" using w by blast
    then have len: "clean c" "length c \<le> MAX_FILE_LEN" using w by (auto simp: all_clean_def)
    then have "unat (of_nat (length c) :: u64) = length c" by (simp add: unat_of_nat MAX_FILE_LEN_def)
    then have "writer_ok ?e"
      using w c clean_length [OF len(1)] by (auto simp: writer_ok_def all_clean_def is_top_def)
    moreover have "d_locked (st_disk s')" using lock touch by (simp add: touch_def)
    ultimately show ?thesis using w store' by (auto simp: engine_ok_def)
  qed
qed

lemma open_locked_effect:
  assumes json: "json_laws J" and stands: "stands_for N J (st_disk s) v" and lock: "d_locked (st_disk s)"
    and run: "open_locked N J m s = (r, s')"
  shows "stands_for N J (st_disk s') v"
    and "r = Inr (reg, idx, w) \<Longrightarrow> sw_max_segment_len w = m \<and>
      engine_ok N J \<lparr>st_disk = st_disk s', st_metrics = mm, st_writer = w, st_registry = reg, st_index = idx\<rparr> \<and>
      view_of N (st_disk s') reg = v"
proof -
  let ?a = "select_active_append_segment (st_disk s)"
  obtain idx0 where store: "storage_ok N J (st_disk s) (v_registry v) idx0" and v: "view_of N (st_disk s) (v_registry v) = v"
    using stands by (auto simp: stands_for_def)
  have crash: "crash_ok (st_disk s)" using store by (simp add: storage_ok_def)
  have "stands_for N J (st_disk s') v \<and> (r = Inr (reg, idx, w) \<longrightarrow> sw_max_segment_len w = m \<and>
      engine_ok N J \<lparr>st_disk = st_disk s', st_metrics = mm, st_writer = w, st_registry = reg, st_index = idx\<rparr> \<and>
      view_of N (st_disk s') reg = v)"
    using json run storage_loads [OF json store] crash
  proof (cases rule: open_locked_steps)
    case (recovery e)
    then show ?thesis using repairs_storage [OF store recover_effect(1) [OF crash recovery(1)]] v by (auto intro: stands_for_view)
  next
    case (writer s1 g q)
    have reps: "repairs (st_disk s) (st_disk (on_metrics g s1))" using recover_effect(1) [OF crash writer(1)] by simp
    note rep = repairs_storage [OF store reps]
    have lock1: "d_locked (st_disk (on_metrics g s1))" using lock repairsD(3) [OF reps] by (simp add: touch_def)
    have good: "repaired (st_disk (on_metrics g s1)) n" for n using recover_effect(2) [OF crash writer(1)] by simp
    have ok: "disk_ok (st_disk s)" using crash by (simp add: crash_ok_def)
    have top: "is_top (st_disk (on_metrics g s1)) ?a"
      "seg (st_disk (on_metrics g s1)) ?a \<noteq> None \<or> (\<forall>n. seg (st_disk (on_metrics g s1)) n = None)"
      using active_top [OF ok] repairsD(1) [OF reps] by (auto simp: is_top_def)
    note opened = opened_active [OF rep(1) lock1 good top writer(2)]
    have "stands_for N J (st_disk s') v" using opened(1,2) rep(2) v by (auto intro: stands_for_view)
    moreover have "sw_max_segment_len w = m \<and>
        engine_ok N J \<lparr>st_disk = st_disk s', st_metrics = mm, st_writer = w, st_registry = reg, st_index = idx\<rparr> \<and>
        view_of N (st_disk s') reg = v" if "r = Inr (reg, idx, w)"
    proof -
      have "q = Inr w" "reg = v_registry v" "idx = active_entries (v_registry v) idx0" using writer(3) that by (cases q; simp)+
      then show ?thesis using opened(2,3) rep(2) v by simp
    qed
    ultimately show ?thesis by blast
  qed
  then show "stands_for N J (st_disk s') v" and "r = Inr (reg, idx, w) \<Longrightarrow> sw_max_segment_len w = m \<and>
      engine_ok N J \<lparr>st_disk = st_disk s', st_metrics = mm, st_writer = w, st_registry = reg, st_index = idx\<rparr> \<and>
      view_of N (st_disk s') reg = v" by auto
qed

section \<open>Opening and closing\<close>

text \<open>Until the lock is taken, the directory may have been created.\<close>

lemma start_effect:
  assumes rest: "at_rest N J (st_disk s) v" and run: "sbind create_dir_all_synced (\<lambda>_. acquire_write_lock) s = (q, s')"
  shows "at_rest N J (st_disk s') v" and "q \<noteq> Inr () \<Longrightarrow> d_locked (st_disk s') = d_locked (st_disk s)"
    and "q = Inr () \<Longrightarrow> stands_for N J (st_disk s') v \<and> \<not> d_locked (st_disk s) \<and> d_locked (st_disk s')"
proof -
  have "at_rest N J (st_disk s') v \<and> (q \<noteq> Inr () \<longrightarrow> d_locked (st_disk s') = d_locked (st_disk s)) \<and>
      (q = Inr () \<longrightarrow> stands_for N J (st_disk s') v \<and> \<not> d_locked (st_disk s) \<and> d_locked (st_disk s'))"
    using run
  proof (cases rule: sbind_cases)
    case (1 e)
    then show ?thesis using create_dir_effect [OF rest 1(1)] by simp
  next
    case (2 u t)
    note made = create_dir_effect [OF rest 2(1)]
    then have "stands_for N J (st_disk t) v" by simp
    from acquire_lock_effect [OF this 2(2)] show ?thesis using made(2) by (auto simp: at_rest_def)
  qed
  then show "at_rest N J (st_disk s') v" and "q \<noteq> Inr () \<Longrightarrow> d_locked (st_disk s') = d_locked (st_disk s)"
    and "q = Inr () \<Longrightarrow> stands_for N J (st_disk s') v \<and> \<not> d_locked (st_disk s) \<and> d_locked (st_disk s')" by auto
qed

lemma with_max_segment_len_effect:
  assumes json: "json_laws J" and rest: "at_rest N J d v" and run: "with_max_segment_len N J m d = (r, d')"
  shows "at_rest N J d' v" and "r = Inl e \<Longrightarrow> d_locked d' = d_locked d"
    and "r = Inr s \<Longrightarrow> \<not> d_locked d \<and> st_disk s = d' \<and> engine_ok N J s \<and> engine_view N s = v \<and>
      sw_max_segment_len (st_writer s) = m"
proof -
  let ?s = "\<lparr>st_disk = d, st_metrics = StorageMetrics_default\<rparr>"
  obtain q s1 where q: "sbind create_dir_all_synced (\<lambda>_. acquire_write_lock) ?s = (q, s1)" by fastforce
  note start = start_effect [OF _ q, of N J v, simplified, OF rest]
  obtain q' s2 where q': "open_locked N J m s1 = (q', s2)" by fastforce
  note run' = run [unfolded with_max_segment_len_def Let_def q]
  have "at_rest N J d' v \<and> (r = Inl e \<longrightarrow> d_locked d' = d_locked d) \<and>
    (r = Inr s \<longrightarrow> \<not> d_locked d \<and> st_disk s = d' \<and> engine_ok N J s \<and> engine_view N s = v \<and> sw_max_segment_len (st_writer s) = m)"
  proof (cases "m = 0 \<or> q \<noteq> Inr ()")
    case True
    then show ?thesis using run' start(1,2) rest by (cases q) (auto split: if_splits)
  next
    case False
    then have locked: "stands_for N J (st_disk s1) v" "\<not> d_locked d" "d_locked (st_disk s1)" using start(3) by auto
    note eff = open_locked_effect [OF json locked(1,3) q']
    show ?thesis
    proof (cases q')
      case (Inl e)
      then show ?thesis
        using run' False Inl q' stands_for_lock [OF eff(1)] locked(2) by (auto simp: release_lock_def at_rest_def)
    next
      case (Inr x)
      obtain reg idx w where x: "x = (reg, idx, w)" by (cases x)
      then show ?thesis
        using run' False Inr q' eff(1) eff(2) [of reg idx w "st_metrics s2"] locked(2)
        by (auto simp: at_rest_def engine_view_def)
    qed
  qed
  then show "at_rest N J d' v" and "r = Inl e \<Longrightarrow> d_locked d' = d_locked d"
    and "r = Inr s \<Longrightarrow> \<not> d_locked d \<and> st_disk s = d' \<and> engine_ok N J s \<and> engine_view N s = v \<and>
      sw_max_segment_len (st_writer s) = m" by auto
qed

section \<open>Opening succeeds\<close>

text \<open>No entry that is not a regular file has the name of a segment.\<close>

definition plain :: "Disk \<Rightarrow> bool" where
  "plain d \<longleftrightarrow> (\<forall>n. disk_get d (SegmentName_file_name n) \<noteq> Some OtherEntry)"

lemma plain_touch: "touch X d d' \<Longrightarrow> plain d \<Longrightarrow> plain d'"
  by (auto simp: touch_def plain_def)

lemma calmly_open_create:
  "d_faults (st_disk s) = [] \<Longrightarrow> disk_get (st_disk s) name \<noteq> Some OtherEntry \<Longrightarrow> sys_open_create name s = (r, s') \<Longrightarrow>
     r = Inr () \<and> d_faults (st_disk s') = []"
  by (auto simp: sys_open_create_def calmly_syscall smodify_def sret_def split: option.splits dirent.splits)

lemma calmly_sync_dir: "d_faults (st_disk s) = [] \<Longrightarrow> sys_sync_dir s = (Inr (), s)"
  by (simp add: sys_sync_dir_def calmly_syscall sret_def)

lemma calmly_SegmentWriter_open:
  assumes calm: "d_faults (st_disk s) = []" and plain: "plain (st_disk s)"
  shows "\<exists>w s'. SegmentWriter_open a m s = (Inr w, s') \<and> d_faults (st_disk s') = []"
proof -
  let ?f = "SegmentName_file_name a"
  obtain q s1 where q: "sys_open_create ?f s = (q, s1)" by fastforce
  then have s1: "q = Inr ()" "d_faults (st_disk s1) = []"
    using calmly_open_create [OF calm _ q] plain by (auto simp: plain_def)
  have c: "content_at (st_disk s1) ?f \<noteq> None" using sys_open_create_any(1) [OF q] s1(1) by auto
  obtain s2 where s2: "open_active_segment_file ?f s = (Inr (), s2)" "d_faults (st_disk s2) = []"
  proof (cases "content_at (st_disk s1) ?f = Some []")
    case True
    then have "sys_write_all ?f SEGMENT_FORMAT_MAGIC s1 = (Inr (), on_disk (append_content ?f SEGMENT_FORMAT_MAGIC) s1)"
      using s1(2) by (simp add: sys_write_all_def next_fault_def smodify_def MAX_FILE_LEN_def SEGMENT_FILE_HEADER_LEN_def)
    then show thesis using that q s1 True by (simp add: open_active_segment_file_def)
  next
    case False
    then show thesis using that q s1 by (simp add: open_active_segment_file_def sret_def)
  qed
  then show ?thesis
    by (simp add: SegmentWriter_open_def Let_def calmly_sync_dir count_metric_def sret_def)
qed

lemma calmly_start:
  assumes "at_rest N J (st_disk s) v" and "d_faults (st_disk s) = []" and "\<not> d_locked (st_disk s)" and "plain (st_disk s)"
  obtains s' where "sbind create_dir_all_synced (\<lambda>_. acquire_write_lock) s = (Inr (), s')"
    and "d_faults (st_disk s') = []" and "plain (st_disk s')"
proof -
  have dir: "d_dir (st_disk s) = Directory \<and> disk_get (st_disk s) WRITE_LOCK_FILE_NAME \<noteq> Some OtherEntry"
    if "stands_for N J (st_disk s) v"
    using that by (auto simp: stands_for_def storage_ok_def crash_ok_def disk_ok_def)
  obtain s1 where s1: "create_dir_all_synced s = (Inr (), s1)" "d_faults (st_disk s1) = []" "\<not> d_locked (st_disk s1)"
    "plain (st_disk s1)" "disk_get (st_disk s1) WRITE_LOCK_FILE_NAME \<noteq> Some OtherEntry"
  proof (cases "d_dir (st_disk s)")
    case Missing
    let ?make = "\<lambda>d. d\<lparr>d_dir := Directory, d_files := []\<rparr>"
    have "syscall (smodify (on_disk ?make)) s = (Inr (), on_disk ?make s)"
      using assms(2) by (simp add: calmly_syscall smodify_def)
    then have "create_dir_all_synced s = (Inr (), on_disk ?make s)"
      using Missing assms(2) by (simp add: create_dir_all_synced_def calmly_sync_dir)
    then show thesis by (rule that) (use assms in \<open>simp_all add: plain_def disk_get_def\<close>)
  next
    case Directory
    then show thesis using that assms dir by (auto simp: create_dir_all_synced_def sret_def at_rest_def)
  qed (use assms(1) dir in \<open>auto simp: at_rest_def\<close>)
  obtain q s2 where q: "sys_open_create WRITE_LOCK_FILE_NAME s1 = (q, s2)" by fastforce
  have s2: "q = Inr ()" "d_faults (st_disk s2) = []" using calmly_open_create [OF s1(2,5) q] by auto
  have touch: "touch {WRITE_LOCK_FILE_NAME} (st_disk s1) (st_disk s2)" by (rule obeysD [OF touch_sys(4) q]) simp
  then have "\<not> d_locked (st_disk s2)" "plain (st_disk s2)" using s1(3) plain_touch [OF touch s1(4)] by (auto simp: touch_def)
  then show thesis
    using that s1(1) q s2 by (simp add: acquire_write_lock_def sys_try_lock_def calmly_syscall smodify_def sret_def plain_def)
qed

lemma calmly_open_locked:
  assumes json: "json_laws J" and stands: "stands_for N J (st_disk s) v" and calm: "d_faults (st_disk s) = []"
    and plain: "plain (st_disk s)"
  shows "\<exists>x s'. open_locked N J m s = (Inr x, s') \<and> d_faults (st_disk s') = []"
proof -
  let ?d = "st_disk s" and ?a = "select_active_append_segment (st_disk s)"
  obtain idx0 where store: "storage_ok N J ?d (v_registry v) idx0" using stands by (auto simp: stands_for_def)
  have crash: "crash_ok ?d" using store by (simp add: storage_ok_def)
  obtain r s' where run: "open_locked N J m s = (r, s')" by fastforce
  show ?thesis
    using json run storage_loads [OF json store] crash
  proof (cases rule: open_locked_steps)
    case (recovery e)
    then show ?thesis using recover_effect(3) [OF crash recovery(1)] calm by (simp add: calmly_def)
  next
    case (writer s1 g q)
    have "d_faults (st_disk s1) = []" using recover_effect(3) [OF crash writer(1)] calm by (simp add: calmly_def)
    moreover have "plain (st_disk s1)"
      using plain_touch [OF repairsD(3) [OF recover_effect(1) [OF crash writer(1)]] plain] .
    ultimately show ?thesis
      using calmly_SegmentWriter_open [of "on_metrics g s1" ?a m] writer(2,3) run by auto
  qed
qed

lemma with_max_segment_len_succeeds:
  assumes "json_laws J" and "at_rest N J d v" and "\<not> d_locked d" and "d_faults d = []" and "plain d" and "m \<noteq> 0"
  obtains s where "with_max_segment_len N J m d = (Inr s, st_disk s)" and "d_faults (st_disk s) = []"
proof -
  let ?s = "\<lparr>st_disk = d, st_metrics = StorageMetrics_default\<rparr>"
  have rest: "at_rest N J (st_disk ?s) v" using assms(2) by simp
  obtain s1 where start: "sbind create_dir_all_synced (\<lambda>_. acquire_write_lock) ?s = (Inr (), s1)"
    and s1: "d_faults (st_disk s1) = []" "plain (st_disk s1)"
    using calmly_start [OF rest] assms(3-5) by auto
  have stands: "stands_for N J (st_disk s1) v" using start_effect(3) [OF rest start] by simp
  obtain x s2 where x: "open_locked N J m s1 = (Inr x, s2)" "d_faults (st_disk s2) = []"
    using calmly_open_locked [OF assms(1) stands s1] by blast
  then show thesis
    using that [of "\<lparr>st_disk = st_disk s2, st_metrics = st_metrics s2, st_writer = snd (snd x),
        st_registry = fst x, st_index = fst (snd x)\<rparr>"] assms(6) start
    by (cases x) (simp add: with_max_segment_len_def)
qed

end
