(* ===== verification/System.thy ===== *)
theory System
  imports Opening
begin

text \<open>
  A storage directory over its life: engines are opened on it, run commands, fail or are closed, and
  other processes try to open it meanwhile. The step relation has one rule for each of these; the
  abstract system is the registry with the live records of its active nodes, which only commands
  change. \<open>represents\<close> relates the two.
\<close>

section \<open>Commands\<close>

datatype 'le command =
    CmdCreateNode NodeId NodeMetadata
  | CmdRemoveNode NodeId
  | CmdSaveCurrentTerm NodeId Term
  | CmdSaveVotedFor NodeId "NodeId option"
  | CmdAppendEntries NodeId "'le LogAppend"
  | CmdSaveSnapshot NodeId "'le SnapshotCheckpoint"
  | CmdSync

text \<open>The values that callers can build: ordered maps and sets, and metadata that is JSON text without
  spaces around the value, so that a reader of the registry file gets the same text back.\<close>

fun command_wf :: "('le, 'lg) noraft \<Rightarrow> 'v nojson \<Rightarrow> 'le command \<Rightarrow> bool" where
  "command_wf N J (CmdCreateNode n meta) \<longleftrightarrow> raw_ok J (nm_metadata meta)"
| "command_wf N J (CmdAppendEntries n a) \<longleftrightarrow> record_wf N (Append a)"
| "command_wf N J (CmdSaveSnapshot n c) \<longleftrightarrow> record_wf N (Checkpoint c)"
| "command_wf N J _ \<longleftrightarrow> True"

primrec run_command :: "('le, 'lg) noraft \<Rightarrow> 'v nojson \<Rightarrow> 'le command \<Rightarrow> (engine, unit) io" where
  "run_command N J (CmdCreateNode n meta) = create_node N J n meta"
| "run_command N J (CmdRemoveNode n) = remove_node J n"
| "run_command N J (CmdSaveCurrentTerm n t) = save_current_term N n t"
| "run_command N J (CmdSaveVotedFor n v) = save_voted_for N n v"
| "run_command N J (CmdAppendEntries n a) = append_entries N n a"
| "run_command N J (CmdSaveSnapshot n c) = save_snapshot N J n c"
| "run_command N J CmdSync = Engine_sync"

text \<open>What a command means for the abstract storage, and when it is allowed.\<close>

primrec view_command :: "('le, 'lg) noraft \<Rightarrow> 'le command \<Rightarrow> 'le storage_view \<Rightarrow> 'le storage_view" where
  "view_command N (CmdCreateNode n meta) v = view_create N n meta v"
| "view_command N (CmdRemoveNode n) v = view_remove n v"
| "view_command N (CmdSaveCurrentTerm n t) v = view_append n (CurrentTerm t) v"
| "view_command N (CmdSaveVotedFor n x) v = view_append n (VotedFor x) v"
| "view_command N (CmdAppendEntries n a) v = view_append n (Append a) v"
| "view_command N (CmdSaveSnapshot n c) v = view_append n (Checkpoint c) v"
| "view_command N CmdSync v = v"

primrec command_allowed :: "NodeRegistry \<Rightarrow> 'le command \<Rightarrow> bool" where
  "command_allowed reg (CmdCreateNode n meta) \<longleftrightarrow> bt_get reg n = None"
| "command_allowed reg (CmdRemoveNode n) \<longleftrightarrow> is_active reg n"
| "command_allowed reg (CmdSaveCurrentTerm n t) \<longleftrightarrow> is_active reg n"
| "command_allowed reg (CmdSaveVotedFor n v) \<longleftrightarrow> is_active reg n"
| "command_allowed reg (CmdAppendEntries n a) \<longleftrightarrow> is_active reg n"
| "command_allowed reg (CmdSaveSnapshot n c) \<longleftrightarrow> is_active reg n"
| "command_allowed reg CmdSync \<longleftrightarrow> True"

section \<open>Rejections\<close>

definition access_error :: "NodeRegistry \<Rightarrow> NodeId \<Rightarrow> io_error" where
  "access_error reg n = (if is_removed reg n then node_removed_error else node_not_found_error)"

definition access_error_kind :: "NodeRegistry \<Rightarrow> NodeId \<Rightarrow> NodeAccessErrorKind" where
  "access_error_kind reg n = (if is_removed reg n then RemovedNode else UnknownNode)"

lemma ensure_rejects:
  "\<not> is_active (st_registry s) n \<Longrightarrow> Engine_ensure_node_exists n op s =
     (Inl (access_error (st_registry s) n), on_metrics (rejected_operation op (access_error_kind (st_registry s) n)) s)"
  by (simp add: Engine_ensure_node_exists_def access_error_def access_error_kind_def count_metric_def smodify_def serr_def)

lemma rejects_inactive:
  assumes "\<not> is_active (st_registry s) n"
  shows "Engine_load N n s = (Inl (access_error (st_registry s) n), on_metrics (rejected_operation OpLoad (access_error_kind (st_registry s) n)) s)"
    and "save_record N n r op s = (Inl (access_error (st_registry s) n), on_metrics (rejected_operation op (access_error_kind (st_registry s) n)) s)"
    and "save_snapshot N J n c s = (Inl (access_error (st_registry s) n), on_metrics (rejected_operation OpSaveSnapshot (access_error_kind (st_registry s) n)) s)"
    and "remove_node J n s = (Inl (access_error (st_registry s) n), on_metrics (rejected_operation OpRemoveNode (access_error_kind (st_registry s) n)) s)"
  by (simp_all add: Engine_load_def save_record_def save_snapshot_def remove_node_def ensure_rejects [OF assms])

lemma create_rejects:
  "bt_get (st_registry s) n = Some e \<Longrightarrow> create_node N J n meta s = (Inl node_already_exists_error, s)"
  by (simp add: create_node_def Registry_create_node_def slift_def)

text \<open>The engine as it was, apart from other counters than those of pending appends.\<close>

definition as_it_was :: "engine \<Rightarrow> engine \<Rightarrow> bool" where
  "as_it_was s s' \<longleftrightarrow> st_disk s' = st_disk s \<and> io_state.more s' = io_state.more s \<and>
     unsynced (st_metrics s') = unsynced (st_metrics s)"

lemma command_disallowed:
  assumes "\<not> command_allowed (st_registry s) cmd" and "run_command N J cmd s = (r, s')"
  shows "r \<noteq> Inr ()" and "as_it_was s s'"
  using assms
  by (cases cmd; auto simp: as_it_was_def create_rejects rejects_inactive save_current_term_def save_voted_for_def append_entries_def)+

section \<open>One command\<close>

lemma initial_checkpoint_wf: "noraft_laws N \<Longrightarrow> record_wf N (Checkpoint (initial_checkpoint N))"
  using noraft_lawsD(1) [of N]
  by (simp add: checkpoint_wf_def initial_checkpoint_def append_wf_def entries_wf_def config_wf_def ClusterConfig_new_def
      entries_laws_def)

lemma run_command_outcome:
  assumes laws: "noraft_laws N" and wf: "command_wf N J cmd" and ok: "engine_ok N J s"
    and run: "run_command N J cmd s = (r, s')"
  shows "outcome N J s (view_command N cmd (engine_view N s)) r s'"
proof (cases cmd)
  case (CmdCreateNode n meta)
  then show ?thesis
    using create_node_effect [OF laws _ initial_checkpoint_wf [OF laws] ok, of meta n r s'] wf run by simp
next
  case (CmdRemoveNode n)
  then show ?thesis using remove_node_effect [OF ok, of n r s'] run by simp
next
  case (CmdSaveCurrentTerm n t)
  then show ?thesis
    using save_record_effect [OF laws _ ok, of "CurrentTerm t" n OpSaveCurrentTerm r s'] run by (simp add: save_current_term_def)
next
  case (CmdSaveVotedFor n x)
  then show ?thesis
    using save_record_effect [OF laws _ ok, of "VotedFor x" n OpSaveVotedFor r s'] run by (simp add: save_voted_for_def)
next
  case (CmdAppendEntries n a)
  then show ?thesis
    using save_record_effect [OF laws _ ok, of "Append a" n OpAppendEntries r s'] wf run by (simp add: append_entries_def)
next
  case (CmdSaveSnapshot n c)
  then show ?thesis using save_snapshot_effect [OF laws _ ok, of c n r s'] wf run by simp
next
  case CmdSync
  then show ?thesis using Engine_sync_effect [OF ok, of r s'] run by (simp add: outcome_def)
qed

lemma run_command_effect:
  assumes laws: "noraft_laws N" and wf: "command_wf N J cmd" and ok: "engine_ok N J s"
    and run: "run_command N J cmd s = (r, s')"
  shows "stands_for N J (st_disk s') (engine_view N s) \<or>
      command_allowed (st_registry s) cmd \<and> stands_for N J (st_disk s') (view_command N cmd (engine_view N s))"
    and "r = Inr () \<Longrightarrow> command_allowed (st_registry s) cmd \<and> engine_ok N J s' \<and>
      engine_view N s' = view_command N cmd (engine_view N s)"
proof -
  have "r \<noteq> Inr () \<and> stands_for N J (st_disk s') (engine_view N s)" if "\<not> command_allowed (st_registry s) cmd"
    using command_disallowed [OF that run] engine_stands [OF ok] by (simp add: as_it_was_def)
  then show "stands_for N J (st_disk s') (engine_view N s) \<or>
      command_allowed (st_registry s) cmd \<and> stands_for N J (st_disk s') (view_command N cmd (engine_view N s))"
    and "r = Inr () \<Longrightarrow> command_allowed (st_registry s) cmd \<and> engine_ok N J s' \<and>
      engine_view N s' = view_command N cmd (engine_view N s)"
    using outcomeD [OF run_command_outcome [OF assms]] by blast+
qed

section \<open>The system\<close>

datatype system = Up engine | Down Disk

text \<open>
  A caller may go on after an error that left the engine as it was, for instance a rejection; any
  other error is fatal to the engine, and so is the end of its process at any time.
\<close>

inductive system_step :: "('le, 'lg) noraft \<Rightarrow> 'v nojson \<Rightarrow> system \<Rightarrow> system \<Rightarrow> bool"
  for N :: "('le, 'lg) noraft" and J :: "'v nojson" where
  opened: "with_max_segment_len N J m d = (Inr s, d') \<Longrightarrow> system_step N J (Down d) (Up s)"
| not_opened: "with_max_segment_len N J m d = (Inl e, d') \<Longrightarrow> system_step N J (Down d) (Down d')"
| contended: "with_max_segment_len N J m (st_disk s) = (Inl e, d') \<Longrightarrow> system_step N J (Up s) (Up (s\<lparr>st_disk := d'\<rparr>))"
| performed: "command_wf N J cmd \<Longrightarrow> run_command N J cmd s = (Inr (), s') \<Longrightarrow> system_step N J (Up s) (Up s')"
| rejected: "command_wf N J cmd \<Longrightarrow> run_command N J cmd s = (Inl e, s') \<Longrightarrow> as_it_was s s' \<Longrightarrow>
    system_step N J (Up s) (Up s')"
| failed: "command_wf N J cmd \<Longrightarrow> run_command N J cmd s = (Inl e, s') \<Longrightarrow> system_step N J (Up s) (Down (close_engine s'))"
| loaded: "Engine_load N n s = (x, s') \<Longrightarrow> system_step N J (Up s) (Up s')"
| loaded_all: "Engine_load_all N s = (y, s') \<Longrightarrow> system_step N J (Up s) (Up s')"
| closed: "system_step N J (Up s) (Down (close_engine s))"

inductive_cases system_step_Up: "system_step N J (Up s) sys"
inductive_cases system_step_Down: "system_step N J (Down d) sys"
inductive_simps opens_iff: "system_step N J (Down d) (Up s)"

text \<open>The abstract system.\<close>

inductive view_step :: "('le, 'lg) noraft \<Rightarrow> 'v nojson \<Rightarrow> 'le storage_view \<Rightarrow> 'le storage_view \<Rightarrow> bool"
  for N :: "('le, 'lg) noraft" and J :: "'v nojson" where
  stutter: "view_step N J v v"
| command: "command_wf N J cmd \<Longrightarrow> command_allowed (v_registry v) cmd \<Longrightarrow> view_step N J v (view_command N cmd v)"

fun represents :: "('le, 'lg) noraft \<Rightarrow> 'v nojson \<Rightarrow> system \<Rightarrow> 'le storage_view \<Rightarrow> bool" where
  "represents N J (Up s) v \<longleftrightarrow> engine_ok N J s \<and> engine_view N s = v"
| "represents N J (Down d) v \<longleftrightarrow> at_rest N J d v \<and> \<not> d_locked d"

section \<open>A second opener\<close>

lemma locked_start:
  assumes "sbind create_dir_all_synced (\<lambda>_. acquire_write_lock) s = (r, s')" and "d_dir (st_disk s) = Directory"
    and "d_locked (st_disk s)"
  shows "\<exists>e. r = Inl e" and "touch {WRITE_LOCK_FILE_NAME} (st_disk s) (st_disk s')"
    and "d_faults (st_disk s) = [] \<Longrightarrow> disk_get (st_disk s) WRITE_LOCK_FILE_NAME \<noteq> Some OtherEntry \<Longrightarrow>
      r = Inl (IoError WouldBlock ''storage directory is already open for writing'')"
proof -
  have "create_dir_all_synced s = (Inr (), s)" using assms(2) by (simp add: create_dir_all_synced_def sret_def)
  then have run: "acquire_write_lock s = (r, s')" using assms(1) by simp
  have refused: "(\<exists>e. r = Inl e) \<and> touch {WRITE_LOCK_FILE_NAME} (st_disk s) (st_disk s')"
    using run
  proof (cases rule: acquire_lock_cases)
    case (taken d)
    then show ?thesis using assms(3) by (simp add: touch_def)
  qed simp
  have "r = Inl (IoError WouldBlock ''storage directory is already open for writing'')"
    if calm: "d_faults (st_disk s) = []" "disk_get (st_disk s) WRITE_LOCK_FILE_NAME \<noteq> Some OtherEntry"
  proof -
    obtain q s1 where q: "sys_open_create WRITE_LOCK_FILE_NAME s = (q, s1)" by fastforce
    have "touch {WRITE_LOCK_FILE_NAME} (st_disk s) (st_disk s1)" by (rule obeysD [OF touch_sys(4) q]) simp
    then have "d_locked (st_disk s1)" using assms(3) by (simp add: touch_def)
    then show ?thesis
      using run q calmly_open_create [OF calm q]
      by (auto simp: acquire_write_lock_def sys_try_lock_def sbind_def sget_def calmly_syscall sret_def serr_def)
  qed
  then show "\<exists>e. r = Inl e" and "touch {WRITE_LOCK_FILE_NAME} (st_disk s) (st_disk s')"
    and "d_faults (st_disk s) = [] \<Longrightarrow> disk_get (st_disk s) WRITE_LOCK_FILE_NAME \<noteq> Some OtherEntry \<Longrightarrow>
      r = Inl (IoError WouldBlock ''storage directory is already open for writing'')" using refused by auto
qed

lemma locked_open:
  assumes "with_max_segment_len N J m d = (r, d')" and "d_dir d = Directory" and "d_locked d"
  shows "\<exists>e. r = Inl e" and "touch {WRITE_LOCK_FILE_NAME} d d'"
    and "m \<noteq> 0 \<Longrightarrow> d_faults d = [] \<Longrightarrow> disk_get d WRITE_LOCK_FILE_NAME \<noteq> Some OtherEntry \<Longrightarrow>
      r = Inl (IoError WouldBlock ''storage directory is already open for writing'')"
proof -
  let ?s = "\<lparr>st_disk = d, st_metrics = StorageMetrics_default\<rparr>"
  have "(\<exists>e. r = Inl e) \<and> touch {WRITE_LOCK_FILE_NAME} d d' \<and>
    (m \<noteq> 0 \<longrightarrow> d_faults d = [] \<longrightarrow> disk_get d WRITE_LOCK_FILE_NAME \<noteq> Some OtherEntry \<longrightarrow>
      r = Inl (IoError WouldBlock ''storage directory is already open for writing''))"
  proof (cases "m = 0")
    case True
    then show ?thesis using assms(1) by (auto simp: with_max_segment_len_def touching.refl)
  next
    case False
    obtain q s1 where q: "sbind create_dir_all_synced (\<lambda>_. acquire_write_lock) ?s = (q, s1)" by fastforce
    have dir: "d_dir (st_disk ?s) = Directory" "d_locked (st_disk ?s)" using assms(2,3) by simp_all
    note start = locked_start [OF q dir]
    then show ?thesis using assms(1) False q by (auto simp: with_max_segment_len_def)
  qed
  then show "\<exists>e. r = Inl e" and "touch {WRITE_LOCK_FILE_NAME} d d'"
    and "m \<noteq> 0 \<Longrightarrow> d_faults d = [] \<Longrightarrow> disk_get d WRITE_LOCK_FILE_NAME \<noteq> Some OtherEntry \<Longrightarrow>
      r = Inl (IoError WouldBlock ''storage directory is already open for writing'')" by auto
qed

text \<open>The engine that holds the lock does not notice.\<close>

lemma engine_ok_lock_file:
  fixes s :: engine
  assumes ok: "engine_ok N J s" and touch: "touch {WRITE_LOCK_FILE_NAME} (st_disk s) d'"
  shows "engine_ok N J (s\<lparr>st_disk := d'\<rparr>)" and "engine_view N (s\<lparr>st_disk := d'\<rparr>) = engine_view N s"
proof -
  obtain idx where idx: "storage_ok N J (st_disk s) (st_registry s) idx" "st_index s = active_entries (st_registry s) idx"
    using engine_ok_index [OF ok] by metis
  have dok: "disk_ok (st_disk s)" "disk_ok d'" using engine_okD(4) [OF ok] touch_disk_ok [OF touch] by auto
  have seg: "seg d' = seg (st_disk s)" by (rule touch_same_segments [OF touch]) simp
  note same = same_segments [OF dok seg]
  have store: "storage_ok N J d' (st_registry s) idx"
    using idx(1) lock_file_touch [OF _ touch] meta_distinct(7,9) [THEN not_sym]
    by (simp add: storage_ok_def same stored_touch [OF _ touch])
  have "writer_ok (s\<lparr>st_disk := d'\<rparr>)" using engine_okD(1) [OF ok] dok(2) by (simp add: writer_ok_def seg)
  moreover have "all_clean d'" "d_locked d'" using engine_okD(2,12) [OF ok] touch by (simp_all add: same touch_def)
  ultimately show "engine_ok N J (s\<lparr>st_disk := d'\<rparr>)" using store idx(2) by (auto simp: engine_ok_def)
  show "engine_view N (s\<lparr>st_disk := d'\<rparr>) = engine_view N s"
    by (simp add: engine_view_def view_same_segments [OF dok seg])
qed

section \<open>Simulation\<close>

lemma engine_ok_same:
  fixes s s' :: engine
  assumes "st_disk s' = st_disk s" and "io_state.more s' = io_state.more s" and "engine_ok N J s"
  shows "engine_ok N J s'" and "engine_view N s' = engine_view N s"
  using engine_more [OF assms(2)] assms(1,3) by (simp_all add: engine_ok_def writer_ok_def engine_view_def)

lemma Engine_load_same:
  assumes "engine_ok N J s"
  shows "st_disk (snd (Engine_load N n s)) = st_disk s" and "io_state.more (snd (Engine_load N n s)) = io_state.more s"
    and "unsynced (st_metrics (snd (Engine_load N n s))) = unsynced (st_metrics s)"
proof -
  have "st_disk (snd (Engine_load N n s)) = st_disk s \<and> io_state.more (snd (Engine_load N n s)) = io_state.more s \<and>
      unsynced (st_metrics (snd (Engine_load N n s))) = unsynced (st_metrics s)"
  proof (cases "is_active (st_registry s) n")
    case True
    show ?thesis using Engine_load_live(2-4) [OF assms True] by simp
  next
    case False
    show ?thesis unfolding rejects_inactive(1) [OF False] by simp
  qed
  then show "st_disk (snd (Engine_load N n s)) = st_disk s" and "io_state.more (snd (Engine_load N n s)) = io_state.more s"
    and "unsynced (st_metrics (snd (Engine_load N n s))) = unsynced (st_metrics s)" by auto
qed

text \<open>A call that leaves the directory and the engine as they are, and the end of the engine.\<close>

lemma represents_same:
  assumes "represents N J (Up s) v" and "st_disk s' = st_disk s" and "io_state.more s' = io_state.more s"
  shows "represents N J (Up s') v"
  using engine_ok_same [OF assms(2,3), of N J] assms(1) by auto

lemma simulation_ends:
  assumes "stands_for N J (st_disk s) v'"
  shows "represents N J (Down (close_engine s)) v'"
  using stands_for_lock [OF assms] by (simp add: close_engine_def release_lock_def at_rest_def)

end
