(* ===== verification/Views.thy ===== *)
theory Views
  imports System
begin

text \<open>
  What the abstract storage says about reading: loading a node, through an engine or read-only, on a
  directory that was closed properly or not, is a function of the abstract storage; and how each
  command changes that function.
\<close>

section \<open>Loading\<close>

definition view_load :: "('le, 'lg) noraft \<Rightarrow> 'le storage_view \<Rightarrow> NodeId \<Rightarrow> 'lg NodeState io_result" where
  "view_load N v n = (if is_active (v_registry v) n then replay_of N (v_live v n) else Inl (access_error (v_registry v) n))"

definition view_loads :: "('le, 'lg) noraft \<Rightarrow> 'le storage_view \<Rightarrow> (NodeId, 'lg NodeState) btmap io_result \<Rightarrow> bool" where
  "view_loads N v r \<longleftrightarrow>
     (\<forall>m. r = Inr m \<longleftrightarrow> bt_wf m \<and> (\<forall>n. if is_active (v_registry v) n
        then (\<exists>x. view_load N v n = Inr x \<and> bt_get m n = Some x) else bt_get m n = None))"

lemma engine_view_sel [simp]:
  "v_registry (engine_view N s) = st_registry s"
  "v_live (engine_view N s) n = (if is_active (st_registry s) n then live N (st_disk s) n else [])"
  by (simp_all add: engine_view_def view_of_def)

lemma Engine_load_view:
  assumes "engine_ok N J s"
  shows "fst (Engine_load N n s) = view_load N (engine_view N s) n"
  using Engine_load_live(1) [OF assms, of n]
  by (cases "is_active (st_registry s) n") (simp_all add: view_load_def rejects_inactive(1))

lemma load_node_view:
  assumes "json_laws J" and "stands_for N J d v"
  shows "load_node N J d n = (view_load N v n, d)"
proof -
  obtain idx where idx: "storage_ok N J d (v_registry v) idx" and v: "v = view_of N d (v_registry v)"
    using assms(2) by (auto simp: stands_for_def)
  have "v_live v n = (if is_active (v_registry v) n then live N d n else [])" by (subst v) (simp add: view_of_def)
  then show ?thesis
    by (simp add: load_node_live [OF assms(1) idx] view_load_def access_error_def)
qed

lemma loads_all_view:
  fixes N :: "('le, 'lg) noraft" and v :: "'le storage_view"
  assumes "loads_all N d (active_node_ids (v_registry v)) r" and "bt_wf (v_registry v)"
    and live: "\<And>n. is_active (v_registry v) n \<Longrightarrow> v_live v n = live N d n"
  shows "view_loads N v r"
proof -
  have ids: "n \<in> set (active_node_ids (v_registry v)) \<longleftrightarrow> is_active (v_registry v) n" for n
    using active_node_ids(2) [OF assms(2)] by blast
  have load: "view_load N v n = replay_of N (live N d n)" if "is_active (v_registry v) n" for n
    using that live by (simp add: view_load_def)
  have sound: "bt_wf m" "if is_active (v_registry v) n then (\<exists>x. view_load N v n = Inr x \<and> bt_get m n = Some x) else bt_get m n = None"
    if "r = Inr m" for m n
    using assms(1) that by (auto simp: loads_all_def ids load)
  have "r = Inr m" if m: "bt_wf m"
    "\<forall>n. if is_active (v_registry v) n then (\<exists>x. view_load N v n = Inr x \<and> bt_get m n = Some x) else bt_get m n = None" for m
  proof -
    have "\<exists>x. replay_of N (live N d n) = Inr x" if "n \<in> set (active_node_ids (v_registry v))" for n
      using m(2) [rule_format, of n] that by (auto simp: ids load)
    then obtain m' where m': "r = Inr m'" using assms(1) unfolding loads_all_def by blast
    have "bt_get m' n = bt_get m n" for n
      using sound(2) [OF m', of n] m(2) [rule_format, of n] by (cases "is_active (v_registry v) n") auto
    then have "m' = m" by (rule bt_ext [OF sound(1) [OF m'] m(1)])
    then show ?thesis using m' by simp
  qed
  then show ?thesis using sound unfolding view_loads_def by blast
qed

lemma Engine_load_all_view:
  fixes N :: "('le, 'lg) noraft"
  assumes "engine_ok N J s"
  shows "view_loads N (engine_view N s) (fst (Engine_load_all N s))"
  using Engine_load_all_live(1) [OF assms] engine_okD(7) [OF assms] by (auto intro: loads_all_view)

section \<open>What commands do to loading\<close>

lemma view_load_append:
  assumes "is_active (v_registry v) n"
  shows "view_load N (view_append n r v) k =
    (if k = n then (case r of Checkpoint c \<Rightarrow> into_state N c
       | _ \<Rightarrow> rbind (view_load N v n) (\<lambda>st. apply_record_to_state N st r))
     else view_load N v k)"
  using assms by (cases "k = n") (simp_all add: view_load_def view_append_def replay_of_append split: Record.splits)

lemma view_load_create:
  "view_load N (view_create N n meta v) k =
    (if k = n then into_state N (initial_checkpoint N) else view_load N v k)"
  by (simp add: view_load_def view_create_def is_active_insert access_error_def is_removed_def bt_get_insert replay_of_def)

lemma view_load_remove:
  assumes "is_active (v_registry v) n"
  shows "view_load N (view_remove n v) k = (if k = n then Inl node_removed_error else view_load N v k)"
proof -
  obtain e where "bt_get (v_registry v) n = Some e" using assms by (auto simp: is_active_def split: option.splits)
  then show ?thesis
    by (simp add: view_load_def view_remove_def is_active_insert access_error_def is_removed_def bt_get_insert)
qed

section \<open>The interface of a store of nodes\<close>

text \<open>
  What a caller relies on when it writes records and reads nodes: a successful save applies the
  record to the state of its node and to no other.
\<close>

locale node_store =
  fixes ok :: "'s \<Rightarrow> bool" and good :: "'r \<Rightarrow> bool"
    and apply_rec :: "'st \<Rightarrow> 'r \<Rightarrow> 'st io_result"
    and load :: "'s \<Rightarrow> NodeId \<Rightarrow> 'st io_result"
    and save :: "NodeId \<Rightarrow> 'r \<Rightarrow> ('s, unit) io"
  assumes save_keeps_ok: "ok s \<Longrightarrow> good r \<Longrightarrow> save n r s = (Inr (), s') \<Longrightarrow> ok s'"
    and load_saved: "ok s \<Longrightarrow> good r \<Longrightarrow> save n r s = (Inr (), s') \<Longrightarrow>
      load s' k = (if k = n then rbind (load s n) (\<lambda>st. apply_rec st r) else load s k)"
begin

lemma load_saved_all:
  assumes "sfold (\<lambda>(n, r) _. save n r) nrs () s = (Inr (), s')" and "ok s" and "\<forall>(n, r) \<in> set nrs. good r"
  shows "ok s' \<and>
    load s' k = rbind (load s k) (\<lambda>st. fold_result apply_rec st (map snd (filter (\<lambda>(n, r). n = k) nrs)))"
  using assms
proof (induction nrs arbitrary: s)
  case Nil
  then show ?case by (cases "load s k") (simp_all add: sret_def)
next
  case (Cons nr nrs)
  obtain n r where nr: "nr = (n, r)" by (cases nr)
  obtain s1 where s1: "save n r s = (Inr (), s1)" "sfold (\<lambda>(n, r) _. save n r) nrs () s1 = (Inr (), s')"
    using Cons.prems(1) by (auto simp: nr sbind_eq_Inr)
  have good: "good r" "\<forall>(n, r) \<in> set nrs. good r" using Cons.prems(3) nr by auto
  show ?case
    using Cons.IH [OF s1(2) save_keeps_ok [OF Cons.prems(2) good(1) s1(1)] good(2)]
      load_saved [OF Cons.prems(2) good(1) s1(1), of k]
    by (cases "load s k") (auto simp: nr)
qed

end

text \<open>The records that the engine writes with \<^verbatim>\<open>save_record\<close>: all but checkpoints.\<close>

definition plain_record :: "('le, 'lg) noraft \<Rightarrow> 'le Record \<Rightarrow> bool" where
  "plain_record N r \<longleftrightarrow> record_wf N r \<and> \<not> is_checkpoint r"

lemma save_record_load:
  assumes "noraft_laws N" and "engine_ok N J s" and "plain_record N r" and "save_record N n r op s = (Inr (), s')"
  shows "engine_ok N J s'" and "fst (Engine_load N k s') =
    (if k = n then rbind (fst (Engine_load N n s)) (\<lambda>st. apply_record_to_state N st r) else fst (Engine_load N k s))"
proof -
  have "is_active (st_registry s) n" using rejects_inactive(2) [of s n N r op] assms(4) by (cases "is_active (st_registry s) n") auto
  moreover have wf: "record_wf N r" "\<not> is_checkpoint r" using assms(3) by (simp_all add: plain_record_def)
  moreover have eff: "engine_ok N J s'" "engine_view N s' = view_append n r (engine_view N s)"
    using outcomeD(2) [OF save_record_effect [OF assms(1) wf(1) assms(2,4)]] by simp_all
  ultimately show "fst (Engine_load N k s') =
    (if k = n then rbind (fst (Engine_load N n s)) (\<lambda>st. apply_record_to_state N st r) else fst (Engine_load N k s))"
    using view_load_append [of "engine_view N s" n N r k]
    by (cases r) (simp_all add: Engine_load_view [OF assms(2)] Engine_load_view [OF eff(1)])
  show "engine_ok N J s'" by (rule eff(1))
qed

interpretation engine_store: node_store "\<lambda>s. noraft_laws N \<and> engine_ok N J s" "plain_record N" "apply_record_to_state N"
    "\<lambda>s n. fst (Engine_load N n s)" "\<lambda>n r. save_record N n r op"
  for N :: "('le, 'lg) noraft" and J :: "'v nojson" and op
  by unfold_locales (use save_record_load in blast)+

text \<open>A checkpoint that \<^verbatim>\<open>save_snapshot\<close> wrote is valid, so the state it restores is known.\<close>

lemma save_snapshot_load:
  assumes "noraft_laws N" and "record_wf N (Checkpoint c)" and "engine_ok N J s"
    and "save_snapshot N J n c s = (Inr (), s')"
  shows "fst (Engine_load N k s') = (if k \<noteq> n then fst (Engine_load N k s)
     else if replayable_position (sn_last_included (sc_snapshot c)) then Inr (checkpoint_state N c)
     else Inl (invalid_data ''snapshot position conflicts with local log''))"
proof -
  have run: "run_command N J (CmdSaveSnapshot n c) s = (Inr (), s')" "command_wf N J (CmdSaveSnapshot n c)"
    using assms(2,4) by simp_all
  note eff = run_command_effect(2) [OF assms(1) run(2) assms(3) run(1) refl]
  have active: "is_active (v_registry (engine_view N s)) n" using eff by simp
  have valid: "SnapshotCheckpoint_validate N c = Inr ()" "bt_wf (la_command_payloads (sc_suffix c))"
    using assms(2,4) by (auto simp: save_snapshot_def sbind_eq_Inr slift_def checkpoint_wf_def append_wf_def)
  show ?thesis
    using eff view_load_append [OF active, of N "Checkpoint c" k] Engine_load_view [OF assms(3)] Engine_load_view [of N J s' k]
      into_state_validated [OF assms(1) valid]
    by simp
qed

section \<open>The registry over time\<close>

lemma run_command_registry:
  assumes "command_allowed (v_registry v) cmd" and "is_removed (v_registry v) n"
  shows "is_removed (v_registry (view_command N cmd v)) n"
  using assms
  by (cases cmd) (auto simp: view_append_def view_create_def view_remove_def is_removed_def bt_get_insert split: option.splits)

lemma view_step_removed: "view_step N J v v' \<Longrightarrow> is_removed (v_registry v) n \<Longrightarrow> is_removed (v_registry v') n"
  by (induction rule: view_step.induct) (simp_all add: run_command_registry)

section \<open>Refusals\<close>

fun command_error :: "NodeRegistry \<Rightarrow> 'le command \<Rightarrow> io_error" where
  "command_error reg (CmdCreateNode n meta) = node_already_exists_error"
| "command_error reg (CmdRemoveNode n) = access_error reg n"
| "command_error reg (CmdSaveCurrentTerm n t) = access_error reg n"
| "command_error reg (CmdSaveVotedFor n v) = access_error reg n"
| "command_error reg (CmdAppendEntries n a) = access_error reg n"
| "command_error reg (CmdSaveSnapshot n c) = access_error reg n"
| "command_error reg CmdSync = node_not_found_error"

lemma command_refused:
  assumes "\<not> command_allowed (st_registry s) cmd"
  shows "fst (run_command N J cmd s) = Inl (command_error (st_registry s) cmd)"
  using assms
  by (cases cmd) (auto simp: create_rejects rejects_inactive save_current_term_def save_voted_for_def append_entries_def)

end
