(* ===== verification/Events.thy ===== *)
theory Events
  imports Views
begin

text \<open>
  The system and the abstract storage as labelled transition systems: a label is a call of the
  interface with its arguments and its result. A step of the abstract storage has the effect and the
  result that its label asks for, so a caller cannot tell a history of calls and results of the system
  from one of the abstract storage. From the simulation follows what every reachable state stands for.
\<close>

section \<open>Labels\<close>

text \<open>
  \<open>Rejected\<close> is an error that left the engine usable, \<open>Failed\<close> one after which it was closed,
  \<open>Contended\<close> an attempt to open the directory while an engine is open.
\<close>

datatype ('le, 'lg) event =
    Opened u64
  | NotOpened u64 io_error
  | Contended u64 io_error
  | Performed "'le command"
  | Rejected "'le command" io_error
  | Failed "'le command" io_error
  | Loaded NodeId "'lg NodeState io_result"
  | LoadedAll "(NodeId, 'lg NodeState) btmap io_result"
  | Closed

section \<open>The system\<close>

inductive system_event ::
    "('le, 'lg) noraft \<Rightarrow> 'v nojson \<Rightarrow> system \<Rightarrow> ('le, 'lg) event \<Rightarrow> system \<Rightarrow> bool"
  for N :: "('le, 'lg) noraft" and J :: "'v nojson" where
  opened: "with_max_segment_len N J m d = (Inr s, d') \<Longrightarrow> system_event N J (Down d) (Opened m) (Up s)"
| not_opened: "with_max_segment_len N J m d = (Inl e, d') \<Longrightarrow> system_event N J (Down d) (NotOpened m e) (Down d')"
| contended: "with_max_segment_len N J m (st_disk s) = (Inl e, d') \<Longrightarrow>
    system_event N J (Up s) (Contended m e) (Up (s\<lparr>st_disk := d'\<rparr>))"
| performed: "command_wf N J cmd \<Longrightarrow> run_command N J cmd s = (Inr (), s') \<Longrightarrow>
    system_event N J (Up s) (Performed cmd) (Up s')"
| rejected: "command_wf N J cmd \<Longrightarrow> run_command N J cmd s = (Inl e, s') \<Longrightarrow> as_it_was s s' \<Longrightarrow>
    system_event N J (Up s) (Rejected cmd e) (Up s')"
| failed: "command_wf N J cmd \<Longrightarrow> run_command N J cmd s = (Inl e, s') \<Longrightarrow>
    system_event N J (Up s) (Failed cmd e) (Down (close_engine s'))"
| loaded: "Engine_load N n s = (x, s') \<Longrightarrow> system_event N J (Up s) (Loaded n x) (Up s')"
| loaded_all: "Engine_load_all N s = (y, s') \<Longrightarrow> system_event N J (Up s) (LoadedAll y) (Up s')"
| closed: "system_event N J (Up s) Closed (Down (close_engine s))"

text \<open>The labels are those of the steps of the system, none is missing.\<close>

lemma system_step_event: "system_step N J sys sys' \<longleftrightarrow> (\<exists>ev. system_event N J sys ev sys')"
proof
  assume "system_step N J sys sys'"
  then show "\<exists>ev. system_event N J sys ev sys'"
    by cases (metis system_event.opened system_event.not_opened system_event.contended system_event.performed
      system_event.rejected system_event.failed system_event.loaded system_event.loaded_all system_event.closed)+
next
  assume "\<exists>ev. system_event N J sys ev sys'"
  then obtain ev where "system_event N J sys ev sys'" ..
  then show "system_step N J sys sys'" by cases (metis system_step.intros)+
qed

section \<open>The abstract storage\<close>

text \<open>
  A command that succeeds was allowed and has its effect; a command that is not allowed fails with
  its own error; any other error leaves the storage as it was or, when the engine does not survive
  it, possibly with the effect of the command.
\<close>

inductive view_event ::
    "('le, 'lg) noraft \<Rightarrow> 'v nojson \<Rightarrow> 'le storage_view \<Rightarrow> ('le, 'lg) event \<Rightarrow> 'le storage_view \<Rightarrow> bool"
  for N :: "('le, 'lg) noraft" and J :: "'v nojson" where
  opened: "m \<noteq> 0 \<Longrightarrow> view_event N J v (Opened m) v"
| not_opened: "view_event N J v (NotOpened m e) v"
| contended: "view_event N J v (Contended m e) v"
| performed: "command_wf N J cmd \<Longrightarrow> command_allowed (v_registry v) cmd \<Longrightarrow> view_event N J v (Performed cmd) (view_command N cmd v)"
| rejected: "(\<not> command_allowed (v_registry v) cmd \<Longrightarrow> e = command_error (v_registry v) cmd) \<Longrightarrow>
    view_event N J v (Rejected cmd e) v"
| failed: "(\<not> command_allowed (v_registry v) cmd \<Longrightarrow> e = command_error (v_registry v) cmd) \<Longrightarrow>
    view_event N J v (Failed cmd e) v"
| failed_late: "command_wf N J cmd \<Longrightarrow> command_allowed (v_registry v) cmd \<Longrightarrow> view_event N J v (Failed cmd e) (view_command N cmd v)"
| loaded: "view_event N J v (Loaded n (view_load N v n)) v"
| loaded_all: "view_loads N v y \<Longrightarrow> view_event N J v (LoadedAll y) v"
| closed: "view_event N J v Closed v"

inductive_simps view_event_simps [simp]:
  "view_event N J v (Opened m) v'" "view_event N J v (Performed cmd) v'" "view_event N J v (Rejected cmd e) v'"
  "view_event N J v (Loaded n x) v'" "view_event N J v (LoadedAll y) v'" "view_event N J v Closed v'"

text \<open>Without the labels, these are the steps of the abstract storage.\<close>

lemma view_event_step: "view_event N J v ev v' \<Longrightarrow> view_step N J v v'"
  by (induction rule: view_event.induct) (auto intro: view_step.intros)

section \<open>Simulation\<close>

text \<open>What a command does, for the abstract storage that the engine stands for.\<close>

lemma command_event:
  assumes "noraft_laws N" and "represents N J (Up s) v" and "command_wf N J cmd" and "run_command N J cmd s = (r, s')"
  shows "r = Inr () \<Longrightarrow> represents N J (Up s') (view_command N cmd v) \<and> command_allowed (v_registry v) cmd"
    and "r = Inl e \<Longrightarrow> \<not> command_allowed (v_registry v) cmd \<Longrightarrow> e = command_error (v_registry v) cmd"
    and "r = Inl e \<Longrightarrow> \<exists>v'. represents N J (Down (close_engine s')) v' \<and> view_event N J v (Failed cmd e) v'"
proof -
  have ok: "engine_ok N J s" "engine_view N s = v" "v_registry v = st_registry s" using assms(2) by auto
  note eff = run_command_effect [OF assms(1,3) ok(1) assms(4)]
  show "represents N J (Up s') (view_command N cmd v) \<and> command_allowed (v_registry v) cmd" if "r = Inr ()"
    using eff(2) [OF that] ok(2,3) by simp
  show error: "e = command_error (v_registry v) cmd" if "r = Inl e" "\<not> command_allowed (v_registry v) cmd"
    using command_refused [of s cmd N J] that ok(3) assms(4) by simp
  show "\<exists>v'. represents N J (Down (close_engine s')) v' \<and> view_event N J v (Failed cmd e) v'" if "r = Inl e"
    using eff(1) [THEN disjE] simulation_ends error [OF that] view_event.failed [of v cmd e N J]
      view_event.failed_late [OF assms(3), of v e] ok(2,3) by metis
qed

lemma open_event:
  assumes "json_laws J" and "represents N J (Down d) v" and "with_max_segment_len N J m d = (r, d')"
  shows "r = Inr s \<Longrightarrow> represents N J (Up s) v \<and> m \<noteq> 0" and "r = Inl e \<Longrightarrow> represents N J (Down d') v"
proof -
  have rest: "at_rest N J d v" "\<not> d_locked d" using assms(2) by auto
  show "represents N J (Up s) v \<and> m \<noteq> 0" if "r = Inr s"
    using with_max_segment_len_effect(3) [OF assms(1) rest(1) assms(3) that] assms(3) that by (auto simp: with_max_segment_len_def)
  show "represents N J (Down d') v" if "r = Inl e"
    using with_max_segment_len_effect(1,2) [OF assms(1) rest(1) assms(3)] rest(2) that by auto
qed

lemma contended_event:
  assumes "represents N J (Up s) v" and "with_max_segment_len N J m (st_disk s) = (Inl e, d')"
  shows "represents N J (Up (s\<lparr>st_disk := d'\<rparr>)) v"
proof -
  have ok: "engine_ok N J s" "engine_view N s = v" using assms(1) by auto
  have "d_dir (st_disk s) = Directory" using engine_okD(4) [OF ok(1)] by (simp add: disk_ok_def)
  note locked = locked_open(2) [OF assms(2) this engine_okD(12) [OF ok(1)]]
  show ?thesis using engine_ok_lock_file [OF ok(1) locked] ok(2) by simp
qed

lemma load_event:
  assumes "represents N J (Up s) v"
  shows "Engine_load N n s = (x, s') \<Longrightarrow> represents N J (Up s') v \<and> x = view_load N v n"
    and "Engine_load_all N s = (y, s') \<Longrightarrow> represents N J (Up s') v \<and> view_loads N v y"
proof -
  have ok: "engine_ok N J s" "engine_view N s = v" using assms by auto
  show "represents N J (Up s') v \<and> x = view_load N v n" if "Engine_load N n s = (x, s')"
    using represents_same [OF assms, of s'] Engine_load_same [OF ok(1), of n] Engine_load_view [OF ok(1), of n] ok(2) that by simp
  show "represents N J (Up s') v \<and> view_loads N v y" if "Engine_load_all N s = (y, s')"
    using represents_same [OF assms, of s'] Engine_load_all_live(2,3) [OF ok(1)] Engine_load_all_view [OF ok(1)] ok(2) that by simp
qed

lemma system_event_view:
  assumes "noraft_laws N" and "json_laws J" and "represents N J sys v" and "system_event N J sys ev sys'"
  shows "\<exists>v'. represents N J sys' v' \<and> view_event N J v ev v'"
  using assms(4,3)
proof induction
  case (opened m d s d')
  then show ?case using open_event(1) [OF assms(2) opened(2,1) refl] by auto
next
  case (not_opened m d e d')
  then show ?case using open_event(2) [OF assms(2) not_opened(2,1) refl] view_event.not_opened by blast
next
  case (contended m s e d')
  then show ?case using contended_event [OF contended(2,1)] view_event.contended by blast
next
  case (performed cmd s s')
  then show ?case using command_event(1) [OF assms(1) performed(3,1,2) refl] by auto
next
  case (rejected cmd s e s')
  then have "represents N J (Up s') v" using represents_same [of N J s v s'] by (simp add: as_it_was_def)
  then show ?case using view_event.rejected [of v cmd e N J] command_event(2) [OF assms(1) rejected(4,1,2) refl] by blast
next
  case (failed cmd s e s')
  then show ?case using command_event(3) [OF assms(1) failed(3,1,2) refl] by blast
next
  case (loaded n s x s')
  then show ?case using load_event(1) [OF loaded(2,1)] by auto
next
  case (loaded_all s y s')
  then show ?case using load_event(2) [OF loaded_all(2,1)] by auto
next
  case (closed s)
  then have "engine_ok N J s" "engine_view N s = v" by auto
  then show ?case using simulation_ends [OF engine_stands] by auto
qed

lemma simulation:
  assumes "noraft_laws N" and "json_laws J" and "represents N J sys v" and "system_step N J sys sys'"
  shows "\<exists>v'. represents N J sys' v' \<and> view_step N J v v'"
  using assms(4) system_event_view [OF assms(1-3)] view_event_step unfolding system_step_event by metis

text \<open>From a directory that does not exist yet.\<close>

lemma reachable_represents:
  assumes "noraft_laws N" and "json_laws J" and "(system_step N J)\<^sup>*\<^sup>* (Down d) sys" and "d_dir d = Missing" and "\<not> d_locked d"
  shows "\<exists>v. represents N J sys v \<and> (view_step N J)\<^sup>*\<^sup>* empty_view v"
  using assms(3)
proof (induction rule: rtranclp_induct)
  case base
  show ?case using assms(4,5) by (intro exI [of _ empty_view]) (simp add: at_rest_def)
next
  case (step sys sys')
  then obtain v where v: "represents N J sys v" "(view_step N J)\<^sup>*\<^sup>* empty_view v" by blast
  obtain v' where "represents N J sys' v'" "view_step N J v v'" using simulation [OF assms(1,2) v(1) step(2)] by blast
  then show ?case using v(2) by (meson rtranclp.rtrancl_into_rtrancl)
qed

lemma system_removed:
  assumes "noraft_laws N" and "json_laws J" and "(system_step N J)\<^sup>*\<^sup>* sys sys'" and "represents N J sys v"
    and "is_removed (v_registry v) n"
  shows "\<exists>v'. represents N J sys' v' \<and> is_removed (v_registry v') n"
  using assms(3)
proof (induction rule: rtranclp_induct)
  case base
  then show ?case using assms(4,5) by blast
next
  case (step sys1 sys2)
  then show ?case using simulation [OF assms(1,2) _ step(2)] view_step_removed by metis
qed

section \<open>Histories\<close>

inductive calls :: "('s \<Rightarrow> 'e \<Rightarrow> 's \<Rightarrow> bool) \<Rightarrow> 's \<Rightarrow> 'e list \<Rightarrow> 's \<Rightarrow> bool" for step where
  none: "calls step s [] s"
| more: "step s ev s1 \<Longrightarrow> calls step s1 evs s' \<Longrightarrow> calls step s (ev # evs) s'"

inductive_simps calls_Nil [simp]: "calls step s [] s'"
inductive_simps calls_Cons [simp]: "calls step s (ev # evs) s'"

lemma calls_simulation:
  assumes "calls step s evs s'" and "R s v"
    and "\<And>s ev s' v. R s v \<Longrightarrow> step s ev s' \<Longrightarrow> \<exists>v'. R s' v' \<and> spec v ev v'"
  shows "\<exists>v'. R s' v' \<and> calls spec v evs v'"
  using assms(1,2)
proof (induction arbitrary: v)
  case (more s ev s1 evs s')
  obtain v1 where "R s1 v1" "spec v ev v1" using assms(3) [OF more(4,1)] by blast
  then show ?case using more(3) by (metis calls_Cons)
qed auto

text \<open>Every execution of the system has a history.\<close>

lemma steps_calls: "(system_step N J)\<^sup>*\<^sup>* sys sys' \<longleftrightarrow> (\<exists>evs. calls (system_event N J) sys evs sys')"
proof
  assume "(system_step N J)\<^sup>*\<^sup>* sys sys'"
  then show "\<exists>evs. calls (system_event N J) sys evs sys'"
    by (induction rule: converse_rtranclp_induct) (metis calls_Nil, metis system_step_event calls_Cons)
next
  assume "\<exists>evs. calls (system_event N J) sys evs sys'"
  then obtain evs where "calls (system_event N J) sys evs sys'" ..
  then show "(system_step N J)\<^sup>*\<^sup>* sys sys'"
    by induction (auto simp: system_step_event intro: converse_rtranclp_into_rtranclp)
qed

end
