(* ===== verification/Durability.thy ===== *)
theory Durability
  imports Events
begin

text \<open>
  What synchronisation is worth: as long as operations succeed, every segment that the engine wrote
  to since it was opened is on stable storage, except for the active segment while its counters say
  that appends are pending; \<^verbatim>\<open>sync\<close> and everything that publishes a checkpoint leave none pending.
\<close>

section \<open>Settled segments\<close>

text \<open>
  A segment is settled when its file is durable, or still has the content from before, or holds
  nothing but the header.
\<close>

definition settled :: "(SegmentName \<Rightarrow> bytes option) \<Rightarrow> Disk \<Rightarrow> SegmentName \<Rightarrow> bool" where
  "settled base d n \<longleftrightarrow> (\<forall>f. file_at d (SegmentName_file_name n) = Some f \<longrightarrow>
     f_durable f = length (f_content f) \<or> base n = Some (f_content f) \<or> f_content f = SEGMENT_FORMAT_MAGIC)"

definition tracked :: "(SegmentName \<Rightarrow> bytes option) \<Rightarrow> 'x writer_state_scheme \<Rightarrow> bool" where
  "tracked base s \<longleftrightarrow> (\<forall>n. settled base (st_disk s) n \<or>
     n = sw_active_segment (st_writer s) \<and> unsynced (st_metrics s) \<noteq> (0, 0))"

lemma settled_all_tracked: "(\<And>n. settled base (st_disk s) n) \<Longrightarrow> tracked base s"
  by (simp add: tracked_def)

lemma tracked_settled: "tracked base s \<Longrightarrow> unsynced (st_metrics s) = (0, 0) \<Longrightarrow> settled base (st_disk s) n"
  by (auto simp: tracked_def)

lemma settled_cong: "disk_get d' (SegmentName_file_name n) = disk_get d (SegmentName_file_name n) \<Longrightarrow> settled base d' n = settled base d n"
  by (simp add: settled_def file_at_def)

lemma settled_touch: "touch X d d' \<Longrightarrow> SegmentName_file_name n \<notin> X \<Longrightarrow> settled base d' n = settled base d n"
  by (rule settled_cong) (simp add: touch_def)

lemma settled_content: "content_at d (SegmentName_file_name n) = Some SEGMENT_FORMAT_MAGIC \<Longrightarrow> settled base d n"
  by (auto simp: settled_def content_at_def)

lemma settled_mark: "settled base (mark_durable (SegmentName_file_name n) d) n"
  by (auto simp: settled_def mark_durable_def file_at_put split: option.splits)

lemma settled_mark_other: "settled base d n \<Longrightarrow> settled base (mark_durable k d) n"
  by (auto simp: settled_def mark_durable_def file_at_put split: option.splits)

lemma settled_faults [simp]: "settled base (d\<lparr>d_faults := fs\<rparr>) n = settled base d n"
  by (simp add: settled_def)

section \<open>The writer\<close>

lemma sync_current_settles:
  assumes "sync_current_segment s = (Inr (), s')" and "tracked base s"
  shows "settled base (st_disk s') n" and "unsynced (st_metrics s') = (0, 0)"
proof -
  let ?a = "sw_active_segment (st_writer s)"
  obtain s1 where s1: "sys_sync (SegmentName_file_name ?a) s = (Inr (), s1)" "s' = on_metrics segment_synced s1"
    using assms(1) by (auto simp: sync_current_segment_def result_simps sget_def count_metric_def smodify_def)
  then obtain fs where "s1 = on_disk (mark_durable (SegmentName_file_name ?a)) (set_faults fs s)" using sys_sync_ok by blast
  then have d: "st_disk s' = mark_durable (SegmentName_file_name ?a) ((st_disk s)\<lparr>d_faults := fs\<rparr>)" using s1(2) by simp
  show "settled base (st_disk s') n"
    using assms(2) settled_mark settled_mark_other unfolding d tracked_def by (metis settled_faults)
  show "unsynced (st_metrics s') = (0, 0)" using s1(2) by (simp add: unsynced_def)
qed

lemma SegmentWriter_sync_settles:
  assumes "SegmentWriter_sync s = (Inr (), s')" and "tracked base s"
  shows "settled base (st_disk s') n" and "unsynced (st_metrics s') = (0, 0)"
proof -
  have "settled base (st_disk s') n \<and> unsynced (st_metrics s') = (0, 0)"
  proof (cases "unsynced (st_metrics s) = (0, 0)")
    case True
    then have "s' = s" using assms(1) by (auto simp: SegmentWriter_sync_def unsynced_def sret_def)
    then show ?thesis using tracked_settled [OF assms(2) True] True by simp
  next
    case False
    then have "sync_current_segment s = (Inr (), s')" using assms(1) by (auto simp: SegmentWriter_sync_def unsynced_def)
    from sync_current_settles [OF this assms(2)] show ?thesis by simp
  qed
  then show "settled base (st_disk s') n" and "unsynced (st_metrics s') = (0, 0)" by auto
qed

lemma new_segment_settles:
  assumes "create_active_segment_file (SegmentName_file_name a) s = (Inr (), s')" and "\<And>n. settled base (st_disk s) n"
  shows "settled base (st_disk s') n"
proof (cases "n = a")
  case True
  then show ?thesis using create_active_segment_file_ok(2) [OF assms(1)] by (intro settled_content) simp
next
  case False
  let ?f = "SegmentName_file_name a"
  have "obeys (touch {?f}) (create_active_segment_file ?f)"
    unfolding create_active_segment_file_def by (intro touching.bind touch_sys) simp_all
  from settled_touch [OF obeysD [OF this assms(1)], of n base] show ?thesis using False assms(2) by simp
qed

lemma SegmentWriter_rotate_settles:
  assumes "SegmentWriter_rotate s = (Inr (), s')" and "tracked base s"
  shows "settled base (st_disk s') n"
  using assms(1)
proof (rule SegmentWriter_rotate_steps)
  fix a s1 s2 fs
  assume s1: "sync_current_segment s = (Inr (), s1)" and s2: "create_active_segment_file (SegmentName_file_name a) s1 = (Inr (), s2)"
    and s': "s' = on_metrics (segment_rotated a (of_nat SEGMENT_FILE_HEADER_LEN)) ((set_faults fs s2)
      \<lparr>st_writer := (st_writer s)\<lparr>sw_active_segment := a, sw_segment_len := of_nat SEGMENT_FILE_HEADER_LEN\<rparr>\<rparr>)"
  have "settled base (st_disk s2) n" using new_segment_settles [OF s2] sync_current_settles(1) [OF s1 assms(2)] by blast
  then show ?thesis by (simp add: s')
qed

lemma SegmentWriter_append_tracked:
  assumes "SegmentWriter_append N n r s = (Inr p, s')" and "tracked base s"
  shows "tracked base s'"
proof -
  obtain frame wb s1 s2 len where s1: "(if should_rotate (st_writer s) wb then SegmentWriter_rotate else sret ()) s = (Inr (), s1)"
    and s2: "sys_write_all (SegmentName_file_name (sw_active_segment (st_writer s1))) frame s1 = (Inr (), s2)"
    and s': "s' = on_metrics (segment_written len) (on_metrics (record_written (metric_kind r) wb)
       (s2\<lparr>st_writer := (st_writer s1)\<lparr>sw_segment_len := len\<rparr>\<rparr>))"
    by (rule SegmentWriter_append_steps [OF assms(1)]) (rule that)
  have tracked: "tracked base s1"
  proof (cases "should_rotate (st_writer s) wb")
    case True
    then show ?thesis using SegmentWriter_rotate_settles [OF _ assms(2), of s1] s1 by (intro settled_all_tracked) simp
  next
    case False
    then show ?thesis using s1 assms(2) by (simp add: sret_def)
  qed
  have touch: "touch {SegmentName_file_name (sw_active_segment (st_writer s1))} (st_disk s1) (st_disk s2)"
    by (rule obeysD [OF touch_sys(1) s2]) simp
  have "unsynced (record_written k b m) \<noteq> (0, 0)" for k b m by (simp add: unsynced_def)
  then show ?thesis
    using tracked settled_touch [OF touch] by (auto simp: tracked_def s' on_metrics_def)
qed

section \<open>Engine operations\<close>

definition keeps :: "('s \<Rightarrow> bool) \<Rightarrow> ('s, 'a) io \<Rightarrow> bool" where
  "keeps P m \<longleftrightarrow> (\<forall>s x s'. P s \<longrightarrow> m s = (Inr x, s') \<longrightarrow> P s')"

named_theorems keeps_intros \<open>invariants of computations that succeed\<close>

lemma keeps_basic [keeps_intros]:
  "keeps P (sret x)" "keeps P (serr e)" "keeps P (slift r)" "keeps P (sget f)"
  by (auto simp: keeps_def io_defs)

lemma keeps_bind [keeps_intros]: "keeps P m \<Longrightarrow> (\<And>x. keeps P (f x)) \<Longrightarrow> keeps P (sbind m f)"
  unfolding keeps_def by (intro allI impI, erule sbind_cases) blast+

lemma keeps_if [keeps_intros]: "(b \<Longrightarrow> keeps P m) \<Longrightarrow> (\<not> b \<Longrightarrow> keeps P m') \<Longrightarrow> keeps P (if b then m else m')"
  by simp

lemma keeps_loop [keeps_intros]: "(\<And>v acc. keeps P (f v acc)) \<Longrightarrow> keeps P (sfold f vs acc)"
proof (induction vs arbitrary: acc)
  case (Cons v vs)
  have "keeps P (sbind (f v acc) (sfold f vs))" by (intro keeps_bind Cons.prems Cons.IH)
  then show ?case by (simp add: keeps_def)
qed (simp add: keeps_basic)

text \<open>Operations that touch no segment, no counter of appends and not the writer keep the segments tracked.\<close>

lemma tracked_frame:
  assumes "tracked base s" and "touch X (st_disk s) (st_disk s')" and "X \<inter> segment_files = {}"
    and "st_writer s' = st_writer s" and "unsynced (st_metrics s') = unsynced (st_metrics s)"
  shows "tracked base s'"
proof -
  have "settled base (st_disk s') n = settled base (st_disk s) n" for n
    using assms(3) by (intro settled_touch [OF assms(2)]) auto
  then show ?thesis using assms(1,4,5) by (simp add: tracked_def)
qed

lemma keeps_count [keeps_intros]: "(\<And>m. unsynced (g m) = unsynced m) \<Longrightarrow> keeps (tracked base) (count_metric g)"
  by (auto simp: keeps_def tracked_def count_metric_def smodify_def on_metrics_def)

lemma keeps_writer [keeps_intros]:
  "keeps (tracked base) (SegmentWriter_append N n r)" "keeps (tracked base) SegmentWriter_sync"
  unfolding keeps_def
  by (intro allI impI, rule SegmentWriter_append_tracked, assumption+)
    (intro allI impI settled_all_tracked, rule SegmentWriter_sync_settles(1), simp_all)

lemma keeps_fields [keeps_intros]:
  "keeps (tracked base) (set_registry reg)" "keeps (tracked base) (set_index idx)"
  by (auto simp: keeps_def tracked_def set_registry_def set_index_def smodify_def)

lemma keeps_sync_dir [keeps_intros]: "keeps (tracked base) sys_sync_dir"
  unfolding keeps_def using sys_sync_dir_ok by (fastforce simp: tracked_def set_faults_def on_disk_def)

lemma keeps_replace_file:
  assumes "path \<notin> segment_files" and "tmp \<notin> segment_files" and "path \<noteq> tmp"
  shows "keeps (tracked base) (replace_file path tmp text :: ('x writer_state_scheme, unit) io)"
  unfolding keeps_def
proof (intro allI impI)
  fix s s' :: "'x writer_state_scheme" and x
  assume "tracked base s" and run: "replace_file path tmp text s = (Inr x, s')"
  then show "tracked base s'"
    using replace_file_effect [OF assms(3) run] assms(1,2) writer_more(1) [of s' s] 
    by (intro tracked_frame [of base s "{path, tmp}" s']) auto
qed

lemma keeps_save [keeps_intros]:
  "keeps (tracked base) (NodeRegistry_save J reg)" "keeps (tracked base) (CheckpointIndex_save J idx)"
  unfolding NodeRegistry_save_def CheckpointIndex_save_def by (simp_all add: keeps_replace_file)

lemma keeps_gc_step [keeps_intros]: "keeps (tracked base) (gc_step a b sp acc)"
  unfolding keeps_def
proof (intro allI impI)
  fix s s' :: engine and x
  assume tracked: "tracked base s" and run: "gc_step a b sp acc s = (Inr x, s')"
  obtain q s1 where q: "sys_remove_file (sp_path sp) s = (q, s1)" by fastforce
  have "tracked base s1"
    using q
  proof (cases rule: sys_remove_file_any)
    case (1 fs e)
    then show ?thesis using tracked by (simp add: tracked_def on_disk_def set_faults_def)
  next
    case (2 fs)
    have "settled base (st_disk s1) n" if "settled base (st_disk s) n" for n
      using that by (auto simp: 2(1) settled_def file_at_def disk_get_def)
    then show ?thesis using tracked by (auto simp: tracked_def 2(1) on_disk_def set_faults_def)
  qed
  then show "tracked base s'" using run q tracked by (auto simp: gc_step_def split: sum.splits if_splits)
qed

lemma keeps_gc [keeps_intros]: "keeps (tracked base) collect_garbage"
  unfolding collect_garbage_def
  by (intro keeps_bind keeps_count keeps_basic unsynced_other) (auto intro!: keeps_intros split: option.split)

lemma keeps_refresh [keeps_intros]:
  "keeps (tracked base) refresh_registry_metrics" "keeps (tracked base) refresh_checkpoint_index_metrics"
  unfolding refresh_registry_metrics_def refresh_checkpoint_index_metrics_def by (intro keeps_intros unsynced_other)+

lemma keeps_ensure [keeps_intros]: "keeps (tracked base) (Engine_ensure_node_exists n op)"
  unfolding Engine_ensure_node_exists_def by (intro keeps_intros unsynced_other)

lemma keeps_command: "keeps (tracked base) (run_command N J cmd)"
proof (cases cmd)
  case (CmdCreateNode n meta)
  then show ?thesis by (simp add: create_node_def Let_def) (intro keeps_intros unsynced_other)
next
  case (CmdRemoveNode n)
  then show ?thesis by (simp add: remove_node_def Let_def) (intro keeps_intros unsynced_other)
next
  case (CmdSaveSnapshot n c)
  then show ?thesis by (simp add: save_snapshot_def Let_def) (intro keeps_intros unsynced_other)
qed (simp_all add: save_current_term_def save_voted_for_def append_entries_def save_record_def Engine_sync_def;
    intro keeps_intros unsynced_other)+

section \<open>Sessions\<close>

text \<open>The life of one engine, as long as it stays up.\<close>

abbreviation session :: "('le, 'lg) noraft \<Rightarrow> 'v nojson \<Rightarrow> engine \<Rightarrow> engine \<Rightarrow> bool" where
  "session N J \<equiv> (\<lambda>s t. system_step N J (Up s) (Up t))\<^sup>*\<^sup>*"

lemma tracked_same:
  "st_disk s' = st_disk s \<Longrightarrow> st_writer s' = st_writer s \<Longrightarrow> unsynced (st_metrics s') = unsynced (st_metrics s) \<Longrightarrow>
     tracked base s \<Longrightarrow> tracked base s'"
  by (simp add: tracked_def)

lemma step_tracked:
  assumes "engine_ok N J s" and "system_step N J (Up s) (Up t)" and "tracked base s"
  shows "tracked base t"
  using assms(2)
proof cases
  case (contended m e d')
  have "d_dir (st_disk s) = Directory" using engine_okD(4) [OF assms(1)] by (simp add: disk_ok_def)
  from locked_open(2) [OF contended(2) this engine_okD(12) [OF assms(1)]] show ?thesis
    using contended(1) by (intro tracked_frame [OF assms(3), of "{WRITE_LOCK_FILE_NAME}"]) auto
next
  case (performed cmd)
  then show ?thesis using keeps_command assms(3) by (metis keeps_def)
next
  case (rejected cmd e)
  then show ?thesis
    using engine_more [of t s] by (intro tracked_same [OF _ _ _ assms(3)]) (auto simp: as_it_was_def)
next
  case (loaded n x)
  then show ?thesis
    using Engine_load_same [OF assms(1), of n] engine_more [of t s] by (intro tracked_same [OF _ _ _ assms(3)]) auto
next
  case (loaded_all y)
  then show ?thesis
    using Engine_load_all_live(2-4) [OF assms(1)] engine_more [of t s] by (intro tracked_same [OF _ _ _ assms(3)]) auto
qed

lemma session_tracked:
  assumes "noraft_laws N" and "json_laws J" and "engine_ok N J s" and "session N J s t" and "tracked base s"
  shows "engine_ok N J t \<and> tracked base t"
  using assms(4)
proof (induction rule: rtranclp_induct)
  case base
  show ?case using assms(3,5) by simp
next
  case (step t u)
  then have ok: "engine_ok N J t" "tracked base t" by auto
  have "\<exists>v. represents N J (Up u) v"
    using simulation [OF assms(1,2) _ step(2), of "engine_view N t"] ok(1) by auto
  then show ?case using step_tracked [OF ok(1) step(2) ok(2)] by auto
qed

lemma tracked_start: "tracked (seg (st_disk s)) s"
  by (auto simp: tracked_def settled_def seg_def content_at_def)

section \<open>A new engine\<close>

text \<open>Opening leaves no append pending, whatever the files hold, so the first \<^verbatim>\<open>sync\<close> of an engine does nothing.\<close>

abbreviation idle :: "'x io_state_scheme \<Rightarrow> bool" where
  "idle s \<equiv> unsynced (st_metrics s) = (0, 0)"

lemma unsynced_opened [simp]:
  "unsynced (segment_opened i n m) = unsynced m" "unsynced (registry_loaded a b m) = unsynced m"
  "unsynced (checkpoint_index_loaded n m) = unsynced m" "unsynced StorageMetrics_default = (0, 0)"
  by (simp_all add: unsynced_def segment_opened_def registry_loaded_def checkpoint_index_loaded_def StorageMetrics_default_def)

lemma idle_count: "(\<And>m. unsynced (g m) = unsynced m) \<Longrightarrow> keeps idle (count_metric g)"
  by (auto simp: keeps_def count_metric_def smodify_def on_metrics_def)

lemma idle_call: "keeps idle act \<Longrightarrow> keeps idle (syscall act)"
proof -
  assume act: "keeps idle act"
  have "idle (set_faults fs s) = idle s" for fs s by (simp add: set_faults_def on_disk_def)
  then show "keeps idle (syscall act)" using act syscall_ok [of act] unfolding keeps_def by metis
qed

lemma idle_disk: "keeps idle (smodify (on_disk g))"
  by (auto simp: keeps_def smodify_def on_disk_def)

lemma idle_write: "keeps idle (sys_write_all name bs :: ('x io_state_scheme, unit) io)"
  unfolding keeps_def
proof (intro allI impI)
  fix s s' :: "'x io_state_scheme" and x
  assume "idle s" and "sys_write_all name bs s = (Inr x, s')"
  then show "idle s'"
    using next_fault_ok [of s]
    by (auto simp: sys_write_all_def Let_def smodify_def serr_def on_disk_def set_faults_def split: option.splits if_splits)
qed

lemma idle_scan_frame: "scan_record_frame (f, m) = (r, f', m') \<Longrightarrow> unsynced m' = unsynced m"
  by (auto simp: scan_record_frame_def Let_def split: prod.splits option.splits if_splits)

lemma idle_end: "keeps idle (end_of_records path a b start len acc)"
  unfolding end_of_records_def sys_set_len_def
  by (intro keeps_intros idle_count idle_call idle_disk unsynced_other)

lemma idle_scan_loop: "scan_loop path a f s = (Inr u, s') \<Longrightarrow> idle s \<Longrightarrow> idle s'"
proof (induction path a f s rule: scan_loop.induct)
  case (1 path a f s)
  obtain r f' m' where sc: "scan_record_frame (f, st_metrics s) = (r, f', m')" by (metis prod_cases3)
  have m': "unsynced m' = (0, 0)" using idle_scan_frame [OF sc] 1(3) by simp
  have rec: "scan_record f s = (map_sum id (\<lambda>found. (found, f')) r, s\<lparr>st_metrics := m'\<rparr>)" by (simp add: scan_record_def sc)
  show ?case
  proof (cases r)
    case (Inl e)
    then show ?thesis using 1(2) rec by (subst (asm) scan_loop.simps) simp
  next
    case (Inr found)
    show ?thesis
    proof (cases found)
      case None
      then have "end_of_records path a True (rd_pos f) (length (rd_content f)) () (s\<lparr>st_metrics := m'\<rparr>) = (Inr (), s')"
        using 1(2) rec Inr by (subst (asm) scan_loop.simps) simp
      from idle_end [unfolded keeps_def, rule_format, OF _ this] m' show ?thesis by simp
    next
      case (Some v)
      then have "scan_loop path a f' (s\<lparr>st_metrics := m'\<rparr>) = (Inr u, s')"
        using 1(2) rec Inr by (subst (asm) scan_loop.simps) simp
      then show ?thesis using 1(1) [of "Inr (Some v, f')" "s\<lparr>st_metrics := m'\<rparr>" "(Some v, f')" "Some v" f' v] rec Inr Some m' by simp
    qed
  qed
qed

lemma idle_recover: "keeps idle (recover_storage_dir a :: ('x io_state_scheme, unit) io)"
proof -
  have read: "keeps idle (sys_open_read path :: ('x io_state_scheme, Reader) io)" for path
    by (auto simp: keeps_def sys_open_read_def split: option.splits dirent.splits)
  have header: "keeps idle (read_segment_header path f p r c :: ('x io_state_scheme, bool \<times> Reader) io)" for path f p r c
    unfolding read_segment_header_def Let_def sys_set_len_def
    by (auto intro!: keeps_intros idle_count idle_call idle_disk unsynced_other split: prod.split option.split)
  have loop: "keeps idle (scan_loop path p f :: ('x io_state_scheme, unit) io)" for path p f
    using idle_scan_loop unfolding keeps_def by blast
  have "keeps idle (scan_segment path p :: ('x io_state_scheme, unit) io)" for path p
    unfolding scan_segment_def by (auto intro!: keeps_intros read header loop)
  then show ?thesis unfolding recover_storage_dir_def by (intro keeps_intros)
qed

lemma idle_open_locked: "keeps idle (open_locked N J m :: ('x io_state_scheme, _) io)"
  unfolding open_locked_def SegmentWriter_open_def open_active_segment_file_def sys_open_create_def sys_sync_dir_def Let_def
  by (intro keeps_intros idle_recover idle_count unsynced_opened)
    (auto intro!: keeps_intros idle_call idle_disk idle_write split: option.split dirent.split)

lemma idle_start: "keeps idle (sbind create_dir_all_synced (\<lambda>_. acquire_write_lock) :: ('x io_state_scheme, unit) io)"
  unfolding create_dir_all_synced_def acquire_write_lock_def sys_open_create_def sys_sync_dir_def sys_try_lock_def
  by (auto intro!: keeps_intros idle_call idle_disk split: dir_status.split option.split dirent.split)

lemma first_sync_idle:
  assumes "with_max_segment_len N J m d = (Inr s, d')"
  shows "Engine_sync s = (Inr (), on_metrics sync_requested s)"
proof -
  let ?s = "\<lparr>st_disk = d, st_metrics = StorageMetrics_default\<rparr>"
  obtain s1 reg idx w s2 where s1: "sbind create_dir_all_synced (\<lambda>_. acquire_write_lock) ?s = (Inr (), s1)"
    and s2: "open_locked N J m s1 = (Inr (reg, idx, w), s2)" and s: "st_metrics s = st_metrics s2"
    using assms by (auto simp: with_max_segment_len_def Let_def split: if_splits prod.splits sum.splits)
  have "idle s1" using idle_start [unfolded keeps_def, rule_format, OF _ s1] by simp
  from idle_open_locked [unfolded keeps_def, rule_format, OF this s2] have "idle (on_metrics sync_requested s)" using s by simp
  then show ?thesis by (simp add: Engine_sync_def count_metric_def SegmentWriter_sync_def unsynced_def sret_def)
qed

end
