(* ===== verification/Liveness.thy ===== *)
theory Liveness
  imports Durability
begin

text \<open>
  Operations succeed when the operating system does: with no failure scheduled, and with room for
  the record, appending for an active node, synchronising and reopening return no error.
\<close>

section \<open>System calls\<close>

lemma calm_write:
  "d_faults (st_disk s) = [] \<Longrightarrow> content_at (st_disk s) name = Some c \<Longrightarrow> length c + length bs \<le> MAX_FILE_LEN \<Longrightarrow>
     sys_write_all name bs s = (Inr (), on_disk (append_content name bs) s)"
  by (simp add: sys_write_all_def next_fault_def smodify_def)

lemma calm_sync: "d_faults (st_disk s) = [] \<Longrightarrow> sys_sync name s = (Inr (), on_disk (mark_durable name) s)"
  by (simp add: sys_sync_def calmly_syscall smodify_def)

lemma calm_create_new:
  "d_faults (st_disk s) = [] \<Longrightarrow> disk_get (st_disk s) name = None \<Longrightarrow>
     sys_create_new name s = (Inr (), on_disk (disk_put name empty_file) s)"
  by (simp add: sys_create_new_def calmly_syscall smodify_def)

text \<open>Replacing a metadata file.\<close>

lemma replace_file_succeeds:
  assumes calm: "d_faults (st_disk s) = []" and other: "disk_get (st_disk s) path \<noteq> Some OtherEntry"
      "disk_get (st_disk s) tmp \<noteq> Some OtherEntry"
    and len: "length text \<le> MAX_FILE_LEN" and "path \<noteq> tmp"
  obtains s' where "replace_file path tmp text s = (Inr (), s')" and "d_faults (st_disk s') = []"
proof -
  define s1 where "s1 = on_disk (disk_put tmp empty_file) s"
  have s1: "sys_create_truncate tmp s = (Inr (), s1)" "d_faults (st_disk s1) = []"
    using calm other(2)
    by (auto simp: sys_create_truncate_def calmly_syscall smodify_def s1_def split: option.splits dirent.splits)
  have c1: "content_at (st_disk s1) tmp = Some []" by (simp add: s1_def content_at_put empty_file_def)
  define s2 where "s2 = on_disk (append_content tmp (text_bytes text)) s1"
  have s2: "sys_write_all tmp (text_bytes text) s1 = (Inr (), s2)" "d_faults (st_disk s2) = []"
    using calm_write [OF s1(2) c1, of "text_bytes text"] len s1(2) by (simp_all add: s2_def text_bytes_def)
  define s3 where "s3 = on_disk (mark_durable tmp) s2"
  have s3: "sys_sync tmp s2 = (Inr (), s3)" "d_faults (st_disk s3) = []"
    using calm_sync [OF s2(2)] s2(2) by (simp_all add: s3_def)
  have tmp: "write_tmp_file tmp (text_bytes text) s = (Inr (), s3)" by (simp add: write_tmp_file_def s1(1) s2(1) s3(1))
  obtain f where f: "disk_get (st_disk s3) tmp = Some (RegularFile f)" using write_tmp_file_ok [OF tmp] by blast
  have "disk_get (st_disk s3) path = disk_get (st_disk s) path"
    using obeysD [OF write_tmp_file_touch tmp] assms(5) by (simp add: touch_def)
  then have "disk_get (st_disk s3) path \<noteq> Some OtherEntry" using other(1) by simp
  then obtain s4 where s4: "sys_rename tmp path s3 = (Inr (), s4)" "d_faults (st_disk s4) = []"
    using f s3(2) by (simp add: sys_rename_def calmly_syscall smodify_def disk_put_def)
  show thesis by (rule that [of s4]) (simp_all add: replace_file_def s1(1) s2(1) s3(1) s4 calmly_sync_dir)
qed

section \<open>The writer\<close>

text \<open>Room: segment files can grow to the maximal segment length, and there is a next segment.\<close>

definition roomy :: "'x writer_state_scheme \<Rightarrow> bool" where
  "roomy s \<longleftrightarrow> d_faults (st_disk s) = [] \<and> plain (st_disk s) \<and> unat (sw_active_segment (st_writer s)) + 1 < 2 ^ 64 \<and>
     unat (sw_max_segment_len (st_writer s)) \<le> MAX_FILE_LEN"

lemma next_segment_free:
  assumes "writer_ok s" and "roomy s"
  shows "SegmentName_next_append (sw_active_segment (st_writer s)) = Inr (sw_active_segment (st_writer s) + 1)"
    and "disk_get (st_disk s) (SegmentName_file_name (sw_active_segment (st_writer s) + 1)) = None"
proof -
  let ?a = "sw_active_segment (st_writer s)"
  have unat: "unat (?a + 1) = unat ?a + 1" "unat ?a + unat (1 :: u64) < 2 ^ 64"
    using assms(2) by (simp_all add: roomy_def unat_word_ariths)
  then show "SegmentName_next_append ?a = Inr (?a + 1)" by (simp add: SegmentName_next_append_def checked_add_def)
  have "\<not> ?a + 1 \<le> ?a" using unat(1) by (simp add: word_le_nat_alt)
  then have "seg (st_disk s) (?a + 1) = None" using assms(1) by (auto simp: writer_ok_def)
  then show "disk_get (st_disk s) (SegmentName_file_name (?a + 1)) = None"
    using assms(2) by (auto simp: roomy_def plain_def seg_def content_at_def file_at_def split: option.splits dirent.splits)
qed

lemma rotate_succeeds:
  assumes ok: "writer_ok s" and room: "roomy s"
  obtains s' where "SegmentWriter_rotate s = (Inr (), s')" and "d_faults (st_disk s') = []"
    and "sw_max_segment_len (st_writer s') = sw_max_segment_len (st_writer s)"
    and "sw_segment_len (st_writer s') = of_nat SEGMENT_FILE_HEADER_LEN"
proof -
  let ?a = "sw_active_segment (st_writer s)"
  let ?f = "SegmentName_file_name (?a + 1)"
  note nxt = next_segment_free [OF ok room]
  have calm: "d_faults (st_disk s) = []" using room by (simp add: roomy_def)
  define s1 where "s1 = on_metrics segment_synced (on_disk (mark_durable (SegmentName_file_name ?a)) s)"
  have s1: "sync_current_segment s = (Inr (), s1)"
    by (simp add: sync_current_segment_def calm_sync [OF calm] count_metric_def s1_def smodify_def)
  have w1: "st_writer s1 = st_writer s" "d_faults (st_disk s1) = []" by (simp_all add: s1_def on_disk_def on_metrics_def calm)
  have free: "disk_get (st_disk s1) ?f = None"
    using nxt(2) by (auto simp: s1_def mark_durable_def split: option.split)
  define s2 where "s2 = on_disk (disk_put ?f empty_file) s1"
  have c2: "content_at (st_disk s2) ?f = Some []" "d_faults (st_disk s2) = []"
    by (simp_all add: s2_def content_at_put empty_file_def w1)
  define s3 where "s3 = on_disk (append_content ?f SEGMENT_FORMAT_MAGIC) s2"
  have "sys_write_all ?f SEGMENT_FORMAT_MAGIC s2 = (Inr (), s3)"
    unfolding s3_def by (rule calm_write [OF c2(2,1)]) (simp add: MAX_FILE_LEN_def SEGMENT_FILE_HEADER_LEN_def)
  then have new: "create_active_segment_file ?f s1 = (Inr (), s3)"
    using calm_create_new [OF w1(2) free] by (simp add: create_active_segment_file_def s2_def)
  have w3: "st_writer s3 = st_writer s" "d_faults (st_disk s3) = []"
    using w1(1) c2(2) by (simp_all add: s3_def s2_def on_disk_def)
  define s4 where "s4 = on_metrics (segment_rotated (?a + 1) (of_nat SEGMENT_FILE_HEADER_LEN))
    (s3\<lparr>st_writer := (st_writer s)\<lparr>sw_active_segment := ?a + 1, sw_segment_len := of_nat SEGMENT_FILE_HEADER_LEN\<rparr>\<rparr>)"
  show thesis
    by (rule that [of s4]) (use s1 w1(1) nxt(1) new calmly_sync_dir [OF w3(2)] w3 in
      \<open>simp_all add: SegmentWriter_rotate_def slift_def on_writer_def count_metric_def smodify_def on_metrics_def s4_def\<close>)
qed

text \<open>After the rotation, if there is one, the segment has room for the frame.\<close>

lemma rotated_has_room:
  assumes ok: "writer_ok s" and room: "roomy s" and frame: "length frame \<le> 2 ^ 30 + 8"
    and wb: "unat (wb :: u64) = length frame"
  obtains s1 where "(if should_rotate (st_writer s) wb then SegmentWriter_rotate else sret ()) s = (Inr (), s1)"
    and "d_faults (st_disk s1) = []" and "unat (sw_segment_len (st_writer s1)) + length frame \<le> MAX_FILE_LEN"
proof (cases "should_rotate (st_writer s) wb")
  case True
  obtain s1 where "SegmentWriter_rotate s = (Inr (), s1)" "d_faults (st_disk s1) = []"
    "sw_segment_len (st_writer s1) = of_nat SEGMENT_FILE_HEADER_LEN"
    using rotate_succeeds [OF ok room] by metis
  then show thesis
    using that [of s1] True frame by (simp add: SEGMENT_FILE_HEADER_LEN_def MAX_FILE_LEN_def)
next
  case False
  let ?len = "sw_segment_len (st_writer s)"
  have "unat ?len + length frame \<le> MAX_FILE_LEN"
  proof (cases "?len \<le> of_nat SEGMENT_FILE_HEADER_LEN")
    case True
    then have "unat ?len \<le> 4" by (simp add: word_le_nat_alt SEGMENT_FILE_HEADER_LEN_def)
    then show ?thesis using frame by (simp add: MAX_FILE_LEN_def)
  next
    case False': False
    then obtain len where len: "checked_add ?len wb = Some len" "len \<le> sw_max_segment_len (st_writer s)"
      using False by (auto simp: should_rotate_def not_less split: option.splits)
    then show ?thesis using room unat_checked_add [OF len(1)] wb by (simp add: roomy_def word_le_nat_alt)
  qed
  then show thesis using that [of s] False room by (simp add: sret_def roomy_def)
qed

lemma append_succeeds:
  assumes ok: "writer_ok s" and room: "roomy s" and enc: "encode_record_frame N n r = Inr frame"
  obtains p s' where "SegmentWriter_append N n r s = (Inr p, s')" and "d_faults (st_disk s') = []"
proof -
  have frame: "length frame \<le> 2 ^ 30 + 8" using encode_record_frame_body [OF enc] by auto
  define wb where "wb = (of_nat (length frame) :: u64)"
  have wb: "u64_try_from (length frame) = Some wb" "unat wb = length frame"
    using frame by (simp_all add: wb_def u64_try_from_def unat_of_nat_u64)
  obtain s1 where s1: "(if should_rotate (st_writer s) wb then SegmentWriter_rotate else sret ()) s = (Inr (), s1)"
    and calm: "d_faults (st_disk s1) = []"
    and small: "unat (sw_segment_len (st_writer s1)) + length frame \<le> MAX_FILE_LEN"
    using rotated_has_room [OF ok room frame wb(2)] .
  let ?f = "SegmentName_file_name (sw_active_segment (st_writer s1))"
  obtain base where base: "content_at (st_disk s1) ?f = Some base" "unat (sw_segment_len (st_writer s1)) = length base"
    using active_after_rotation [OF s1 ok] by (auto simp: seg_def)
  have wr: "sys_write_all ?f frame s1 = (Inr (), on_disk (append_content ?f frame) s1)"
    using calm_write [OF calm base(1)] small base(2) by simp
  have "unat (sw_segment_len (st_writer s1)) + unat wb < 2 ^ 64" using small wb(2) by (simp add: MAX_FILE_LEN_def)
  then have add: "checked_add (sw_segment_len (st_writer s1)) wb = Some (sw_segment_len (st_writer s1) + wb)"
    by (simp add: checked_add_def)
  define s2 where "s2 = on_metrics (segment_written (sw_segment_len (st_writer s1) + wb)) (on_metrics (record_written (metric_kind r) wb)
      ((on_disk (append_content ?f frame) s1)\<lparr>st_writer := (st_writer s1)\<lparr>sw_segment_len := sw_segment_len (st_writer s1) + wb\<rparr>\<rparr>))"
  have "st_writer (on_disk g s1) = st_writer s1" for g by (simp add: on_disk_def)
  then have "SegmentWriter_append N n r s = (Inr (RecordPosition (sw_active_segment (st_writer s1)) (sw_segment_len (st_writer s1))), s2)"
    using s1 wr add
    by (simp add: SegmentWriter_append_def enc wb(1) slift_def on_writer_def count_metric_def smodify_def sret_def Let_def s2_def)
  moreover have "d_faults (st_disk s2) = []" by (simp add: s2_def calm)
  ultimately show thesis by (rule that)
qed

section \<open>Engine operations\<close>

lemma save_record_succeeds:
  assumes "engine_ok N J s" and "is_active (st_registry s) n" and "roomy s" and "encode_record_frame N n r = Inr frame"
  obtains s' where "save_record N n r op s = (Inr (), s')" and "d_faults (st_disk s') = []"
proof -
  obtain p s' where s': "SegmentWriter_append N n r s = (Inr p, s')" "d_faults (st_disk s') = []"
    using append_succeeds [OF engine_okD(1) [OF assms(1)] assms(3,4)] .
  then show thesis using that [of s'] by (simp add: save_record_def ensure_active [OF assms(2)] sret_def)
qed

lemma writer_sync_succeeds:
  assumes calm: "d_faults (st_disk s) = []"
  obtains s' where "SegmentWriter_sync s = (Inr (), s')" and "d_faults (st_disk s') = []"
proof (cases "unsynced (st_metrics s) = (0, 0)")
  case True
  then show thesis using that [of s] calm by (simp add: SegmentWriter_sync_def unsynced_def sret_def)
next
  case False
  let ?f = "SegmentName_file_name (sw_active_segment (st_writer s))"
  have "SegmentWriter_sync s = (Inr (), on_metrics segment_synced (on_disk (mark_durable ?f) s))"
    using False calm_sync [OF calm, of ?f]
    by (auto simp: SegmentWriter_sync_def unsynced_def sync_current_segment_def count_metric_def smodify_def)
  then show thesis using that calm by simp
qed

lemma sync_succeeds:
  assumes "d_faults (st_disk s) = []"
  obtains s' where "Engine_sync s = (Inr (), s')" and "d_faults (st_disk s') = []"
proof -
  have "d_faults (st_disk (on_metrics sync_requested s)) = []" using assms by simp
  then obtain s' where "SegmentWriter_sync (on_metrics sync_requested s) = (Inr (), s')" "d_faults (st_disk s') = []"
    by (rule writer_sync_succeeds)
  then show thesis using that by (simp add: Engine_sync_def count_metric_def)
qed

section \<open>A small engine\<close>

text \<open>An engine with one node and an empty segment, for instances of the theorems.\<close>

definition demo_registry :: NodeRegistry where
  "demo_registry = [(1, \<lparr>re_metadata = NodeMetadata_default, re_removed = False\<rparr>),
     (2, \<lparr>re_metadata = NodeMetadata_default, re_removed = True\<rparr>)]"

definition demo_files :: "(string \<times> dirent) list" where
  "demo_files = [(WRITE_LOCK_FILE_NAME, empty_file),
     (NODE_REGISTRY_FILE_NAME, RegularFile
        \<lparr>f_content = text_bytes (format_node_registry list_nojson demo_registry),
         f_durable = length (text_bytes (format_node_registry list_nojson demo_registry))\<rparr>),
     (SegmentName_file_name 0, RegularFile \<lparr>f_content = SEGMENT_FORMAT_MAGIC, f_durable = 0\<rparr>)]"

definition demo_disk :: Disk where
  "demo_disk = \<lparr>d_dir = Directory, d_files = demo_files, d_locked = True, d_faults = []\<rparr>"

definition demo_engine :: engine where
  "demo_engine = \<lparr>st_disk = demo_disk, st_metrics = StorageMetrics_default,
     st_writer = \<lparr>sw_active_segment = 0, sw_segment_len = 4, sw_max_segment_len = 1000\<rparr>,
     st_registry = demo_registry, st_index = []\<rparr>"

lemma demo_sel [simp]:
  "st_disk demo_engine = demo_disk" "st_registry demo_engine = demo_registry" "st_index demo_engine = []"
  "st_metrics demo_engine = StorageMetrics_default"
  "st_writer demo_engine = \<lparr>sw_active_segment = 0, sw_segment_len = 4, sw_max_segment_len = 1000\<rparr>"
  "d_faults demo_disk = []" "d_locked demo_disk" "d_dir demo_disk = Directory"
  by (simp_all add: demo_engine_def demo_disk_def)

lemma demo_text_len: "length (format_node_registry list_nojson demo_registry) \<le> 1000"
  by (simp add: format_node_registry_def list_nojson_def registry_doc_def registry_entry_doc_def demo_registry_def
      node_key_def show_nat.simps show_text_def show_unary_def show_bits_def NodeMetadata_default_def NODE_REGISTRY_VERSION_def)

lemma demo_nodes [simp]:
  "is_active demo_registry 1" "is_removed demo_registry 2" "\<not> is_active demo_registry 2" "\<not> is_active demo_registry 3"
  "bt_get demo_registry 1 = Some \<lparr>re_metadata = NodeMetadata_default, re_removed = False\<rparr>" "bt_get demo_registry 3 = None"
  by (simp_all add: demo_registry_def is_active_def is_removed_def)

lemma demo_names: "SegmentName_file_name 0 \<noteq> WRITE_LOCK_FILE_NAME" "SegmentName_file_name 0 \<noteq> NODE_REGISTRY_FILE_NAME"
  using meta_names(1,5) by (metis rangeI)+

lemma demo_seg: "seg demo_disk n = (if n = 0 then Some SEGMENT_FORMAT_MAGIC else None)"
proof -
  have "SegmentName_file_name n \<noteq> WRITE_LOCK_FILE_NAME" "SegmentName_file_name n \<noteq> NODE_REGISTRY_FILE_NAME"
    using meta_names(1,5) by (metis rangeI)+
  then show ?thesis
    by (auto simp: seg_def content_at_def file_at_def disk_get_def demo_disk_def demo_files_def)
qed

lemma demo_ok: "disk_ok demo_disk"
  using demo_names by (auto simp: disk_ok_def demo_disk_def demo_files_def)

lemma demo_records: "dir_records demo_disk = []"
proof -
  have "seg_records demo_disk n = []" for n by (simp add: seg_records_def demo_seg)
  then show ?thesis by (simp add: dir_records_def)
qed

lemma demo_storage_ok: "storage_ok list_noraft list_nojson demo_disk demo_registry []"
proof -
  have "CHECKPOINT_INDEX_FILE_NAME \<noteq> SegmentName_file_name 0" using meta_names(3) by (metis rangeI)
  then have files: "disk_get demo_disk WRITE_LOCK_FILE_NAME = Some empty_file"
    "content_at demo_disk NODE_REGISTRY_FILE_NAME = Some (text_bytes (format_node_registry list_nojson demo_registry))"
    "disk_get demo_disk CHECKPOINT_INDEX_FILE_NAME = None"
    using meta_distinct(7) [THEN not_sym] meta_distinct(3,9) [THEN not_sym]
    by (auto simp: content_at_def file_at_def disk_get_def demo_disk_def demo_files_def)
  have "raw_ok list_nojson ''{}''"
    by (simp add: raw_ok_def list_nojson_def list_parse_def text_bytes_def)
  then have reg: "registry_ok list_nojson demo_registry"
    by (simp add: registry_ok_def entry_ok_def demo_registry_def NodeMetadata_default_def)
  have "crash_ok demo_disk"
    using demo_ok by (auto simp: crash_ok_def demo_seg clean_recoverable MAX_FILE_LEN_def SEGMENT_FILE_HEADER_LEN_def)
  then show ?thesis
    using files reg
    by (simp add: storage_ok_def decodable_def demo_records registry_stored_def index_stored_def index_ok_def empty_file_def)
qed

lemma demo_engine_ok: "engine_ok list_noraft list_nojson demo_engine"
proof -
  have "all_clean demo_disk"
    using demo_ok by (auto simp: all_clean_def demo_seg MAX_FILE_LEN_def SEGMENT_FILE_HEADER_LEN_def)
  moreover have "writer_ok demo_engine"
    using demo_ok by (simp add: writer_ok_def demo_seg SEGMENT_FILE_HEADER_LEN_def)
  moreover have "active_entries demo_registry [] = []" by (simp add: bt_retain_def)
  ultimately show ?thesis using demo_storage_ok by (auto simp: engine_ok_def)
qed

lemma demo_roomy: "roomy demo_engine"
proof -
  have "disk_get demo_disk (SegmentName_file_name n) \<noteq> Some OtherEntry" for n
    by (auto simp: disk_get_def demo_disk_def demo_files_def empty_file_def)
  then show ?thesis by (simp add: roomy_def plain_def MAX_FILE_LEN_def)
qed

end
