(* ===== verification/ReadOnly.thy ===== *)
theory ReadOnly
  imports Storage_Laws
begin

text \<open>
  What replay can do to a directory, whatever it contains: nothing when it does not recover, so the
  read-only functions never write, and cutting files otherwise.
\<close>

section \<open>Replay along a preorder\<close>

text \<open>\<open>recover\<close> is the flag \<^verbatim>\<open>recover_partial\<close>; when it is set, files may be cut.\<close>

locale replay_preorder = disk_preorder +
  fixes recover :: bool
  assumes faults: "recover \<Longrightarrow> d_faults d = x # fs \<Longrightarrow> R d (d\<lparr>d_faults := fs\<rparr>)" and cut: "recover \<Longrightarrow> R d (set_content name bs d)"
begin

lemma set_len: "recover \<Longrightarrow> obeys R (sys_set_len path n)"
  unfolding sys_set_len_def syscall_def next_fault_def
  by (auto simp: obeys_def sbind_def io_defs refl split: list.split option.split intro!: cut faults intro: trans [OF faults cut])

lemma open_read: "obeys R (sys_open_read path)"
  by (auto simp: obeys_def sys_open_read_def refl split: option.splits dirent.splits)

lemma header: "obeys R (read_segment_header path file allow_partial recover counted)"
  unfolding read_segment_header_def Let_def
  by (auto intro!: conditional bind pure set_len split: prod.split option.split)

lemma end_of_records: "obeys R (end_of_records path allow_partial recover start len acc)"
  unfolding end_of_records_def
  by (intro conditional bind pure set_len)

lemma read_record: "obeys R (read_record file)"
  by (auto simp: obeys_def read_record_def refl split: prod.split)

lemma scan_record: "obeys R (scan_record file)"
  by (auto simp: obeys_def scan_record_def refl split: prod.split)

lemma segment_loop:
  assumes "\<And>off body acc. obeys R (k off body acc)"
  shows "obeys R (segment_loop path allow_partial recover k file acc)"
proof -
  have "R (st_disk s) (st_disk (snd (segment_loop path allow_partial rp k file acc s)))" if "rp = recover" for rp s
    using assms that
  proof (induction path allow_partial rp k "file" acc s rule: segment_loop.induct)
    case (1 path allow_partial rp k "file" acc s)
    obtain x s1 where x: "read_record file s = (x, s1)" by fastforce
    note first = obeysD [OF read_record x]
    show ?case
    proof (cases x)
      case (Inl e)
      then show ?thesis using x first by (subst segment_loop.simps) simp
    next
      case (Inr bf)
      obtain b f where bf: "bf = (b, f)" by (cases bf)
      show ?thesis
      proof (cases b)
        case None
        have "R (st_disk s1) (st_disk (snd (end_of_records path allow_partial rp (rd_pos file) (length (rd_content file)) acc s1)))"
          by (simp add: 1(3) end_of_records [unfolded obeys_def])
        from trans [OF first this] show ?thesis using x bf Inr None by (subst segment_loop.simps) simp
      next
        case (Some body)
        obtain y s2 where y: "k (of_nat (rd_pos file)) body acc s1 = (y, s2)" by fastforce
        note second = trans [OF first obeysD [OF 1(2) y]]
        show ?thesis
        proof (cases y)
          case (Inl e)
          then show ?thesis using x bf Inr Some y second by (subst segment_loop.simps) simp
        next
          case acc': (Inr acc')
          note 1(1) [OF x [symmetric, unfolded Inr bf Some] HOL.refl HOL.refl HOL.refl y [symmetric, unfolded acc'] HOL.refl 1(2,3)]
          then show ?thesis using x bf Inr Some y acc' trans [OF second] by (subst segment_loop.simps) simp
        qed
      qed
    qed
  qed
  then show ?thesis by (simp add: obeys_def)
qed

lemma steps:
  "obeys R (scan_checkpoint_step N segment node_filter off body m)"
  "obeys R (replay_step N segment node_filter positions off body replay)"
  "obeys R (replay_node_step N segment n checkpoint off body state)"
  unfolding scan_checkpoint_step_def replay_step_def replay_node_step_def
  by (intro conditional bind pure)+

lemma segments:
  "obeys R (scan_checkpoint_positions N segment allow_partial node_filter start recover m)"
  "obeys R (replay_segment N segment allow_partial node_filter positions recover replay)"
  "obeys R (replay_node_segment N segment allow_partial n checkpoint recover state)"
  unfolding scan_checkpoint_positions_def replay_segment_def replay_node_segment_def Let_def
  by (auto intro!: conditional bind pure open_read header segment_loop steps)

lemma find_positions: "obeys R (find_checkpoint_positions_from N active node_filter start recover)"
  unfolding find_checkpoint_positions_from_def Let_def
  by (intro bind pure loop conditional segments)

lemma positions: "obeys R (checkpoint_positions_for_replay N active node_filter hints recover)"
  unfolding checkpoint_positions_for_replay_def find_checkpoint_positions_def Let_def
  by (auto intro!: bind pure conditional find_positions split: option.split)

lemma replay:
  "obeys R (replay_node_state N active n hint recover)"
  "obeys R (replay_storage_dir N active node_filter hints recover)"
  unfolding replay_node_state_def replay_storage_dir_def Let_def
  by (auto intro!: bind pure loop find_positions positions segments)

lemma scan_loop:
  assumes recover
  shows "obeys R (scan_loop path allow_partial file)"
proof -
  have all: "R (st_disk s) (st_disk (snd (scan_loop path allow_partial file s)))" for s
  proof (induction path allow_partial "file" s rule: scan_loop.induct)
    case (1 path allow_partial "file" s)
    obtain x s1 where x: "scan_record file s = (x, s1)" by fastforce
    note first = obeysD [OF scan_record x]
    have last: "R (st_disk s1) (st_disk (snd (end_of_records path allow_partial True (rd_pos file) (length (rd_content file)) () s1)))"
      using end_of_records [unfolded obeys_def, rule_format, of s1 path allow_partial] assms by simp
    show ?case
    proof (cases x)
      case (Inl e)
      then show ?thesis using x first by (subst scan_loop.simps) simp
    next
      case (Inr bf)
      obtain b f where bf: "bf = (b, f)" by (cases bf)
      show ?thesis
      proof (cases b)
        case None
        then show ?thesis using x bf Inr trans [OF first last] by (subst scan_loop.simps) simp
      next
        case (Some u)
        from 1 [OF x [symmetric, unfolded Inr bf Some] HOL.refl HOL.refl HOL.refl]
        show ?thesis using x bf Inr Some trans [OF first] by (subst scan_loop.simps) simp
      qed
    qed
  qed
  show ?thesis unfolding obeys_def by (intro allI all)
qed

lemma recovery:
  assumes recover
  shows "obeys R (recover_storage_dir active)"
proof -
  have header: "obeys R (read_segment_header path file allow_partial True counted)" for path "file" allow_partial counted
    unfolding read_segment_header_def Let_def
    by (auto intro!: conditional bind pure set_len assms split: prod.split option.split)
  have scan: "obeys R (scan_segment path allow_partial)" for path allow_partial
    unfolding scan_segment_def
    by (auto intro!: conditional bind pure open_read header scan_loop assms split: prod.split)
  show ?thesis unfolding recover_storage_dir_def
    by (intro bind pure loop scan)
qed

end

section \<open>The read-only functions\<close>

interpretation reading: replay_preorder "\<lambda>d d'. d' = d" False
  by unfold_locales simp_all

abbreviation only_reads :: "('x io_state_scheme, 'a) io \<Rightarrow> bool" where
  "only_reads \<equiv> obeys (\<lambda>d d'. d' = d)"

lemma only_reads_functions: "only_reads (ReadOnly_load N n)" "only_reads (ReadOnly_load_all N)"
  unfolding ReadOnly_load_def ReadOnly_load_all_def Let_def
  by (intro reading.bind reading.pure reading.conditional reading.replay)+

lemma with_read_only_reads:
  assumes "only_reads m"
  shows "snd (with_read_only N J m d) = d"
proof (cases "ReadOnly_open N J d")
  case (Inr s)
  have "st_disk s = d"
    using Inr by (auto simp: ReadOnly_open_def result_simps split: dir_status.splits)
  then show ?thesis using obeysD [OF assms, of s] Inr by (auto simp: with_read_only_def split: prod.split)
qed (simp add: with_read_only_def)

end
