(* ===== verification/Components.thy ===== *)
theory Components
  imports Liveness ReadOnly
begin

text \<open>
  The properties of the components below the storage engine: segment names and discovery, the
  segment writer, the two metadata files, the garbage collection barrier, replay, and recovery.
\<close>

section \<open>Instances\<close>

lemma demo_encodes: "\<exists>frame. encode_record_frame list_noraft n (CurrentTerm t) = Inr frame"
  by (simp add: encode_record_frame_def encode_record_body_def encode_node_id_def
      encode_term_def put_u64_def put_u8_def put_slice_def check_append_len_def Encoder_new_def Encoder_finish_def
      checked_add_def u32_try_from_def MAX_RECORD_BODY_LEN_def)

lemma demo_append: "\<exists>p s'. SegmentWriter_append list_noraft n (CurrentTerm t) demo_engine = (Inr p, s')"
proof -
  obtain frame where enc: "encode_record_frame list_noraft n (CurrentTerm t) = Inr frame" using demo_encodes by blast
  obtain p s' where "SegmentWriter_append list_noraft n (CurrentTerm t) demo_engine = (Inr p, s')"
    by (rule append_succeeds [OF engine_okD(1) [OF demo_engine_ok] demo_roomy enc])
  then show ?thesis by blast
qed

lemma demo_regular: "disk_get demo_disk name \<noteq> Some OtherEntry"
  by (auto simp: disk_get_def demo_disk_def demo_files_def empty_file_def)

lemma demo_registry_ok: "registry_ok list_nojson demo_registry"
  using demo_storage_ok by (simp add: storage_ok_def registry_stored_def)

lemma demo_replace:
  assumes "path \<noteq> tmp" and "length text \<le> 1000"
  shows "\<exists>s'. replace_file path tmp text demo_engine = (Inr (), s')"
proof -
  have calm: "d_faults (st_disk demo_engine) = []" and len: "length text \<le> MAX_FILE_LEN"
    using assms(2) by (simp_all add: MAX_FILE_LEN_def)
  have other: "disk_get (st_disk demo_engine) name \<noteq> Some OtherEntry" for name
    using demo_regular by simp
  obtain s' where "replace_file path tmp text demo_engine = (Inr (), s')"
    by (rule replace_file_succeeds [OF calm other other len assms(1)])
  then show ?thesis by blast
qed

lemma demo_save_registry: "\<exists>s'. NodeRegistry_save list_nojson demo_registry demo_engine = (Inr (), s')"
  unfolding NodeRegistry_save_def by (rule demo_replace [OF meta_distinct(1) demo_text_len])

definition demo_index :: CheckpointIndex where
  "demo_index = [(2, RecordPosition 0 4)]"

lemma demo_index_facts: "bt_wf demo_index" "active_entries demo_registry demo_index = []"
  by (simp_all add: demo_index_def bt_retain_def)

lemma demo_index_len: "length (format_checkpoint_index list_nojson demo_index) \<le> 1000"
  by (simp add: format_checkpoint_index_def list_nojson_def checkpoint_index_doc_def checkpoint_node_doc_def demo_index_def
      node_key_def show_nat.simps show_text_def show_unary_def show_bits_def CHECKPOINT_INDEX_VERSION_def SegmentName_file_name_def
      SEGMENT_FILE_SUFFIX_def)

lemma demo_save_index: "\<exists>s'. CheckpointIndex_save list_nojson demo_index demo_engine = (Inr (), s')"
  unfolding CheckpointIndex_save_def by (rule demo_replace [OF meta_distinct(2) demo_index_len])

section \<open>Segments\<close>

lemma should_rotate_iff:
  assumes "unat wb = len"
  shows "should_rotate w wb \<longleftrightarrow> SEGMENT_FILE_HEADER_LEN < unat (sw_segment_len w) \<and>
    unat (sw_max_segment_len w) < unat (sw_segment_len w) + len"
proof (cases "checked_add (sw_segment_len w) wb")
  case None
  then have "2 ^ 64 \<le> unat (sw_segment_len w) + len" using assms by (simp add: checked_add_def split: if_splits)
  then have "unat (sw_max_segment_len w) < unat (sw_segment_len w) + len"
    using u64_bound [of "sw_max_segment_len w"] by (rule less_le_trans [rotated])
  then show ?thesis using None by (simp add: should_rotate_def word_le_nat_alt SEGMENT_FILE_HEADER_LEN_def not_le)
next
  case (Some n)
  then show ?thesis
    using assms unat_checked_add [OF Some]
    by (auto simp: should_rotate_def word_le_nat_alt word_less_nat_alt SEGMENT_FILE_HEADER_LEN_def)
qed

lemma append_rotates_iff:
  assumes "SegmentWriter_append N n r s = (Inr pos, s')" and "writer_ok s" and "encode_record_frame N n r = Inr frame"
  shows "sw_active_segment (st_writer s') \<noteq> sw_active_segment (st_writer s) \<longleftrightarrow>
    SEGMENT_FILE_HEADER_LEN < unat (sw_segment_len (st_writer s)) \<and>
    unat (sw_max_segment_len (st_writer s)) < unat (sw_segment_len (st_writer s)) + length frame"
proof -
  obtain wb s1 where wb: "u64_try_from (length frame) = Some wb"
    and s1: "(if should_rotate (st_writer s) wb then SegmentWriter_rotate else sret ()) s = (Inr (), s1)"
    and s': "sw_active_segment (st_writer s') = sw_active_segment (st_writer s1)"
    by (rule SegmentWriter_append_steps [OF assms(1)]) (rule that, use assms(3) in \<open>auto simp: on_metrics_def\<close>)
  have "unat wb = length frame" using wb by (auto simp: u64_try_from_def unat_of_nat_u64 split: if_splits)
  note rotate = should_rotate_iff [OF this, of "st_writer s"]
  show ?thesis
  proof (cases "should_rotate (st_writer s) wb")
    case True
    then have "sw_active_segment (st_writer s) < sw_active_segment (st_writer s1)"
      using SegmentWriter_rotate_ok [of s s1] s1 assms(2) by (auto simp: writer_ok_def)
    then show ?thesis using True rotate s' by auto
  next
    case False
    then have "s1 = s" using s1 by (simp add: sret_def)
    then show ?thesis using False rotate s' by blast
  qed
qed

lemma append_segment_len:
  assumes "SegmentWriter_append N n r s = (Inr pos, s')" and "writer_ok s" and "encode_record_frame N n r = Inr frame"
  shows "unat (sw_segment_len (st_writer s')) \<le> unat (sw_max_segment_len (st_writer s)) \<or>
    unat (sw_segment_len (st_writer s')) = SEGMENT_FILE_HEADER_LEN + length frame"
proof -
  obtain wb s1 len where wb: "u64_try_from (length frame) = Some wb"
    and s1: "(if should_rotate (st_writer s) wb then SegmentWriter_rotate else sret ()) s = (Inr (), s1)"
    and len: "checked_add (sw_segment_len (st_writer s1)) wb = Some len"
    and s': "sw_segment_len (st_writer s') = len"
    by (rule SegmentWriter_append_steps [OF assms(1)]) (rule that, use assms(3) in \<open>auto simp: on_metrics_def\<close>)
  have wb': "unat wb = length frame" using wb by (auto simp: u64_try_from_def unat_of_nat_u64 split: if_splits)
  show ?thesis
  proof (cases "should_rotate (st_writer s) wb")
    case True
    then have "sw_segment_len (st_writer s1) = of_nat SEGMENT_FILE_HEADER_LEN"
      using SegmentWriter_rotate_ok [of s s1] s1 assms(2) by (auto simp: writer_ok_def)
    then show ?thesis using unat_checked_add [OF len] wb' s' by (simp add: SEGMENT_FILE_HEADER_LEN_def)
  next
    case False
    then have same: "s1 = s" using s1 by (simp add: sret_def)
    show ?thesis
    proof (cases "sw_segment_len (st_writer s) \<le> of_nat SEGMENT_FILE_HEADER_LEN")
      case True
      then have "unat (sw_segment_len (st_writer s)) = SEGMENT_FILE_HEADER_LEN"
        using assms(2) by (auto simp: writer_ok_def word_le_nat_alt SEGMENT_FILE_HEADER_LEN_def)
      then show ?thesis using unat_checked_add [OF len] wb' s' same by simp
    next
      case False': False
      then have "len \<le> sw_max_segment_len (st_writer s)" using False len same by (simp add: should_rotate_def not_less)
      then show ?thesis using s' by (simp add: word_le_nat_alt)
    qed
  qed
qed

text \<open>
  C29. A directory entry is taken for a segment exactly when its name is the one that the crate
  gives to that segment: \<^verbatim>\<open>parse_file_name\<close> inverts \<^verbatim>\<open>file_name\<close> and accepts nothing else, no
  leading zeros, no plus sign and no number beyond 64 bits.
\<close>

theorem segment_name_roundtrip:
  "SegmentName_parse file_name = Some n \<longleftrightarrow> file_name = SegmentName_file_name n"
  by (rule SegmentName_parse_iff)

text \<open>
  C30. \<^verbatim>\<open>discover_segment_paths\<close> returns each regular file with a segment name once, and nothing
  else, in strictly ascending order of the segments, whatever the order of the directory entries.
\<close>

theorem discover_segments_exact:
  assumes "d_dir d = Directory" and "distinct (map fst (d_files d))"
  shows "sorted_wrt (<) (map sp_name (discover_segment_paths d)) \<and>
    (\<forall>p. p \<in> set (discover_segment_paths d) \<longleftrightarrow>
       sp_path p = SegmentName_file_name (sp_name p) \<and> content_at d (sp_path p) \<noteq> None)"
proof -
  have ok: "disk_ok d" using assms by (simp add: disk_ok_def)
  have "p \<in> set (discover_segment_paths d) \<longleftrightarrow>
      sp_path p = SegmentName_file_name (sp_name p) \<and> content_at d (sp_path p) \<noteq> None" for p
    by (cases p) (auto simp: set_discover [OF ok] seg_def seg_path_def)
  then show ?thesis using seg_names(3) [OF ok] by (simp add: seg_names_def)
qed

theorem discover_segments_exact_witness:
  "\<forall>p. p \<in> set (discover_segment_paths demo_disk) \<longleftrightarrow>
     sp_path p = SegmentName_file_name (sp_name p) \<and> content_at demo_disk (sp_path p) \<noteq> None"
  using discover_segments_exact [of demo_disk] demo_ok by (simp add: disk_ok_def)

text \<open>
  C31. A successful \<^verbatim>\<open>append\<close> puts exactly the encoded frame behind the previous content of one
  segment, which is the active segment or a new one that held only its header; it returns the
  segment and the offset at which the frame starts, and every other file stays as it was.
\<close>

theorem append_writes_frame:
  assumes "writer_ok s" and "SegmentWriter_append N n r s = (Inr pos, s')"
  shows "\<exists>frame base. encode_record_frame N n r = Inr frame \<and> unat (rp_offset pos) = length base \<and>
    (seg (st_disk s) (rp_segment pos) = Some base \<or>
       seg (st_disk s) (rp_segment pos) = None \<and> base = SEGMENT_FORMAT_MAGIC) \<and>
    content_at (st_disk s') = (content_at (st_disk s))(SegmentName_file_name (rp_segment pos) \<mapsto> base @ frame) \<and>
    sw_active_segment (st_writer s') = rp_segment pos"
proof -
  obtain frame a base where frame: "encode_record_frame N n r = Inr frame" "pos = RecordPosition a (of_nat (length base))"
      "content_at (st_disk s') = (content_at (st_disk s))(SegmentName_file_name a \<mapsto> base @ frame)"
      "a = sw_active_segment (st_writer s) \<and> seg (st_disk s) a = Some base \<or>
       sw_active_segment (st_writer s) < a \<and> seg (st_disk s) a = None \<and> base = SEGMENT_FORMAT_MAGIC"
      "sw_active_segment (st_writer s') = a" "length (base @ frame) \<le> MAX_FILE_LEN"
    by (rule SegmentWriter_append_ok [OF assms(2,1)]) blast
  have "unat (of_nat (length base) :: u64) = length base"
    using frame(6) by (simp add: unat_of_nat_u64 MAX_FILE_LEN_def)
  with frame show ?thesis by (intro exI [of _ frame] exI [of _ base]) auto
qed

theorem append_writes_frame_witness:
  "\<exists>p s' frame. SegmentWriter_append list_noraft 1 (CurrentTerm 5) demo_engine = (Inr p, s') \<and>
     encode_record_frame list_noraft 1 (CurrentTerm 5) = Inr frame"
proof -
  obtain p s' where run: "SegmentWriter_append list_noraft 1 (CurrentTerm 5) demo_engine = (Inr p, s')"
    using demo_append by blast
  from append_writes_frame [OF engine_okD(1) [OF demo_engine_ok] this] run show ?thesis by blast
qed

text \<open>
  C32. Rotation keeps segments within the configured length: a successful append starts a new segment
  exactly when the active one holds more than its header and would become longer than the maximum
  with the new frame. Afterwards the active segment is not longer than the maximum, unless it holds
  nothing but the header and the new frame, which are together longer than that.
\<close>

theorem rotation_bounds_segments:
  assumes "writer_ok s" and "SegmentWriter_append N n r s = (Inr pos, s')" and "encode_record_frame N n r = Inr frame"
  shows "(sw_active_segment (st_writer s') \<noteq> sw_active_segment (st_writer s) \<longleftrightarrow>
      SEGMENT_FILE_HEADER_LEN < unat (sw_segment_len (st_writer s)) \<and>
      unat (sw_max_segment_len (st_writer s)) < unat (sw_segment_len (st_writer s)) + length frame) \<and>
    (\<exists>c. seg (st_disk s') (sw_active_segment (st_writer s')) = Some c \<and> unat (sw_segment_len (st_writer s')) = length c \<and>
      (length c \<le> unat (sw_max_segment_len (st_writer s)) \<or>
       length c = SEGMENT_FILE_HEADER_LEN + length frame \<and> drop SEGMENT_FILE_HEADER_LEN c = frame))"
proof -
  obtain a base where content: "content_at (st_disk s') = (content_at (st_disk s))(SegmentName_file_name a \<mapsto> base @ frame)"
    and a: "sw_active_segment (st_writer s') = a" and ok: "writer_ok s'"
    by (rule SegmentWriter_append_ok [OF assms(2,1)]) (use assms(3) in auto)
  have c: "seg (st_disk s') (sw_active_segment (st_writer s')) = Some (base @ frame)"
    by (simp add: seg_def content a)
  then have len: "unat (sw_segment_len (st_writer s')) = length (base @ frame)" using ok by (simp add: writer_ok_def)
  then have "length (base @ frame) \<le> unat (sw_max_segment_len (st_writer s)) \<or> length base = SEGMENT_FILE_HEADER_LEN"
    using append_segment_len [OF assms(2,1,3)] by auto
  then show ?thesis using append_rotates_iff [OF assms(2,1,3)] c len by auto
qed

theorem rotation_bounds_segments_witness:
  "\<exists>p s'. SegmentWriter_append list_noraft 7 (CurrentTerm 5) demo_engine = (Inr p, s') \<and>
     sw_active_segment (st_writer s') = 0 \<and> unat (sw_segment_len (st_writer s')) \<le> 1000"
proof -
  obtain p s' where run: "SegmentWriter_append list_noraft 7 (CurrentTerm 5) demo_engine = (Inr p, s')"
    using demo_append by blast
  have "length sample_frame = 25" by (simp add: sample_frame_def)
  with rotation_bounds_segments [OF engine_okD(1) [OF demo_engine_ok] run sample_frame_encodes] run show ?thesis
    by (auto simp: SEGMENT_FILE_HEADER_LEN_def)
qed

section \<open>Metadata files\<close>

text \<open>
  Metadata files are replaced atomically: whatever system call fails in \<^verbatim>\<open>save\<close>, the file has
  its new text or is the entry it was before, success means the new text, and no file other than
  it and its temporary file changes.
\<close>

theorem metadata_replaced_atomically:
  assumes "path \<noteq> tmp_path" and "replace_file path tmp_path text s = (r, s')"
  shows "(content_at (st_disk s') path = Some (text_bytes text) \<or>
      r \<noteq> Inr () \<and> disk_get (st_disk s') path = disk_get (st_disk s) path) \<and>
    (\<forall>name. name \<noteq> path \<longrightarrow> name \<noteq> tmp_path \<longrightarrow> disk_get (st_disk s') name = disk_get (st_disk s) name)"
  using replace_file_effect [OF assms] by (auto simp: touch_def)

theorem metadata_replaced_atomically_witness:
  "\<exists>r s'. replace_file NODE_REGISTRY_FILE_NAME NODE_REGISTRY_TMP_FILE_NAME ''{}'' demo_engine = (r, s') \<and>
     seg (st_disk s') 0 = Some SEGMENT_FORMAT_MAGIC"
proof -
  obtain r s' where run: "replace_file NODE_REGISTRY_FILE_NAME NODE_REGISTRY_TMP_FILE_NAME ''{}'' demo_engine = (r, s')"
    by fastforce
  have "SegmentName_file_name 0 \<noteq> NODE_REGISTRY_FILE_NAME" "SegmentName_file_name 0 \<noteq> NODE_REGISTRY_TMP_FILE_NAME"
    using meta_names(1,2) by (metis rangeI)+
  then have "disk_get (st_disk s') (SegmentName_file_name 0) = disk_get demo_disk (SegmentName_file_name 0)"
    using metadata_replaced_atomically [OF meta_distinct(1) run] by simp
  then show ?thesis
    using run demo_seg [of 0] by (auto simp: seg_def content_at_def file_at_def)
qed

text \<open>
  C33. The registry survives its file: what \<^verbatim>\<open>NodeRegistry::save\<close> wrote, \<^verbatim>\<open>load\<close> reads back, every
  node with its metadata and its removed flag.
\<close>

theorem registry_file_roundtrip:
  assumes "json_laws J" and "registry_ok J reg" and "NodeRegistry_save J reg s = (Inr (), s')"
  shows "NodeRegistry_load J (st_disk s') = Inr reg"
  using replace_file_effect [OF meta_distinct(1) assms(3) [unfolded NodeRegistry_save_def]]
  by (intro NodeRegistry_load_saved [OF assms(1,2)]) simp

theorem registry_file_roundtrip_witness:
  "\<exists>s'. NodeRegistry_save list_nojson demo_registry demo_engine = (Inr (), s') \<and>
     NodeRegistry_load list_nojson (st_disk s') = Inr demo_registry"
proof -
  obtain s' where run: "NodeRegistry_save list_nojson demo_registry demo_engine = (Inr (), s')"
    using demo_save_registry by blast
  from registry_file_roundtrip [OF list_json_laws demo_registry_ok run] run show ?thesis by blast
qed

text \<open>
  C34. The checkpoint index survives its file, except for the nodes that are not active: what
  \<^verbatim>\<open>CheckpointIndex::save\<close> wrote, \<^verbatim>\<open>load\<close> returns restricted to the active nodes, provided that each
  of those entries points to a checkpoint record of its node.
\<close>

theorem index_file_roundtrip:
  assumes "json_laws J" and "bt_wf idx" and "CheckpointIndex_save J idx s = (Inr (), s')"
  shows "CheckpointIndex_load N J (st_disk s') reg =
    rbind (validate_checkpoint_positions N (st_disk s') (active_entries reg idx)) (\<lambda>_. Inr (active_entries reg idx))"
  using replace_file_effect [OF meta_distinct(2) assms(3) [unfolded CheckpointIndex_save_def]]
    CheckpointIndex_load_saved [OF assms(1,2), of "st_disk s'" N reg] by (simp add: Let_def)

theorem index_file_roundtrip_witness:
  "\<exists>s'. CheckpointIndex_save list_nojson demo_index demo_engine = (Inr (), s') \<and>
     CheckpointIndex_load list_noraft list_nojson (st_disk s') demo_registry = Inr []"
proof -
  obtain s' where run: "CheckpointIndex_save list_nojson demo_index demo_engine = (Inr (), s')"
    using demo_save_index by blast
  from index_file_roundtrip [OF list_json_laws demo_index_facts(1) run, of list_noraft demo_registry] run show ?thesis
    by (auto simp: demo_index_facts validate_checkpoint_positions_def)
qed

section \<open>Garbage collection\<close>

lemma gc_barrier_None:
  "fold_option (\<lambda>oldest n. map_option (\<lambda>p. f p oldest) (checkpoint_position idx n)) m ids = None \<longleftrightarrow>
     (\<exists>n \<in> set ids. bt_get idx n = None)"
  by (induction ids arbitrary: m) (auto simp: checkpoint_position_def split: option.splits)

lemma gc_barrier_min:
  "fold_option (\<lambda>oldest n. map_option (\<lambda>p.
      Some (case oldest of Some o' \<Rightarrow> min o' (rp_segment p) | None \<Rightarrow> rp_segment p)) (checkpoint_position idx n)) m ids = Some r \<Longrightarrow>
   (case r of Some j \<Rightarrow> k < j | None \<Rightarrow> True) \<longleftrightarrow>
     (case m of Some j \<Rightarrow> k < j | None \<Rightarrow> True) \<and> (\<forall>n \<in> set ids. \<forall>p. bt_get idx n = Some p \<longrightarrow> k < rp_segment p)"
proof (induction ids arbitrary: m)
  case (Cons n ids)
  then obtain p where p: "bt_get idx n = Some p"
    and rest: "fold_option (\<lambda>oldest n. map_option (\<lambda>p.
      Some (case oldest of Some o' \<Rightarrow> min o' (rp_segment p) | None \<Rightarrow> rp_segment p)) (checkpoint_position idx n))
      (Some (case m of Some o' \<Rightarrow> min o' (rp_segment p) | None \<Rightarrow> rp_segment p)) ids = Some r"
    by (auto simp: checkpoint_position_def split: option.splits)
  show ?case using Cons.IH [OF rest] p by (auto split: option.splits)
qed simp

lemma gc_barrier_allows:
  "(gc_barrier idx node_ids = None \<longleftrightarrow> (\<exists>n \<in> set node_ids. bt_get idx n = None)) \<and>
   (\<forall>b. gc_barrier idx node_ids = Some b \<longrightarrow>
      (allows_delete b k \<longleftrightarrow> (\<forall>n \<in> set node_ids. \<forall>p. bt_get idx n = Some p \<longrightarrow> k < rp_segment p)))"
proof (intro conjI allI impI)
  show "gc_barrier idx node_ids = None \<longleftrightarrow> (\<exists>n \<in> set node_ids. bt_get idx n = None)"
    by (simp add: gc_barrier_def gc_barrier_None)
  fix b assume "gc_barrier idx node_ids = Some b"
  then obtain r where r: "fold_option (\<lambda>oldest n. map_option (\<lambda>p.
      Some (case oldest of Some o' \<Rightarrow> min o' (rp_segment p) | None \<Rightarrow> rp_segment p)) (checkpoint_position idx n))
      None node_ids = Some r" and b: "b = (case r of Some segment \<Rightarrow> Before segment | None \<Rightarrow> AllInactiveAppendSegments)"
    by (auto simp: gc_barrier_def)
  from gc_barrier_min [OF r, of k] b
  show "allows_delete b k \<longleftrightarrow> (\<forall>n \<in> set node_ids. \<forall>p. bt_get idx n = Some p \<longrightarrow> k < rp_segment p)"
    by (cases r) simp_all
qed

text \<open>What may be deleted, in terms of the checkpoint positions of the active nodes.\<close>

lemma deletable_iff:
  assumes "bt_wf (st_registry s)"
  shows "n \<in> deletable s \<longleftrightarrow> n \<noteq> sw_active_segment (st_writer s) \<and>
    (\<forall>k. is_active (st_registry s) k \<longrightarrow> (\<exists>p. bt_get (st_index s) k = Some p \<and> n < rp_segment p))"
proof -
  have ids: "k \<in> set (active_node_ids (st_registry s)) \<longleftrightarrow> is_active (st_registry s) k" for k
    using active_node_ids(2) [OF assms] by blast
  note gc = gc_barrier_allows [of "st_index s" "active_node_ids (st_registry s)" n, unfolded Ball_def Bex_def ids]
  show ?thesis
  proof (cases "gc_barrier (st_index s) (active_node_ids (st_registry s))")
    case None
    then show ?thesis using gc by (auto simp: deletable_def)
  next
    case (Some b)
    then have "\<exists>p. bt_get (st_index s) k = Some p" if "is_active (st_registry s) k" for k
      using gc that by (metis not_None_eq option.distinct(1))
    then show ?thesis using gc Some by (auto simp: deletable_def) (metis option.inject)
  qed
qed

text \<open>
  C35. The garbage collection barrier is exact: there is none as long as some active node has no
  indexed checkpoint; otherwise it lets a segment go if and only if the segment lies strictly
  before the segment of every active node's checkpoint.
\<close>

theorem gc_barrier_exact:
  "(gc_barrier idx node_ids = None \<longleftrightarrow> (\<exists>n \<in> set node_ids. bt_get idx n = None)) \<and>
   (\<forall>b. gc_barrier idx node_ids = Some b \<longrightarrow>
      (allows_delete b k \<longleftrightarrow> (\<forall>n \<in> set node_ids. \<forall>p. bt_get idx n = Some p \<longrightarrow> k < rp_segment p)))"
  by (rule gc_barrier_allows)

theorem gc_barrier_exact_witness:
  "gc_barrier demo_index [2] = Some (Before 0) \<and> \<not> allows_delete (Before 0) 0"
proof -
  have b: "gc_barrier demo_index [2] = Some (Before 0)"
    by (simp add: gc_barrier_def demo_index_def checkpoint_position_def)
  with gc_barrier_exact [of demo_index "[2]" 0] show ?thesis by (auto simp: demo_index_def)
qed

section \<open>Replay\<close>

lemma record_count_bound: "8 * length (layout off (fst (parse_bodies bs))) \<le> length bs"
proof -
  have layout: "length (layout off bodies) = length bodies" for off bodies by (metis layout_bodies length_map)
  have frames: "8 * length bodies \<le> length (frames bodies)" for bodies by (induction bodies) simp_all
  have "length bs = length (frames (fst (parse_bodies bs))) + length (snd (parse_bodies bs))"
    using parse_bodies_split [of bs] length_append by metis
  then show ?thesis using frames [of "fst (parse_bodies bs)"] by (simp add: layout)
qed

text \<open>
  C36. The loop over the records of a segment file returns for every file, with every reader
  position inside it: it is a fold over the list of complete records behind that position, each of
  them once, with its offset, and there are at most as many as the bytes allow; behind the last one
  it decides by the tail alone.
\<close>

theorem segment_loop_terminates:
  assumes "rd_pos file \<le> length (rd_content file)"
  shows "segment_loop path allow_partial recover_partial on_record file acc s =
      sbind (sfold (\<lambda>(off, body). on_record (of_nat off) body) (layout (rd_pos file) (fst (parse_bodies (unread file)))) acc)
       (tail_action path allow_partial recover_partial (snd (parse_bodies (unread file))) (length (rd_content file))) s \<and>
    8 * length (layout (rd_pos file) (fst (parse_bodies (unread file)))) \<le> length (rd_content file) - rd_pos file"
proof
  show "segment_loop path allow_partial recover_partial on_record file acc s =
      sbind (sfold (\<lambda>(off, body). on_record (of_nat off) body) (layout (rd_pos file) (fst (parse_bodies (unread file)))) acc)
       (tail_action path allow_partial recover_partial (snd (parse_bodies (unread file))) (length (rd_content file))) s"
    by (rule segment_loop_fold) (simp add: reader_ok_def assms)
  show "8 * length (layout (rd_pos file) (fst (parse_bodies (unread file)))) \<le> length (rd_content file) - rd_pos file"
    using record_count_bound [of "rd_pos file" "unread file"] by simp
qed

theorem segment_loop_terminates_witness:
  "segment_loop ''f'' True False (\<lambda>off body (n :: nat). sret (n + 1)) \<lparr>rd_content = [1, 2, 3], rd_pos = 0\<rparr> 0 demo_engine =
     (Inr 0, on_metrics replay_truncated demo_engine)"
proof -
  have "parse_bodies [1, 2, 3] = ([], [1, 2, 3])" "next_frame [1, 2, 3] = Torn"
    by (simp_all add: parse_bodies_not_frame not_frame_def next_frame_def)
  then show ?thesis
    using segment_loop_terminates [of "\<lparr>rd_content = [1, 2, 3], rd_pos = 0\<rparr>" "''f''" True False
        "\<lambda>off body (n :: nat). sret (n + 1)" 0 demo_engine]
    by (simp add: tail_action_def end_of_records_def count_metric_def smodify_def sret_def)
qed

text \<open>
  C37. The checkpoint index is only an accelerator: replaying a node from the indexed position of any
  of its checkpoint records gives the same state, or the same error, as replaying it with no hint
  from the first segment on, for the recovering reader and for the read-only one.
\<close>

theorem replay_hint_irrelevant:
  fixes N :: "('le, 'lg) noraft" and s :: "'x io_state_scheme"
  assumes "readable (st_disk s) recover_partial" and "decodable N (st_disk s)"
    and "ckpt_at N n (dir_records (st_disk s)) p"
  shows "fst (replay_node_state N active n (Some p) recover_partial s) =
    fst (replay_node_state N active' n None recover_partial s)"
proof -
  let ?m = "\<lambda>a h. replay_node_state N a n h recover_partial :: ('x io_state_scheme, 'lg NodeState) io"
  have hint: "hint_ok N (st_disk s) n (Some p)" "hint_ok N (st_disk s) n None" using assms(3) by (simp_all add: hint_ok_def)
  have "quiet (st_disk s) (?m active (Some p)) (node_result N (st_disk s) n)"
    by (rule quiet_replay_node_state [OF assms(1,2) hint(1)])
  moreover have "quiet (st_disk s) (?m active' None) (node_result N (st_disk s) n)"
    by (rule quiet_replay_node_state [OF assms(1,2) hint(2)])
  ultimately show ?thesis by (simp add: quiet_def)
qed

lemma demo_checkpoint_encodes: "\<exists>frame. encode_record_frame list_noraft n (Checkpoint (initial_checkpoint list_noraft)) = Inr frame"
  by (simp add: initial_checkpoint_def encode_record_frame_def encode_record_body_def encode_node_id_def
      encode_snapshot_checkpoint_def SnapshotCheckpoint_validate_def LogAppend_validate_def encode_optional_node_id_def
      encode_snapshot_def encode_log_position_def encode_log_index_def encode_cluster_config_def encode_node_id_set_def
      encode_count_def encode_log_append_def encode_log_entries_def ClusterConfig_new_def LogPosition_ZERO_def
      encode_term_def put_u64_def put_u8_def put_u32_def put_bytes_def put_slice_def check_append_len_def Encoder_new_def
      Encoder_finish_def checked_add_def u32_try_from_def MAX_RECORD_BODY_LEN_def MAX_COUNT_ITEMS_def rep_mk_entries)

lemma demo_checkpoint:
  obtains p s where "engine_ok list_noraft list_nojson s" and "ckpt_at list_noraft 1 (dir_records (st_disk s)) p"
    and "st_registry s = demo_registry"
proof -
  let ?r = "Checkpoint (initial_checkpoint list_noraft)"
  obtain frame where enc: "encode_record_frame list_noraft 1 ?r = Inr frame" using demo_checkpoint_encodes by blast
  obtain p s where run: "SegmentWriter_append list_noraft 1 ?r demo_engine = (Inr p, s)"
    by (rule append_succeeds [OF engine_okD(1) [OF demo_engine_ok] demo_roomy enc])
  from engine_append [OF list_noraft_laws initial_checkpoint_wf [OF list_noraft_laws] demo_engine_ok run] show thesis
  proof (cases rule: grownE)
    case (grew q body)
    then show thesis using that [of s q] ckpt_at_new [OF grew(1,2)] by simp
  qed simp
qed

theorem replay_hint_irrelevant_witness:
  "\<exists>s p. ckpt_at list_noraft 1 (dir_records (st_disk s)) p \<and>
     fst (replay_node_state list_noraft 0 1 (Some p) True (s :: engine)) = fst (replay_node_state list_noraft 7 1 None True s)"
proof -
  obtain p s where s: "engine_ok list_noraft list_nojson s" "ckpt_at list_noraft 1 (dir_records (st_disk s)) p"
    using demo_checkpoint .
  have "readable (st_disk s) True" using engine_okD(2,3) [OF s(1)] by (simp add: readable_def)
  from replay_hint_irrelevant [OF this engine_okD(5) [OF s(1)] s(2)] s(2) show ?thesis by blast
qed

text \<open>
  C38. Recovery repairs torn tails and does nothing else: whatever system call fails, only segment
  files change, no complete record is lost and no segment grows; when it succeeds, every segment
  consists of complete records, or is empty; and without failures it succeeds.
\<close>

theorem recovery_keeps_records:
  assumes "crash_ok (st_disk s)" and "recover_storage_dir (select_active_append_segment (st_disk s)) s = (r, s')"
  shows "dir_records (st_disk s') = dir_records (st_disk s) \<and> crash_ok (st_disk s') \<and>
    touch segment_files (st_disk s) (st_disk s') \<and>
    (\<forall>n c'. seg (st_disk s') n = Some c' \<longrightarrow> (\<exists>c. seg (st_disk s) n = Some c \<and> length c' \<le> length c)) \<and>
    (r = Inr () \<longrightarrow> (\<forall>n c. seg (st_disk s') n = Some c \<longrightarrow> clean c \<or> c = [])) \<and>
    (d_faults (st_disk s) = [] \<longrightarrow> r = Inr ())"
proof -
  note eff = recover_effect [OF assms]
  have "\<exists>c. seg (st_disk s) n = Some c \<and> length c' \<le> length c" if "seg (st_disk s') n = Some c'" for n c'
    using repairsD(2) [OF eff(1) that] by (auto simp: trims_def)
  moreover have "r = Inr ()" if "d_faults (st_disk s) = []" using eff(3) that by (auto simp: calmly_def)
  ultimately show ?thesis
    using repairs_records [OF eff(1) assms(1)] repairsD(3) [OF eff(1)] eff(2) by (auto simp: repaired_def)
qed

definition torn_disk :: Disk where
  "torn_disk = demo_disk\<lparr>d_files := [(SegmentName_file_name 0,
     RegularFile \<lparr>f_content = SEGMENT_FORMAT_MAGIC @ [1, 2, 3], f_durable = 0\<rparr>)]\<rparr>"

lemma torn_disk_ok: "crash_ok torn_disk" "d_faults torn_disk = []"
proof -
  have seg: "seg torn_disk n = (if n = 0 then Some (SEGMENT_FORMAT_MAGIC @ [1, 2, 3]) else None)" for n
    by (auto simp: torn_disk_def seg_def content_at_def file_at_def disk_get_def)
  have "next_frame [1, 2, 3] = Torn" by (simp add: next_frame_def)
  then have "recoverable (SEGMENT_FORMAT_MAGIC @ [1, 2, 3])"
    unfolding recoverable_def by (intro disjI2 exI [of _ "[]"] exI [of _ "[1, 2, 3]"]) simp
  moreover have "disk_ok torn_disk" by (simp add: disk_ok_def torn_disk_def)
  ultimately show "crash_ok torn_disk" by (auto simp: crash_ok_def seg MAX_FILE_LEN_def SEGMENT_FILE_HEADER_LEN_def)
  show "d_faults torn_disk = []" by (simp add: torn_disk_def)
qed

theorem recovery_keeps_records_witness:
  "\<exists>s'. recover_storage_dir (select_active_append_segment torn_disk) (demo_engine\<lparr>st_disk := torn_disk\<rparr>) = (Inr (), s') \<and>
     (\<forall>n c. seg (st_disk s') n = Some c \<longrightarrow> clean c \<or> c = [])"
proof -
  let ?s = "demo_engine\<lparr>st_disk := torn_disk\<rparr>"
  obtain r s' where run: "recover_storage_dir (select_active_append_segment (st_disk ?s)) ?s = (r, s')" by fastforce
  have "crash_ok (st_disk ?s)" "d_faults (st_disk ?s) = []" using torn_disk_ok by simp_all
  with recovery_keeps_records [OF _ run] run show ?thesis by auto
qed

text \<open>
  C39. The read-only functions \<^verbatim>\<open>load\<close>, \<^verbatim>\<open>load_all\<close> and \<^verbatim>\<open>nodes\<close> never write: on every directory,
  well-formed or damaged, locked or not, they leave everything as they found it.
\<close>

theorem read_only_never_writes:
  "snd (load_node N J d n) = d \<and> snd (load_all N J d) = d \<and> snd (nodes N J d) = d"
proof (intro conjI)
  show "snd (load_node N J d n) = d"
    unfolding load_node_def by (rule with_read_only_reads [OF only_reads_functions(1)])
  show "snd (load_all N J d) = d"
    unfolding load_all_def by (rule with_read_only_reads [OF only_reads_functions(2)])
  show "snd (nodes N J d) = d"
    unfolding nodes_def by (rule with_read_only_reads) (intro reading.bind reading.pure)
qed

section \<open>Loaded states\<close>

lemma live_records:
  assumes "noraft_laws N" and "decodable N d" and "r \<in> set (live N d n)"
  shows "record_maps_wf r"
proof -
  have sub: "set (since_checkpoint rs) \<subseteq> set rs" for rs :: "'a Record list" by (induction rs) auto
  then obtain pb where pb: "pb \<in> set (dir_records d)" "r = record_of N pb"
    using assms(3) by (fastforce simp: live_def history_def)
  then obtain nr where "decode_node_record N (snd pb) = Inr nr" "r = nr_record nr"
    using assms(2) by (fastforce simp: decodable_def record_of_def the_record_def)
  then show ?thesis using record_wf_maps [OF decode_node_record_wf(1) [OF assms(1)]] by blast
qed

lemma replay_of_inv:
  assumes "noraft_laws N" and "\<forall>r \<in> set rs. record_maps_wf r" and "fold_result (apply_record_to_state N) s rs = Inr s'"
    and "state_inv N s"
  shows "state_inv N s'"
  using assms(2-4)
proof (induction rs arbitrary: s)
  case (Cons r rs)
  then obtain s1 where s1: "apply_record_to_state N s r = Inr s1" "fold_result (apply_record_to_state N) s1 rs = Inr s'"
    by (auto simp: result_simps)
  have "state_inv N s1" using apply_record_inv [OF assms(1) Cons.prems(3) _ s1(1)] Cons.prems(1) by simp
  then show ?case using Cons.IH [OF _ s1(2)] Cons.prems(1) by simp
qed simp

lemma live_state_inv:
  assumes "noraft_laws N" and "decodable N d" and "replay_of N (live N d n) = Inr st"
  shows "state_inv N st"
  using replay_of_inv [OF assms(1) _ assms(3) [unfolded replay_of_def] state_inv_default [OF assms(1)]]
    live_records [OF assms(1,2)] by blast

end
