(* ===== verification/Firm.thy ===== *)
theory Firm
  imports Views
begin

text \<open>
  What is synchronised at any time: every segment but the last one as a whole, and the metadata
  files. The commands of an engine keep this, whatever fails.
\<close>

section \<open>Files that only grow, and files that only vanish\<close>

locale file_preorder = disk_preorder +
  assumes faults: "d_faults d = x # fs \<Longrightarrow> R d (d\<lparr>d_faults := fs\<rparr>)"
begin

lemma next_fault: "obeys R next_fault"
  unfolding obeys_def next_fault_def by (auto simp: refl intro!: faults split: list.split)

lemma call:
  assumes "obeys R act"
  shows "obeys R (syscall act)"
  unfolding syscall_def by (intro bind next_fault) (auto intro: assms pure split: option.split)

lemma fields:
  "obeys R (sys_sync_dir)"
  unfolding sys_sync_dir_def by (intro call pure)

end

definition grow_file :: "SFile \<Rightarrow> SFile \<Rightarrow> bool" where
  "grow_file f f' \<longleftrightarrow> prefix (f_content f) (f_content f') \<and> min (f_durable f) (length (f_content f)) \<le> f_durable f'"

definition grows :: "Disk \<Rightarrow> Disk \<Rightarrow> bool" where
  "grows d d' \<longleftrightarrow> (\<forall>n f. file_at d (SegmentName_file_name n) = Some f \<longrightarrow>
     (\<exists>f'. file_at d' (SegmentName_file_name n) = Some f' \<and> grow_file f f'))"

lemma grow_file_refl: "grow_file f f"
  by (simp add: grow_file_def)

lemma grow_file_trans: "grow_file f g \<Longrightarrow> grow_file g h \<Longrightarrow> grow_file f h"
  using prefix_length_le [of "f_content f" "f_content g"] by (auto simp: grow_file_def min_def split: if_splits)

definition shrinks :: "Disk \<Rightarrow> Disk \<Rightarrow> bool" where
  "shrinks d d' \<longleftrightarrow> (\<forall>k. disk_get d' k = None \<or> disk_get d' k = disk_get d k)"

lemma grows_faults: "grows d (d\<lparr>d_faults := fs\<rparr>)"
  by (simp add: grows_def grow_file_refl)

interpretation growing: file_preorder grows
proof
  show "grows d d" for d by (simp add: grows_def grow_file_refl)
  show "grows d f" if "grows d e" "grows e f" for d e f
    using that grow_file_trans unfolding grows_def by meson
  show "grows d (d\<lparr>d_faults := fs\<rparr>)" for d fs by (rule grows_faults)
qed

interpretation shrinking: file_preorder shrinks
proof
  show "shrinks d f" if "shrinks d e" "shrinks e f" for d e f
    using that unfolding shrinks_def by metis
qed (simp_all add: shrinks_def)

lemma grows_put: "name \<notin> segment_files \<Longrightarrow> grows d (disk_put name e d)"
  by (auto simp: grows_def file_at_def grow_file_refl)

lemma grows_content:
  "grows d (append_content name bs d)" "grows d (mark_durable name d)"
proof -
  have put: "grows d (disk_put name (RegularFile f') d)" if "file_at d name = Some f" "grow_file f f'" for f f'
    using that by (auto simp: grows_def file_at_put grow_file_refl)
  show "grows d (append_content name bs d)"
    by (auto simp: append_content_def set_content_def content_at_def growing.refl split: option.split
        intro!: put) (simp add: grow_file_def)
  show "grows d (mark_durable name d)"
    by (auto simp: mark_durable_def growing.refl split: option.split intro!: put) (simp add: grow_file_def)
qed

section \<open>Firm directories\<close>

definition synced :: "Disk \<Rightarrow> string \<Rightarrow> bool" where
  "synced d name \<longleftrightarrow> (\<forall>f. file_at d name = Some f \<longrightarrow> length (f_content f) \<le> f_durable f)"

text \<open>Only the last segment may have bytes that are not synchronised.\<close>

definition firm :: "SegmentName \<Rightarrow> Disk \<Rightarrow> bool" where
  "firm a d \<longleftrightarrow> is_top d a \<and> (\<forall>n. n \<noteq> a \<longrightarrow> synced d (SegmentName_file_name n)) \<and>
     synced d NODE_REGISTRY_FILE_NAME \<and> synced d CHECKPOINT_INDEX_FILE_NAME"

lemma synced_get: "disk_get d' k = disk_get d k \<Longrightarrow> synced d' k = synced d k"
  by (simp add: synced_def file_at_def)

lemma synced_touch: "touch X d d' \<Longrightarrow> k \<notin> X \<Longrightarrow> synced d' k = synced d k"
  by (intro synced_get) (simp add: touch_def)

lemma seg_get: "disk_get d' (SegmentName_file_name n) = disk_get d (SegmentName_file_name n) \<Longrightarrow> seg d' n = seg d n"
  by (simp add: seg_def content_at_def file_at_def)

lemma firm_touch:
  assumes "firm a d" and touch: "touch X d d'" and X: "\<And>n. n \<noteq> a \<Longrightarrow> SegmentName_file_name n \<notin> X"
    and meta: "NODE_REGISTRY_FILE_NAME \<in> X \<Longrightarrow> synced d' NODE_REGISTRY_FILE_NAME"
      "CHECKPOINT_INDEX_FILE_NAME \<in> X \<Longrightarrow> synced d' CHECKPOINT_INDEX_FILE_NAME"
  shows "firm a d'"
proof -
  have "seg d' n = seg d n" if "n \<noteq> a" for n
    using X [OF that] touch by (intro seg_get) (simp add: touch_def)
  then have "is_top d' a" using assms(1) by (force simp: firm_def is_top_def)
  moreover have "synced d' (SegmentName_file_name n)" if "n \<noteq> a" for n
    using assms(1) that synced_touch [OF touch X [OF that]] by (simp add: firm_def)
  moreover have "synced d' NODE_REGISTRY_FILE_NAME" "synced d' CHECKPOINT_INDEX_FILE_NAME"
    using assms(1) meta synced_touch [OF touch] unfolding firm_def by blast+
  ultimately show ?thesis by (simp add: firm_def)
qed

lemma meta_not_segment [simp]:
  "NODE_REGISTRY_FILE_NAME \<noteq> SegmentName_file_name n" "CHECKPOINT_INDEX_FILE_NAME \<noteq> SegmentName_file_name n"
  "NODE_REGISTRY_TMP_FILE_NAME \<noteq> SegmentName_file_name n" "CHECKPOINT_INDEX_TMP_FILE_NAME \<noteq> SegmentName_file_name n"
  "WRITE_LOCK_FILE_NAME \<noteq> SegmentName_file_name n"
  using meta_names by (metis rangeI)+

lemma firm_active: "firm a d \<Longrightarrow> touch {SegmentName_file_name a} d d' \<Longrightarrow> firm a d'"
  by (rule firm_touch [of a d "{SegmentName_file_name a}"]) (simp_all add: SegmentName_file_name_inj)

lemma firm_shrinks:
  assumes "firm a d" and "shrinks d d'"
  shows "firm a d'"
proof -
  have "synced d k \<Longrightarrow> synced d' k" for k
    using assms(2) [unfolded shrinks_def, rule_format, of k] by (auto simp: synced_def file_at_def)
  moreover have "seg d' n \<noteq> None \<Longrightarrow> seg d n \<noteq> None" for n
    using assms(2) [unfolded shrinks_def, rule_format, of "SegmentName_file_name n"] by (auto simp: seg_def content_at_def file_at_def)
  ultimately show ?thesis using assms(1) by (auto simp: firm_def is_top_def)
qed

text \<open>The next segment is started once the last one is synchronised.\<close>

lemma firm_next:
  assumes "firm a d" and "synced d (SegmentName_file_name a)" and "a < b" and "touch {SegmentName_file_name b} d d'"
  shows "firm b d'"
proof -
  have "is_top d b" using assms(1,3) by (auto simp: firm_def is_top_def)
  moreover have "synced d (SegmentName_file_name n)" for n using assms(1,2) by (cases "n = a") (simp_all add: firm_def)
  ultimately have "firm b d" using assms(1) by (simp add: firm_def)
  then show ?thesis using firm_active assms(4) by blast
qed

section \<open>The writer keeps directories firm\<close>

abbreviation active_of :: "'x writer_state_scheme \<Rightarrow> SegmentName" where
  "active_of s \<equiv> sw_active_segment (st_writer s)"

definition firmly :: "('x writer_state_scheme, 'a) io \<Rightarrow> bool" where
  "firmly m \<longleftrightarrow> (\<forall>s r s'. m s = (r, s') \<longrightarrow> firm (active_of s) (st_disk s) \<longrightarrow>
     (\<exists>a. firm a (st_disk s')) \<and> ((\<exists>x. r = Inr x) \<longrightarrow> firm (active_of s') (st_disk s')))"

lemma firmlyD:
  assumes "firmly m" and "m s = (r, s')" and "firm (active_of s) (st_disk s)"
  shows "\<exists>a. firm a (st_disk s')" and "r = Inr x \<Longrightarrow> firm (active_of s') (st_disk s')"
  using assms unfolding firmly_def by blast+

named_theorems firm_intros \<open>computations that keep directories firm\<close>

lemma firmly_bind [firm_intros]: "firmly m \<Longrightarrow> (\<And>x. firmly (f x)) \<Longrightarrow> firmly (sbind m f)"
  unfolding firmly_def by (intro allI impI, erule sbind_cases) blast+

lemma firmly_basic [firm_intros]:
  "firmly (sret x)" "firmly (serr e)" "firmly (slift r)" "firmly (sget f)" "firmly (count_metric g)"
  by (auto simp: firmly_def io_defs count_metric_def on_metrics_def)

lemma firmly_if [firm_intros]: "(b \<Longrightarrow> firmly m) \<Longrightarrow> (\<not> b \<Longrightarrow> firmly m') \<Longrightarrow> firmly (if b then m else m')"
  by simp

lemma firmly_loop [firm_intros]: "(\<And>v acc. firmly (f v acc)) \<Longrightarrow> firmly (sfold f vs acc)"
proof (induction vs arbitrary: acc)
  case (Cons v vs)
  have "firmly (sbind (f v acc) (sfold f vs))" by (intro firmly_bind Cons.prems Cons.IH)
  then show ?case by (simp add: firmly_def)
qed (simp add: firmly_basic)

text \<open>Computations that leave the writer alone.\<close>

lemma firmly_still:
  assumes "\<And>s r s'. m s = (r, s') \<Longrightarrow> (\<exists>x. r = Inr x) \<Longrightarrow> st_writer s' = st_writer s"
    and "\<And>s r s' a. m s = (r, s') \<Longrightarrow> firm a (st_disk s) \<Longrightarrow> firm a (st_disk s')"
  shows "firmly m"
  using assms unfolding firmly_def by metis

lemma synced_mark: "synced (mark_durable k d) k"
  by (auto simp: mark_durable_def synced_def file_at_put split: option.split)

lemma sync_current_firm:
  assumes "sync_current_segment s = (r, s')" and firm: "firm (active_of s) (st_disk s)"
  shows "firm (active_of s) (st_disk s')"
    and "r = Inr () \<Longrightarrow> st_writer s' = st_writer s \<and> synced (st_disk s') (SegmentName_file_name (active_of s))"
proof -
  let ?f = "SegmentName_file_name (active_of s)"
  obtain q s1 where q: "sys_sync ?f s = (q, s1)" by fastforce
  have run: "sbind (sys_sync ?f) (\<lambda>_. count_metric segment_synced) s = (r, s')"
    using assms(1) by (simp add: sync_current_segment_def)
  have "touch {?f} (st_disk s) (st_disk s1)" by (rule obeysD [OF touch_sys(2) q]) simp
  then have "firm (active_of s) (st_disk s1)" by (rule firm_active [OF firm])
  then show "firm (active_of s) (st_disk s')" using run q by (cases q) (auto simp: count_metric_def smodify_def)
  show "st_writer s' = st_writer s \<and> synced (st_disk s') ?f" if res: "r = Inr ()"
  proof -
    obtain fs where "s1 = on_disk (mark_durable ?f) (set_faults fs s)" "s' = on_metrics segment_synced s1"
      using run q res sys_sync_ok [of ?f s s1] by (cases q) (auto simp: count_metric_def smodify_def)
    then have "st_disk s' = mark_durable ?f ((st_disk s)\<lparr>d_faults := fs\<rparr>)" "st_writer s' = st_writer s"
      by (simp_all add: on_metrics_def on_disk_def set_faults_def)
    then show ?thesis using synced_mark by simp
  qed
qed

lemma create_active_touch: "obeys (touch {f}) (create_active_segment_file f)"
  unfolding create_active_segment_file_def by (intro touching.bind touch_sys) simp_all

lemma rotate_firm: "firmly SegmentWriter_rotate"
  unfolding firmly_def
proof (intro allI impI)
  fix s r s'
  assume run: "SegmentWriter_rotate s = (r, s')" and firm: "firm (active_of s) (st_disk s)"
  from run [unfolded SegmentWriter_rotate_def] show "(\<exists>a. firm a (st_disk s')) \<and> ((\<exists>x. r = Inr x) \<longrightarrow> firm (active_of s') (st_disk s'))"
  proof (cases rule: sbind_cases)
    case (1 e)
    then show ?thesis using sync_current_firm(1) [OF 1(1) firm] by auto
  next
    case (2 u s1)
    note one = sync_current_firm [OF 2(1) firm]
    have w: "active_of s1 = active_of s" and settled: "synced (st_disk s1) (SegmentName_file_name (active_of s))" using one(2) by auto
    show ?thesis
    proof (cases "SegmentName_next_append (active_of s)")
      case (Inl e)
      then show ?thesis using 2(2) one(1) w by (auto simp: slift_def)
    next
      case (Inr b)
      let ?g = "SegmentName_file_name b"
      have less: "active_of s < b" by (rule next_append_ok(2) [OF Inr])
      have "sbind (create_active_segment_file ?g) (\<lambda>_. sbind sys_sync_dir (\<lambda>_.
          sbind (on_writer (\<lambda>w. w\<lparr>sw_active_segment := b, sw_segment_len := of_nat SEGMENT_FILE_HEADER_LEN\<rparr>)) (\<lambda>_.
          count_metric (segment_rotated b (of_nat SEGMENT_FILE_HEADER_LEN))))) s1 = (r, s')"
        using 2(2) Inr w by (simp add: slift_def)
      then show ?thesis
      proof (cases rule: sbind_cases)
        case (1 e)
        from firm_next [OF one(1) settled less obeysD [OF create_active_touch 1(1)]] 1(2) show ?thesis by auto
      next
        case (2 u s2)
        have two: "firm b (st_disk s2)" by (rule firm_next [OF one(1) settled less obeysD [OF create_active_touch 2(1)]])
        from 2(2) show ?thesis
        proof (cases rule: sbind_cases)
          case (1 e)
          have "touch {?g} (st_disk s2) (st_disk s')" by (rule obeysD [OF touch_sync_dir 1(1)])
          from firm_active [OF two this] 1(2) show ?thesis by auto
        next
          case (2 v s3)
          have "touch {?g} (st_disk s2) (st_disk s3)" by (rule obeysD [OF touch_sync_dir 2(1)])
          then have "firm b (st_disk s3)" by (rule firm_active [OF two])
          then show ?thesis using 2(2) by (auto simp: on_writer_def smodify_def count_metric_def on_metrics_def)
        qed
      qed
    qed
  qed
qed

lemma firmly_write:
  assumes "\<And>w. firmly (rest w)"
  shows "firmly (sbind (sget st_writer) (\<lambda>w. sbind (sys_write_all (SegmentName_file_name (sw_active_segment w)) frame) (\<lambda>_. rest w)))"
  unfolding firmly_def
proof (intro allI impI)
  fix s r s'
  assume "sbind (sget st_writer) (\<lambda>w. sbind (sys_write_all (SegmentName_file_name (sw_active_segment w)) frame) (\<lambda>_. rest w)) s = (r, s')"
    and firm: "firm (active_of s) (st_disk s)"
  then have "sbind (sys_write_all (SegmentName_file_name (active_of s)) frame) (\<lambda>_. rest (st_writer s)) s = (r, s')" by simp
  then show "(\<exists>a. firm a (st_disk s')) \<and> ((\<exists>x. r = Inr x) \<longrightarrow> firm (active_of s') (st_disk s'))"
  proof (cases rule: sbind_cases)
    case (1 e)
    have "touch {SegmentName_file_name (active_of s)} (st_disk s) (st_disk s')" by (rule obeysD [OF touch_sys(1) 1(1)]) simp
    from firm_active [OF firm this] 1(2) show ?thesis by auto
  next
    case (2 u s1)
    have "touch {SegmentName_file_name (active_of s)} (st_disk s) (st_disk s1)" by (rule obeysD [OF touch_sys(1) 2(1)]) simp
    from firm_active [OF firm this] have "firm (active_of s) (st_disk s1)" .
    moreover have "io_state.more s1 = io_state.more s"
      using 2(1) next_fault_ok [of s] by (auto simp: sys_write_all_def Let_def smodify_def serr_def split: option.splits if_splits)
    then have "st_writer s1 = st_writer s" by (rule writer_more(1))
    ultimately show ?thesis using assms [of "st_writer s"] 2(2) unfolding firmly_def by metis
  qed
qed

lemma append_firm [firm_intros]: "firmly (SegmentWriter_append N n r)"
proof -
  have len: "firmly (on_writer (\<lambda>w. w\<lparr>sw_segment_len := l\<rparr>))" for l
    by (auto simp: on_writer_def smodify_def firmly_def)
  show ?thesis
    unfolding SegmentWriter_append_def Let_def
    by (intro firmly_write firm_intros rotate_firm len)
qed

lemma sync_firm [firm_intros]: "firmly SegmentWriter_sync"
proof -
  have "firmly sync_current_segment"
    unfolding firmly_def
  proof (intro allI impI)
    fix s r s'
    assume "sync_current_segment s = (r, s')" and "firm (active_of s) (st_disk s)"
    from sync_current_firm [OF this]
    show "(\<exists>a. firm a (st_disk s')) \<and> ((\<exists>x. r = Inr x) \<longrightarrow> firm (active_of s') (st_disk s'))" by auto
  qed
  then show ?thesis unfolding SegmentWriter_sync_def by (intro firm_intros)
qed

section \<open>Metadata files\<close>

lemma write_tmp_synced: "write_tmp_file tmp bs s = (Inr (), s') \<Longrightarrow> synced (st_disk s') tmp"
  unfolding write_tmp_file_def by (erule sbind_cases, simp, erule sbind_cases, simp) (use synced_mark in \<open>force dest: sys_sync_ok\<close>)

lemma replace_synced:
  assumes run: "replace_file path tmp text s = (r, s')" and "path \<noteq> tmp" and old: "synced (st_disk s) path"
  shows "synced (st_disk s') path"
  using run unfolding replace_file_split
proof (cases rule: sbind_cases)
  case (1 e)
  show ?thesis using old synced_touch [OF obeysD [OF write_tmp_file_touch 1(1)]] assms(2) by simp
next
  case (2 u s1)
  have one: "synced (st_disk s1) path" "synced (st_disk s1) tmp"
    using old synced_touch [OF obeysD [OF write_tmp_file_touch 2(1)]] assms(2) write_tmp_synced [of tmp "text_bytes text" s s1] 2(1) by simp_all
  obtain q s2 where q: "sys_rename tmp path s1 = (q, s2)" by fastforce
  have "disk_get (st_disk s2) path = disk_get (st_disk s1) path \<or> disk_get (st_disk s2) path = disk_get (st_disk s1) tmp"
    using q unfolding sys_rename_def
    by (cases rule: syscall_any) (auto simp: smodify_def serr_def disk_get_def disk_put_def split: option.splits if_splits)
  then have two: "synced (st_disk s2) path" using one by (auto simp: synced_def file_at_def)
  show ?thesis
  proof (cases q)
    case (Inl e)
    then show ?thesis using 2(2) q two by simp
  next
    case (Inr u)
    then have "sys_sync_dir s2 = (r, s')" using 2(2) q by simp
    from synced_touch [OF obeysD [OF touch_sync_dir this], of path "{}"] two show ?thesis by simp
  qed
qed

lemma save_firm [firm_intros]:
  "firmly (NodeRegistry_save J reg :: ('x writer_state_scheme, unit) io)"
  "firmly (CheckpointIndex_save J idx :: ('x writer_state_scheme, unit) io)"
proof -
  have save: "firmly (replace_file path tmp doc :: ('x writer_state_scheme, unit) io)"
    if names: "path \<notin> segment_files" "tmp \<notin> segment_files" "path \<noteq> tmp" "tmp \<noteq> NODE_REGISTRY_FILE_NAME"
      "tmp \<noteq> CHECKPOINT_INDEX_FILE_NAME" for path tmp doc
  proof (rule firmly_still)
    fix s s' :: "'x writer_state_scheme" and r
    assume run: "replace_file path tmp doc s = (r, s')"
    note eff = replace_file_effect [OF names(3) run]
    show "st_writer s' = st_writer s" if "\<exists>x. r = Inr x" using eff that writer_more(1) by auto
    show "firm a (st_disk s')" if firm: "firm a (st_disk s)" for a
    proof (rule firm_touch [OF firm conjunct1 [OF eff]])
      show "SegmentName_file_name n \<notin> {path, tmp}" for n using names(1,2) by auto
      show "synced (st_disk s') NODE_REGISTRY_FILE_NAME" if "NODE_REGISTRY_FILE_NAME \<in> {path, tmp}"
        using that names(4) firm replace_synced [OF run names(3)] by (auto simp: firm_def)
      show "synced (st_disk s') CHECKPOINT_INDEX_FILE_NAME" if "CHECKPOINT_INDEX_FILE_NAME \<in> {path, tmp}"
        using that names(5) firm replace_synced [OF run names(3)] by (auto simp: firm_def)
    qed
  qed
  show "firmly (NodeRegistry_save J reg :: ('x writer_state_scheme, unit) io)"
    "firmly (CheckpointIndex_save J idx :: ('x writer_state_scheme, unit) io)"
    unfolding NodeRegistry_save_def CheckpointIndex_save_def by (simp_all add: save meta_distinct [THEN not_sym])
qed

section \<open>Commands keep directories firm\<close>

lemma shrinks_gc: "obeys shrinks (gc_step a b sp acc)" "obeys shrinks collect_garbage"
proof -
  have "shrinks d (d\<lparr>d_files := dir_del name (d_files d)\<rparr>)" for name d
    by (simp add: shrinks_def disk_get_def)
  then have remove: "obeys shrinks (sys_remove_file name :: (engine, unit) io)" for name
    unfolding sys_remove_file_def
    by (intro shrinking.call shrinking.bind shrinking.pure) (auto intro: shrinking.pure shrinking.update split: option.split dirent.split)
  show gc: "obeys shrinks (gc_step a b sp acc)" for a b sp acc
    unfolding obeys_def
  proof
    fix s :: engine
    obtain q s1 where q: "sys_remove_file (sp_path sp) s = (q, s1)" by fastforce
    from obeysD [OF remove q] show "shrinks (st_disk s) (st_disk (snd (gc_step a b sp acc s)))"
      using q by (auto simp: gc_step_def shrinking.refl split: sum.split)
  qed
  show "obeys shrinks collect_garbage"
    unfolding collect_garbage_def
    by (intro shrinking.bind shrinking.pure shrinking.conditional shrinking.loop shrinking.fields gc)
      (auto intro!: shrinking.bind shrinking.pure shrinking.conditional shrinking.loop shrinking.fields gc split: option.split)
qed

lemma gc_firm [firm_intros]: "firmly (gc_step a b sp acc)" "firmly collect_garbage"
proof -
  show gc: "firmly (gc_step a b sp acc)" for a b sp acc
  proof (rule firmly_still)
    fix s s' :: engine and r
    assume run: "gc_step a b sp acc s = (r, s')"
    obtain q s1 where q: "sys_remove_file (sp_path sp) s = (q, s1)" by fastforce
    then have "st_writer s1 = st_writer s"
      by (cases rule: sys_remove_file_any) (auto simp: on_disk_def set_faults_def)
    then show "st_writer s' = st_writer s" using run q by (auto simp: gc_step_def split: sum.splits if_splits)
    show "firm c (st_disk s')" if "firm c (st_disk s)" for c
      by (rule firm_shrinks [OF that obeysD [OF shrinks_gc(1) run]])
  qed
  have dir: "firmly (sys_sync_dir :: (engine, unit) io)"
  proof (rule firmly_still)
    fix s s' :: engine and r :: "unit io_result"
    assume run: "sys_sync_dir s = (r, s')"
    show "st_writer s' = st_writer s" if "\<exists>x. r = Inr x"
      using that run sys_sync_dir_ok [of s s'] by (auto simp: set_faults_def on_disk_def)
    show "firm c (st_disk s')" if "firm c (st_disk s)" for c
      by (rule firm_shrinks [OF that obeysD [OF shrinking.fields run]])
  qed
  show "firmly collect_garbage"
    unfolding collect_garbage_def
    by (intro firm_intros gc dir) (auto intro!: firm_intros gc dir split: option.split)
qed

lemma command_firm: "firmly (run_command N J cmd)"
proof -
  have fields [firm_intros]: "firmly (set_registry reg)" "firmly (set_index idx)" for reg idx
    by (auto simp: firmly_def set_registry_def set_index_def smodify_def)
  have refresh [firm_intros]: "firmly refresh_registry_metrics" "firmly refresh_checkpoint_index_metrics"
    unfolding refresh_registry_metrics_def refresh_checkpoint_index_metrics_def by (intro firm_intros)+
  have ensure [firm_intros]: "firmly (Engine_ensure_node_exists n op)" for n op
    unfolding Engine_ensure_node_exists_def by (intro firm_intros)
  show ?thesis
  proof (cases cmd)
    case (CmdCreateNode n meta)
    then show ?thesis by (simp add: create_node_def Let_def) (intro firm_intros)
  next
    case (CmdRemoveNode n)
    then show ?thesis by (simp add: remove_node_def Let_def) (intro firm_intros)
  next
    case (CmdSaveSnapshot n c)
    then show ?thesis by (simp add: save_snapshot_def Let_def) (intro firm_intros)
  qed (simp_all add: save_current_term_def save_voted_for_def append_entries_def save_record_def Engine_sync_def;
      intro firm_intros)+
qed

end
