(* ===== verification/DurableIndex.thy ===== *)
theory DurableIndex
  imports Firm
begin

text \<open>
  A checkpoint record is on stable storage before the index names it. The two metadata files
  determine the registry and the index, and every command keeps the checkpoints that they name for
  active nodes durable, whatever fails.
\<close>

section \<open>Durable records\<close>

definition record_durable :: "Disk \<Rightarrow> RecordPosition \<Rightarrow> bool" where
  "record_durable d p \<longleftrightarrow> (\<exists>f body. file_at d (SegmentName_file_name (rp_segment p)) = Some f \<and>
     next_frame (drop (unat (rp_offset p)) (f_content f)) = Frame body \<and> unat (rp_offset p) + 8 + length body \<le> f_durable f)"

lemma next_frame_prefix:
  assumes "next_frame (drop off c) = Frame body" and "prefix c c'"
  shows "next_frame (drop off c') = Frame body" and "off + 8 + length body \<le> length c"
proof -
  have small: "length body \<le> 2 ^ 30" and split: "drop off c = frame_of_body body @ drop (8 + length body) (drop off c)"
    using next_frame_FrameD [OF assms(1)] by simp_all
  have "8 + length body \<le> length c - off" using next_frame_length [OF assms(1)] by (simp only: length_drop)
  then show len: "off + 8 + length body \<le> length c" by simp
  obtain zs where "c' = c @ zs" using assms(2) by (auto simp: prefix_def)
  then have "drop off c' = drop off c @ zs" using len by simp
  then have "drop off c' = frame_of_body body @ drop (8 + length body) (drop off c) @ zs"
    using split by (metis append_assoc)
  then show "next_frame (drop off c') = Frame body" using next_frame_of_body [OF small] by simp
qed

lemma durable_grows:
  assumes "record_durable d p" and "grows d d'"
  shows "record_durable d' p"
proof -
  obtain f body where f: "file_at d (SegmentName_file_name (rp_segment p)) = Some f"
    "next_frame (drop (unat (rp_offset p)) (f_content f)) = Frame body" "unat (rp_offset p) + 8 + length body \<le> f_durable f"
    using assms(1) by (auto simp: record_durable_def)
  obtain f' where f': "file_at d' (SegmentName_file_name (rp_segment p)) = Some f'" "prefix (f_content f) (f_content f')"
    "min (f_durable f) (length (f_content f)) \<le> f_durable f'"
    using assms(2) f(1) unfolding grows_def grow_file_def by blast
  then show ?thesis
    using next_frame_prefix [OF f(2) f'(2)] f(3) unfolding record_durable_def by fastforce
qed

lemma durable_shrinks:
  assumes "record_durable d p" and "shrinks d d'" and "seg d' (rp_segment p) \<noteq> None"
  shows "record_durable d' p"
proof -
  have "disk_get d' (SegmentName_file_name (rp_segment p)) = disk_get d (SegmentName_file_name (rp_segment p))"
    using assms(2) [unfolded shrinks_def, rule_format, of "SegmentName_file_name (rp_segment p)"] assms(3)
    by (auto simp: seg_def content_at_def file_at_def)
  then show ?thesis using assms(1) by (simp add: record_durable_def file_at_def)
qed

text \<open>A cut that leaves the record in the file leaves it durable.\<close>

lemma durable_cut:
  assumes "record_durable d p" and "crash_ok d'" and "(p, body) \<in> set (dir_records d')"
    and cut: "\<And>n f'. file_at d' (SegmentName_file_name n) = Some f' \<Longrightarrow>
      \<exists>f. file_at d (SegmentName_file_name n) = Some f \<and> cut_file f f'"
  shows "record_durable d' p"
proof -
  obtain c where c: "seg d' (rp_segment p) = Some c" "next_frame (drop (unat (rp_offset p)) c) = Frame body"
    using record_at [OF assms(2,3)] by metis
  then obtain f' where f': "file_at d' (SegmentName_file_name (rp_segment p)) = Some f'" "f_content f' = c"
    by (auto simp: seg_def content_at_def)
  obtain f where f: "file_at d (SegmentName_file_name (rp_segment p)) = Some f" "prefix c (f_content f)"
    "min (f_durable f) (length c) \<le> f_durable f'"
    using cut [OF f'(1)] f'(2) by (auto simp: cut_file_def)
  note frame = next_frame_prefix [OF c(2) f(2)]
  have "unat (rp_offset p) + 8 + length body \<le> f_durable f"
    using assms(1) f(1) frame(1) by (auto simp: record_durable_def)
  then show ?thesis using f' f(3) c(2) frame(2) by (auto simp: record_durable_def)
qed

section \<open>What the metadata files determine\<close>

lemma registry_stored_unique: "json_laws J \<Longrightarrow> registry_stored J d reg \<Longrightarrow> registry_stored J d reg' \<Longrightarrow> reg = reg'"
  using NodeRegistry_load_stored [of J d reg] NodeRegistry_load_stored [of J d reg'] by simp

lemma text_bytes_inj: "text_bytes s = text_bytes t \<Longrightarrow> s = t"
  by (metis bytes_text_bytes)

lemma format_index_inj:
  assumes "json_laws J" and "bt_wf idx" and "bt_wf idx'" and "format_checkpoint_index J idx = format_checkpoint_index J idx'"
  shows "idx = idx'"
proof -
  have shown: "\<exists>v. nj_parse J (format_checkpoint_index J i) = Inr v \<and> parse_checkpoint_index J v = Inr i" if "bt_wf i" for i
  proof -
    have ok: "doc_ok J (checkpoint_index_doc i)"
      using index_json.nodes_doc_ok [of i J] that by (simp add: checkpoint_index_doc_nodes split_def)
    have "\<exists>v. nj_parse J (format_checkpoint_index J i) = Inr v \<and> json_shows J (checkpoint_index_doc i) v"
      unfolding format_checkpoint_index_def
      by (rule assms(1) [unfolded json_laws_def, THEN spec, THEN mp, OF ok, THEN conjunct2, THEN conjunct2, THEN conjunct1])
    then obtain v where "nj_parse J (format_checkpoint_index J i) = Inr v" "json_shows J (checkpoint_index_doc i) v" by (elim exE conjE)
    then show ?thesis by (intro exI [of _ v] conjI parse_checkpoint_index_doc [OF _ that])
  qed
  show ?thesis using shown [OF assms(2)] shown [OF assms(3)] assms(4) by auto
qed

lemma index_stored_unique:
  assumes "json_laws J" and "index_stored J d idx" and "index_stored J d idx'"
  shows "idx = idx'"
proof -
  let ?k = CHECKPOINT_INDEX_FILE_NAME
  have wf: "bt_wf idx" "bt_wf idx'" using assms(2,3) by (simp_all add: index_stored_def)
  have none: "disk_get d ?k = None \<Longrightarrow> content_at d ?k = None" by (simp add: content_at_def file_at_def)
  show ?thesis
  proof (cases "disk_get d ?k = None")
    case True
    then show ?thesis using assms(2,3) none by (simp add: index_stored_def)
  next
    case False
    then have "text_bytes (format_checkpoint_index J idx) = text_bytes (format_checkpoint_index J idx')"
      using assms(2,3) by (auto simp: index_stored_def)
    then show ?thesis using format_index_inj [OF assms(1) wf] text_bytes_inj by blast
  qed
qed

section \<open>Operations on which segments only grow\<close>

lemma grows_new: "disk_get d name = None \<Longrightarrow> grows d (disk_put name e d)"
  by (auto simp: grows_def file_at_def grow_file_refl)

lemma grows_create_new: "obeys grows (sys_create_new name)"
  unfolding obeys_def
proof
  fix s :: "'x io_state_scheme"
  obtain r s' where run: "sys_create_new name s = (r, s')" by (rule prod.exhaust)
  then have "grows (st_disk s) (st_disk s')"
  proof (cases rule: sys_create_new_any)
    case (2 fs)
    then show ?thesis using growing.trans [OF grows_faults grows_new [of "(st_disk s)\<lparr>d_faults := fs\<rparr>"]] by simp
  qed (simp add: grows_faults)
  then show "grows (st_disk s) (st_disk (snd (sys_create_new name s)))" using run by simp
qed

lemma grows_open_create: "obeys grows (sys_open_create name)"
  unfolding obeys_def
proof
  fix s :: "'x io_state_scheme"
  obtain r s' where run: "sys_open_create name s = (r, s')" by (rule prod.exhaust)
  then have "(\<exists>fs. s' = set_faults fs s) \<or>
      (\<exists>fs. disk_get (st_disk s) name = None \<and> s' = on_disk (disk_put name empty_file) (set_faults fs s))"
    unfolding sys_open_create_def
    by (rule syscall_any) (auto simp: serr_def sret_def smodify_def split: option.splits dirent.splits)
  then have "grows (st_disk s) (st_disk s')"
    using grows_faults [of "st_disk s"] growing.trans [OF grows_faults grows_new [of "(st_disk s)\<lparr>d_faults := _\<rparr>" name]] by auto
  then show "grows (st_disk s) (st_disk (snd (sys_open_create name s)))" using run by simp
qed

lemma grows_write: "obeys grows (sys_write_all name bs)" "obeys grows (sys_sync name)"
proof -
  note intros = growing.bind growing.pure growing.update growing.conditional growing.call growing.next_fault grows_content
  show "obeys grows (sys_write_all name bs)"
    unfolding sys_write_all_def Let_def by (auto intro!: intros split: option.split)
  show "obeys grows (sys_sync name)" unfolding sys_sync_def by (intro intros)
qed

lemma grows_writer:
  "obeys grows sync_current_segment" "obeys grows SegmentWriter_sync" "obeys grows (SegmentWriter_append N n r)"
proof -
  note intros = growing.bind growing.pure growing.conditional grows_write grows_create_new growing.fields growing.writer_update
  show sync: "obeys grows sync_current_segment"
    unfolding sync_current_segment_def by (intro intros)
  show "obeys grows SegmentWriter_sync"
    unfolding SegmentWriter_sync_def by (intro intros sync)
  have rotate: "obeys grows SegmentWriter_rotate"
    unfolding SegmentWriter_rotate_def create_active_segment_file_def by (intro intros sync)
  show "obeys grows (SegmentWriter_append N n r)"
    unfolding SegmentWriter_append_def Let_def by (intro intros rotate)
qed

lemma grows_same:
  assumes "touch X d d'" and "X \<inter> segment_files = {}"
  shows "grows d d'"
proof -
  have "disk_get d' (SegmentName_file_name n) = disk_get d (SegmentName_file_name n)" for n
    using assms by (auto simp: touch_def)
  then show ?thesis by (simp add: grows_def file_at_def grow_file_refl)
qed

section \<open>Durable checkpoints\<close>

text \<open>The two metadata files, and the checkpoints that the index names for active nodes on stable storage.\<close>

definition all_durable :: "CheckpointIndex \<Rightarrow> Disk \<Rightarrow> bool" where
  "all_durable idx d \<longleftrightarrow> (\<forall>n p. bt_get idx n = Some p \<longrightarrow> record_durable d p)"

definition stored :: "'v nojson \<Rightarrow> Disk \<Rightarrow> NodeRegistry \<Rightarrow> CheckpointIndex \<Rightarrow> bool" where
  "stored J d reg idx \<longleftrightarrow> disk_ok d \<and> registry_stored J d reg \<and> index_stored J d idx \<and>
     (\<forall>n p. is_active reg n \<longrightarrow> bt_get idx n = Some p \<longrightarrow> record_durable d p)"

definition index_durable :: "'v nojson \<Rightarrow> Disk \<Rightarrow> bool" where
  "index_durable J d \<longleftrightarrow> (\<exists>reg idx. stored J d reg idx)"

lemma stored_grows:
  assumes "stored J d reg idx" and "grows d d'" and "touch X d d'"
    and "NODE_REGISTRY_FILE_NAME \<notin> X" and "CHECKPOINT_INDEX_FILE_NAME \<notin> X"
  shows "stored J d' reg idx"
  using assms durable_grows stored_touch [OF _ assms(3)] touch_disk_ok [OF assms(3)] unfolding stored_def by blast

lemma all_durable_grows: "all_durable idx d \<Longrightarrow> grows d d' \<Longrightarrow> all_durable idx d'"
  using durable_grows unfolding all_durable_def by blast

lemma all_durable_insert: "all_durable idx d \<Longrightarrow> record_durable d p \<Longrightarrow> all_durable (bt_insert n p idx) d"
  by (auto simp: all_durable_def bt_get_insert)

lemma stored_any: "all_durable idx' d \<Longrightarrow> disk_ok d \<Longrightarrow> registry_stored J d reg \<Longrightarrow> index_stored J d idx' \<Longrightarrow> stored J d reg idx'"
  by (simp add: stored_def all_durable_def)

lemma engine_index_durable:
  assumes "json_laws J" and ok: "engine_ok N J s" and "index_durable J (st_disk s)"
  shows "all_durable (st_index s) (st_disk s)" and "\<exists>idx. stored J (st_disk s) (st_registry s) idx"
proof -
  obtain reg idx where sto: "stored J (st_disk s) reg idx" using assms(3) by (auto simp: index_durable_def)
  obtain idx0 where store: "storage_ok N J (st_disk s) (st_registry s) idx0"
    and get: "\<And>n. is_active (st_registry s) n \<Longrightarrow> bt_get (st_index s) n = bt_get idx0 n"
    using engine_ok_index [OF ok] by metis
  have eq: "reg = st_registry s" "idx = idx0"
    using sto store registry_stored_unique [OF assms(1)] index_stored_unique [OF assms(1)]
    unfolding stored_def storage_ok_def by blast+
  show "all_durable (st_index s) (st_disk s)"
    using sto get engine_okD(10) [OF ok] unfolding all_durable_def stored_def eq by (metis option.distinct(1))
  show "\<exists>idx. stored J (st_disk s) (st_registry s) idx" using sto eq(1) by blast
qed

section \<open>Saving metadata\<close>

lemma index_save_stored:
  assumes sto: "stored J (st_disk s) reg idx" and new: "all_durable idx' (st_disk s)" "bt_wf idx'"
    and run: "CheckpointIndex_save J idx' s = (r, s')"
  shows "stored J (st_disk s') reg idx' \<or> r \<noteq> Inr () \<and> stored J (st_disk s') reg idx" and "grows (st_disk s) (st_disk s')"
proof -
  let ?X = "{CHECKPOINT_INDEX_FILE_NAME, CHECKPOINT_INDEX_TMP_FILE_NAME}"
  have eff: "touch ?X (st_disk s) (st_disk s') \<and>
    (content_at (st_disk s') CHECKPOINT_INDEX_FILE_NAME = Some (text_bytes (format_checkpoint_index J idx')) \<or>
      r \<noteq> Inr () \<and> disk_get (st_disk s') CHECKPOINT_INDEX_FILE_NAME = disk_get (st_disk s) CHECKPOINT_INDEX_FILE_NAME)"
    using replace_file_effect [of CHECKPOINT_INDEX_FILE_NAME CHECKPOINT_INDEX_TMP_FILE_NAME] run
    unfolding CheckpointIndex_save_def by auto
  then have touch: "touch ?X (st_disk s) (st_disk s')" by simp
  show grow: "grows (st_disk s) (st_disk s')" by (rule grows_same [OF touch]) simp
  have old: "disk_ok (st_disk s')" "registry_stored J (st_disk s') reg"
    using sto touch_disk_ok [OF touch] by (simp_all add: stored_def stored_touch(1) [OF _ touch])
  have "index_stored J (st_disk s') idx' \<or> r \<noteq> Inr () \<and> index_stored J (st_disk s') idx"
    using eff sto new(2) by (auto simp: index_stored_def stored_def content_at_def file_at_def)
  then show "stored J (st_disk s') reg idx' \<or> r \<noteq> Inr () \<and> stored J (st_disk s') reg idx"
    using old sto durable_grows [OF _ grow] stored_any [OF all_durable_grows [OF new(1) grow]] unfolding stored_def by blast
qed

lemma registry_save_stored:
  assumes sto: "stored J (st_disk s) reg idx" and ok: "registry_ok J reg'"
    and new: "\<And>n p. is_active reg' n \<Longrightarrow> bt_get idx n = Some p \<Longrightarrow> record_durable (st_disk s) p"
    and run: "NodeRegistry_save J reg' s = (r, s')"
  shows "stored J (st_disk s') reg' idx \<or> r \<noteq> Inr () \<and> stored J (st_disk s') reg idx" and "grows (st_disk s) (st_disk s')"
proof -
  let ?X = "{NODE_REGISTRY_FILE_NAME, NODE_REGISTRY_TMP_FILE_NAME}"
  have eff: "touch ?X (st_disk s) (st_disk s') \<and>
    (content_at (st_disk s') NODE_REGISTRY_FILE_NAME = Some (text_bytes (format_node_registry J reg')) \<or>
      r \<noteq> Inr () \<and> disk_get (st_disk s') NODE_REGISTRY_FILE_NAME = disk_get (st_disk s) NODE_REGISTRY_FILE_NAME)"
    using replace_file_effect [of NODE_REGISTRY_FILE_NAME NODE_REGISTRY_TMP_FILE_NAME] run
    unfolding NodeRegistry_save_def by auto
  then have touch: "touch ?X (st_disk s) (st_disk s')" by simp
  show grow: "grows (st_disk s) (st_disk s')" by (rule grows_same [OF touch]) simp
  have old: "disk_ok (st_disk s')" "index_stored J (st_disk s') idx"
    using sto touch_disk_ok [OF touch] by (simp_all add: stored_def stored_touch(2) [OF _ touch])
  have "registry_stored J (st_disk s') reg' \<or> r \<noteq> Inr () \<and> registry_stored J (st_disk s') reg"
    using eff sto ok by (auto simp: registry_stored_def stored_def content_at_def file_at_def)
  then show "stored J (st_disk s') reg' idx \<or> r \<noteq> Inr () \<and> stored J (st_disk s') reg idx"
    using old sto new durable_grows [OF _ grow] unfolding stored_def by blast
qed

section \<open>Checkpoints are durable before the index names them\<close>

lemma append_pending:
  assumes "SegmentWriter_append N n r s = (Inr p, s')"
  shows "unsynced (st_metrics s') \<noteq> (0, 0)" and "rp_segment p = active_of s'"
proof -
  obtain frame wb s1 s2 len where p: "p = RecordPosition (active_of s1) (sw_segment_len (st_writer s1))"
    and "sys_write_all (SegmentName_file_name (active_of s1)) frame s1 = (Inr (), s2)"
    and s': "s' = on_metrics (segment_written len) (on_metrics (record_written (metric_kind r) wb)
       (s2\<lparr>st_writer := (st_writer s1)\<lparr>sw_segment_len := len\<rparr>\<rparr>))"
    by (rule SegmentWriter_append_steps [OF assms]) (rule that)
  show "rp_segment p = active_of s'" by (simp add: p s' on_metrics_def)
  have "unsynced (record_written k b m) \<noteq> (0, 0)" for k b m by (simp add: unsynced_def)
  then show "unsynced (st_metrics s') \<noteq> (0, 0)" by (simp add: s' unsynced_other)
qed

lemma pending_synced:
  assumes "SegmentWriter_sync s = (Inr (), s')" and "unsynced (st_metrics s) \<noteq> (0, 0)"
  shows "synced (st_disk s') (SegmentName_file_name (active_of s))"
proof -
  have "sync_current_segment s = (Inr (), s')" using assms by (auto simp: SegmentWriter_sync_def unsynced_def)
  then obtain s1 where s1: "sys_sync (SegmentName_file_name (active_of s)) s = (Inr (), s1)" "st_disk s' = st_disk s1"
    by (auto simp: sync_current_segment_def result_simps sget_def count_metric_def smodify_def)
  then obtain fs where "st_disk s' = mark_durable (SegmentName_file_name (active_of s)) ((st_disk s)\<lparr>d_faults := fs\<rparr>)"
    using sys_sync_ok by fastforce
  then show ?thesis using synced_mark by simp
qed

lemma synced_durable:
  assumes "crash_ok d" and "(p, body) \<in> set (dir_records d)" and "synced d (SegmentName_file_name (rp_segment p))"
  shows "record_durable d p"
proof -
  obtain c where c: "seg d (rp_segment p) = Some c" "next_frame (drop (unat (rp_offset p)) c) = Frame body"
    using record_at [OF assms(1,2)] by metis
  then obtain f where f: "file_at d (SegmentName_file_name (rp_segment p)) = Some f" "f_content f = c"
    by (auto simp: seg_def content_at_def)
  moreover have "length c \<le> f_durable f" using assms(3) f by (auto simp: synced_def)
  ultimately show ?thesis using next_frame_prefix(2) [OF c(2), of c] c(2) unfolding record_durable_def by fastforce
qed

lemma write_checkpoint_stored:
  assumes laws: "noraft_laws N" and wf: "record_wf N (Checkpoint c)" and ok: "engine_ok N J s"
    and sto: "stored J (st_disk s) (st_registry s) idx" and all: "all_durable (st_index s) (st_disk s)"
    and run: "write_checkpoint N J n c s = (res, s')"
  obtains idx' where "stored J (st_disk s') (st_registry s) idx'"
    and "\<And>i. res = Inr i \<Longrightarrow> i = idx' \<and> all_durable i (st_disk s')"
  using run unfolding write_checkpoint_def
proof (cases rule: sbind_cases)
  let ?m = "sbind (SegmentWriter_append N n (Checkpoint c)) (\<lambda>p. sbind SegmentWriter_sync (\<lambda>_. sret p)) :: (engine, RecordPosition) io"
  have grow: "obeys grows ?m" by (intro growing.bind growing.pure grows_writer)
  have touch: "obeys (touch segment_files) ?m" by (intro touching.bind touching.pure touch_writer)
  have keep: "stored J (st_disk t) (st_registry s) idx" if "?m s = (q, t)" for q t
    by (rule stored_grows [OF sto obeysD [OF grow that] obeysD [OF touch that]]) simp_all
  {
    case (1 e)
    then show thesis using that [OF keep] by simp
  next
    case (2 p s1)
    then obtain t where t: "SegmentWriter_append N n (Checkpoint c) s = (Inr p, t)" "SegmentWriter_sync t = (Inr (), s1)"
      by (auto simp: result_simps sret_def)
    from engine_append_sync [OF laws wf ok 2(1)] obtain body where
      recs: "dir_records (st_disk s1) = dir_records (st_disk s) @ [(p, body)]" and ok1: "engine_ok N J s1"
      and idx1: "st_index s1 = st_index s"
      by (cases rule: grownE) auto
    have "record_durable (st_disk s1) p"
      using pending_synced [OF t(2) append_pending(1) [OF t(1)]] append_pending(2) [OF t(1)] recs
      by (intro synced_durable [OF engine_okD(3) [OF ok1], of p body]) simp_all
    then have all1: "all_durable (bt_insert n p (st_index s)) (st_disk s1)"
      using all_durable_insert all_durable_grows [OF all obeysD [OF grow 2(1)]] by blast
    obtain q where q: "CheckpointIndex_save J (bt_insert n p (st_index s)) s1 = (q, s')"
        "res = rbind q (\<lambda>_. Inr (bt_insert n p (st_index s)))"
      using 2(2) idx1 unfolding set_checkpoint_position_def
      by (cases "CheckpointIndex_save J (bt_insert n p (st_index s)) s1";
          cases "fst (CheckpointIndex_save J (bt_insert n p (st_index s)) s1)") (auto simp: sret_def)
    note sav = index_save_stored [OF keep [OF 2(1)] all1 bt_wf_insert [OF engine_okD(8) [OF ok]] q(1)]
    show thesis
    proof (cases q)
      case (Inl e)
      then show thesis using sav(1) q(2) that [of "bt_insert n p (st_index s)"] that [of idx] by auto
    next
      case (Inr u)
      then have "stored J (st_disk s') (st_registry s) (bt_insert n p (st_index s))" using sav(1) by simp
      then show thesis using that all_durable_grows [OF all1 sav(2)] q(2) Inr by simp
    qed
  }
qed

section \<open>Commands keep indexed checkpoints durable\<close>

text \<open>As garbage collection leaves it: the directory was stored, and since then only lost segments.\<close>

definition shrunk :: "'v nojson \<Rightarrow> Disk \<Rightarrow> bool" where
  "shrunk J d' \<longleftrightarrow> (\<exists>d reg idx. stored J d reg idx \<and> shrinks d d' \<and> touch segment_files d d')"

lemma stored_shrunk: "stored J d reg idx \<Longrightarrow> shrunk J d"
  unfolding shrunk_def using shrinking.refl touching.refl by blast

lemma gc_shrunk:
  assumes "stored J (st_disk s) reg idx" and "collect_garbage s = (r, s')"
  shows "shrunk J (st_disk s')"
proof -
  have "touch segment_files (st_disk s) (st_disk s')"
    using collect_garbage_any(1) [OF assms(2)] assms(1) by (simp add: removes_def stored_def)
  then show ?thesis using assms(1) obeysD [OF shrinks_gc(2) assms(2)] unfolding shrunk_def by blast
qed

lemma shrunk_durable:
  assumes "json_laws J" and "shrunk J d'" and ok: "storage_ok N J d' reg idx"
  shows "stored J d' reg idx"
proof -
  obtain d reg0 idx0 where d: "stored J d reg0 idx0" "shrinks d d'" "touch segment_files d d'"
    using assms(2) by (auto simp: shrunk_def)
  have "registry_stored J d' reg0" "index_stored J d' idx0"
    using d(1) stored_touch [OF _ d(3)] by (auto simp: stored_def)
  then have eq: "reg0 = reg" "idx0 = idx"
    using ok registry_stored_unique [OF assms(1)] index_stored_unique [OF assms(1)] unfolding storage_ok_def by blast+
  have "record_durable d' p" if "is_active reg n" "bt_get idx n = Some p" for n p
  proof -
    have crash: "crash_ok d'" and ckpt: "ckpt_at N n (dir_records d') p" using ok that by (simp_all add: storage_ok_def index_ok_def)
    obtain body where "(p, body) \<in> set (dir_records d')" using ckpt by (auto simp: ckpt_at_def)
    from record_at [OF crash this] have "seg d' (rp_segment p) \<noteq> None" by auto
    then show ?thesis using durable_shrinks [OF _ d(2)] d(1) that by (auto simp: stored_def eq)
  qed
  then show ?thesis using ok storage_ok_disk [OF ok] by (simp add: stored_def storage_ok_def)
qed

lemma save_record_shrunk:
  assumes "save_record N n r op s = (res, s')" and "stored J (st_disk s) reg idx"
  shows "shrunk J (st_disk s')"
proof -
  have "obeys grows (save_record N n r op)" "obeys (touch segment_files) (save_record N n r op)"
    unfolding save_record_def Engine_ensure_node_exists_def
    by (intro growing.bind growing.pure growing.conditional grows_writer touching.bind touching.pure touching.conditional touch_writer)+
  from obeysD [OF this(1) assms(1)] obeysD [OF this(2) assms(1)] show ?thesis
    by (rule stored_shrunk [OF stored_grows [OF assms(2)]]) simp_all
qed

lemma Engine_sync_shrunk:
  assumes "Engine_sync s = (res, s')" and "stored J (st_disk s) reg idx"
  shows "shrunk J (st_disk s')"
proof -
  have "obeys grows Engine_sync" "obeys (touch segment_files) Engine_sync"
    unfolding Engine_sync_def
    by (intro growing.bind growing.pure grows_writer touching.bind touching.pure touch_writer)+
  from obeysD [OF this(1) assms(1)] obeysD [OF this(2) assms(1)] show ?thesis
    by (rule stored_shrunk [OF stored_grows [OF assms(2)]]) simp_all
qed

lemma save_snapshot_shrunk:
  assumes "noraft_laws N" and "record_wf N (Checkpoint c)" and "engine_ok N J s"
    and sto: "stored J (st_disk s) (st_registry s) idx" and all: "all_durable (st_index s) (st_disk s)"
    and run: "save_snapshot N J n c s = (res, s')"
  shows "shrunk J (st_disk s')"
proof (cases "is_active (st_registry s) n \<and> SnapshotCheckpoint_validate N c = Inr ()")
  case False
  then have "st_disk s' = st_disk s"
    using run by (cases "SnapshotCheckpoint_validate N c";
        auto simp: save_snapshot_def Engine_ensure_node_exists_def sbind_def io_defs count_metric_def split: if_splits)+
  then show ?thesis using stored_shrunk [OF sto] by simp
next
  case True
  have "sbind (write_checkpoint N J n c) (\<lambda>idx'. sbind (set_index idx') (\<lambda>_. sbind refresh_checkpoint_index_metrics (\<lambda>_.
      sbind collect_garbage (\<lambda>_. count_metric snapshot_checkpoint_saved)))) s = (res, s')"
    using run True unfolding save_snapshot_split by (simp add: ensure_active)
  then show ?thesis
  proof (cases rule: sbind_cases)
    case (1 e)
    from write_checkpoint_stored [OF assms(1-3) sto all 1(1)] show ?thesis using stored_shrunk by metis
  next
    case (2 idx' s1)
    obtain i where "stored J (st_disk s1) (st_registry s) i"
      using write_checkpoint_stored [OF assms(1-3) sto all 2(1)] by metis
    moreover obtain q t where "collect_garbage (snd (refresh_checkpoint_index_metrics (s1\<lparr>st_index := idx'\<rparr>))) = (q, t)"
        "st_disk s' = st_disk t"
      using 2(2) by (cases "collect_garbage (snd (refresh_checkpoint_index_metrics (s1\<lparr>st_index := idx'\<rparr>)))";
          cases "fst (collect_garbage (snd (refresh_checkpoint_index_metrics (s1\<lparr>st_index := idx'\<rparr>))))")
        (auto simp: set_index_def refresh_metrics count_metric_def smodify_def)
    ultimately show ?thesis using gc_shrunk [of J "snd (refresh_checkpoint_index_metrics (s1\<lparr>st_index := idx'\<rparr>))"]
      by (simp add: refresh_metrics)
  qed
qed

lemma create_node_shrunk:
  assumes "noraft_laws N" and meta: "raw_ok J (nm_metadata meta)" and "record_wf N (Checkpoint (initial_checkpoint N))"
    and ok: "engine_ok N J s" and sto: "stored J (st_disk s) (st_registry s) idx" and all: "all_durable (st_index s) (st_disk s)"
    and run: "create_node N J n meta s = (res, s')"
  shows "shrunk J (st_disk s')"
proof (cases "bt_get (st_registry s) n")
  case (Some e)
  then have "s' = s" using run by (auto simp: create_node_def Registry_create_node_def)
  then show ?thesis using stored_shrunk [OF sto] by simp
next
  case None
  let ?reg' = "bt_insert n \<lparr>re_metadata = meta, re_removed = False\<rparr> (st_registry s)"
  have "sbind (write_checkpoint N J n (initial_checkpoint N)) (\<lambda>idx'.
     sbind (NodeRegistry_save J ?reg') (\<lambda>_. sbind (set_registry ?reg') (\<lambda>_. sbind (set_index idx') (\<lambda>_.
     sbind (count_metric node_created) (\<lambda>_. sbind refresh_registry_metrics (\<lambda>_. refresh_checkpoint_index_metrics)))))) s = (res, s')"
    using run None unfolding create_node_split by (simp add: Registry_create_node_def)
  then show ?thesis
  proof (cases rule: sbind_cases)
    case (1 e)
    from write_checkpoint_stored [OF assms(1,3) ok sto all 1(1)] show ?thesis using stored_shrunk by metis
  next
    case (2 idx' s1)
    have sto1: "stored J (st_disk s1) (st_registry s) idx'" and all1: "all_durable idx' (st_disk s1)"
      using write_checkpoint_stored [OF assms(1,3) ok sto all 2(1)] by metis+
    obtain q s2 where q: "NodeRegistry_save J ?reg' s1 = (q, s2)" and d: "st_disk s' = st_disk s2"
      using 2(2) by (cases rule: sbind_cases) (auto simp: set_registry_def set_index_def count_metric_def refresh_metrics)
    have "registry_ok J ?reg'" using engine_okD(6) [OF ok] meta by (intro registry_ok_insert) (simp_all add: entry_ok_def)
    from registry_save_stored(1) [OF sto1 this _ q] show ?thesis
      using all1 stored_shrunk unfolding d all_durable_def by blast
  qed
qed

lemma forget_checkpoint_shrunk:
  assumes sto: "stored J (st_disk s) reg idx" and all: "all_durable idx' (st_disk s)" and "bt_wf idx'"
    and run: "forget_checkpoint J idx' s = (res, s')"
  shows "shrunk J (st_disk s')"
  using run unfolding forget_checkpoint_def
proof (cases rule: sbind_cases)
  case (1 e)
  then show ?thesis using index_save_stored(1) [OF sto all assms(3) 1(1)] stored_shrunk by blast
next
  case (2 u s1)
  let ?t = "s1\<lparr>st_index := idx'\<rparr>"
  have "stored J (st_disk ?t) reg idx'" using index_save_stored(1) [OF sto all assms(3) 2(1)] by simp
  moreover obtain q t where "collect_garbage ?t = (q, t)" "st_disk s' = st_disk t"
    using 2(2) by (cases "collect_garbage ?t"; cases "fst (collect_garbage ?t)")
      (auto simp: set_index_def refresh_metrics count_metric_def smodify_def)
  ultimately show ?thesis using gc_shrunk [of J ?t] by metis
qed

lemma remove_node_shrunk:
  assumes ok: "engine_ok N J s" and sto: "stored J (st_disk s) (st_registry s) idx"
    and all: "all_durable (st_index s) (st_disk s)" and run: "remove_node J n s = (res, s')"
  shows "shrunk J (st_disk s')"
proof (cases "is_active (st_registry s) n")
  case False
  then have "st_disk s' = st_disk s"
    using run by (auto simp: remove_node_def Engine_ensure_node_exists_def sbind_def io_defs count_metric_def split: if_splits)
  then show ?thesis using stored_shrunk [OF sto] by simp
next
  case True
  then obtain e where e: "bt_get (st_registry s) n = Some e" "\<not> re_removed e" by (auto simp: is_active_def split: option.splits)
  let ?reg' = "bt_insert n (e\<lparr>re_removed := True\<rparr>) (st_registry s)"
  have ok': "registry_ok J ?reg'"
    using engine_okD(6) [OF ok] e(1)
    by (intro registry_ok_insert) (auto simp: registry_ok_def entry_ok_def dest: map_of_SomeD)
  have "record_durable (st_disk s) p" if "is_active ?reg' k" "bt_get idx k = Some p" for k p
    using that sto by (auto simp: is_active_insert stored_def split: if_splits)
  then have saved: "stored J (st_disk t) ?reg' idx \<or> q \<noteq> Inr () \<and> stored J (st_disk t) (st_registry s) idx"
    "grows (st_disk s) (st_disk t)" if "NodeRegistry_save J ?reg' s = (q, t)" for q t
    using registry_save_stored [OF sto ok' _ that] by blast+
  have "sbind (NodeRegistry_save J ?reg') (\<lambda>_. sbind (set_registry ?reg') (\<lambda>_. sbind (sget st_index) (\<lambda>idx.
      forget_checkpoint J (bt_remove n idx)))) s = (res, s')"
    using run e
    by (simp add: remove_node_def ensure_active [OF True] Registry_remove_node_def Index_remove_node_def Let_def forget_checkpoint_def)
  then show ?thesis
  proof (cases rule: sbind_cases)
    case (1 e')
    then show ?thesis using saved(1) [OF 1(1)] stored_shrunk by blast
  next
    case (2 u s1)
    let ?s1 = "s1\<lparr>st_registry := ?reg'\<rparr>"
    have "is_active (st_registry s) k" if "is_active ?reg' k" for k using that by (auto simp: is_active_insert split: if_splits)
    then have idx1: "st_index s1 = st_index s" by (simp add: registry_saved(5) [OF ok ok' _ 2(1)])
    have "all_durable (bt_remove n (st_index s)) (st_disk ?s1)"
      using all_durable_grows [OF all saved(2) [OF 2(1)]] engine_okD(8) [OF ok] by (auto simp: all_durable_def bt_get_remove split: if_splits)
    moreover have "forget_checkpoint J (bt_remove n (st_index s)) ?s1 = (res, s')" using 2(2) idx1 by (simp add: set_registry_def)
    moreover have "stored J (st_disk ?s1) ?reg' idx" using saved(1) [OF 2(1)] by simp
    ultimately show ?thesis using forget_checkpoint_shrunk bt_wf_remove [OF engine_okD(8) [OF ok]] by blast
  qed
qed

lemma command_index_durable:
  assumes laws: "noraft_laws N" "json_laws J" and wf: "command_wf N J cmd" and ok: "engine_ok N J s"
    and durable: "index_durable J (st_disk s)" and run: "run_command N J cmd s = (r, s')"
  shows "index_durable J (st_disk s')"
proof -
  note all = engine_index_durable(1) [OF laws(2) ok durable]
  obtain idx where sto: "stored J (st_disk s) (st_registry s) idx" using engine_index_durable(2) [OF laws(2) ok durable] by blast
  note init = initial_checkpoint_wf [OF laws(1)]
  have "shrunk J (st_disk s')"
  proof (cases cmd)
    case (CmdCreateNode n meta)
    then show ?thesis using create_node_shrunk [OF laws(1) _ init ok sto all, of meta n r s'] wf run by simp
  next
    case (CmdRemoveNode n)
    then show ?thesis using remove_node_shrunk [OF ok sto all, of n r s'] run by simp
  next
    case (CmdSaveSnapshot n c)
    then show ?thesis using save_snapshot_shrunk [OF laws(1) _ ok sto all, of c n r s'] wf run by simp
  qed (use run save_record_shrunk [OF _ sto] Engine_sync_shrunk [OF _ sto] in
      \<open>auto simp: save_current_term_def save_voted_for_def append_entries_def\<close>)
  moreover obtain reg idx' where "storage_ok N J (st_disk s') reg idx'"
    using run_command_effect(1) [OF laws(1) wf ok run] by (auto simp: stands_for_def)
  ultimately show ?thesis using shrunk_durable [OF laws(2)] unfolding index_durable_def by blast
qed

end
