(* ===== verification/Sturdy.thy ===== *)
theory Sturdy
  imports DurableIndex
begin

text \<open>
  Opening keeps what is synchronised, and so does every step of the system: at any time, every
  segment but the last one, the metadata files and the indexed checkpoints are on stable storage.
\<close>

section \<open>Opening\<close>

lemma firm_get: "firm a d \<Longrightarrow> disk_get d' = disk_get d \<Longrightarrow> firm a d'"
  by (simp add: firm_def is_top_def synced_def file_at_def seg_def content_at_def)

lemma index_durable_lock [simp]: "index_durable J (d\<lparr>d_locked := b\<rparr>) = index_durable J d"
  by (simp add: index_durable_def stored_def registry_stored_def index_stored_def record_durable_def file_at_def)

lemma firm_top:
  assumes "firm b d" and "is_top d a" and "seg d a \<noteq> None \<or> (\<forall>n. seg d n = None)"
  shows "firm a d"
proof -
  have "synced d (SegmentName_file_name n)" if "n \<noteq> a" for n
  proof (cases "seg d n")
    case None
    then show ?thesis by (simp add: synced_def seg_def content_at_def)
  next
    case (Some c)
    then have "n \<le> a" "a \<le> b" using assms by (auto simp: firm_def is_top_def)
    then have "n \<noteq> b" using that by auto
    then show ?thesis using assms(1) by (simp add: firm_def)
  qed
  then show ?thesis using assms(1,2) by (simp add: firm_def)
qed

lemma firm_repairs:
  assumes "firm a d" and rep: "repairs d d'"
  shows "firm a d'"
proof -
  have "synced d' (SegmentName_file_name n)" if "synced d (SegmentName_file_name n)" for n
    unfolding synced_def
  proof (intro allI impI)
    fix f' assume f': "file_at d' (SegmentName_file_name n) = Some f'"
    have "rel_option cut_file (file_at d (SegmentName_file_name n)) (file_at d' (SegmentName_file_name n))"
      using rep by (simp add: repairs_def)
    then obtain f where f: "file_at d (SegmentName_file_name n) = Some f" "cut_file f f'" using f' by (cases "file_at d (SegmentName_file_name n)") auto
    then have "length (f_content f') \<le> length (f_content f)" "length (f_content f) \<le> f_durable f"
      using that by (auto simp: cut_file_def synced_def dest: prefix_length_le)
    then show "length (f_content f') \<le> f_durable f'" using f(2) by (simp add: cut_file_def)
  qed
  moreover have "is_top d' a" using assms(1) repairsD(1) [OF rep] by (simp add: firm_def is_top_def)
  ultimately show ?thesis
    using assms(1) synced_touch [OF repairsD(3) [OF rep]] by (simp add: firm_def)
qed

lemma stored_repairs:
  assumes "stored J d reg idx" and rep: "repairs d d'" and ok: "storage_ok N J d' reg idx"
  shows "stored J d' reg idx"
proof -
  have "record_durable d' p" if "is_active reg n" "bt_get idx n = Some p" for n p
  proof -
    have crash: "crash_ok d'" and "ckpt_at N n (dir_records d') p" using ok that by (simp_all add: storage_ok_def index_ok_def)
    then obtain body where body: "(p, body) \<in> set (dir_records d')" by (auto simp: ckpt_at_def)
    have old: "record_durable d p" using assms(1) that by (simp add: stored_def)
    show ?thesis
    proof (rule durable_cut [OF old crash body])
      fix n f' assume f': "file_at d' (SegmentName_file_name n) = Some f'"
      have "rel_option cut_file (file_at d (SegmentName_file_name n)) (file_at d' (SegmentName_file_name n))"
        using rep by (simp add: repairs_def)
      then show "\<exists>f. file_at d (SegmentName_file_name n) = Some f \<and> cut_file f f'"
        using f' by (cases "file_at d (SegmentName_file_name n)") auto
    qed
  qed
  then show ?thesis using ok storage_ok_disk [OF ok] by (simp add: stored_def storage_ok_def)
qed

lemma index_durable_storage:
  assumes "json_laws J" and "index_durable J d" and "storage_ok N J d reg idx"
  shows "stored J d reg idx"
  using assms registry_stored_unique [OF assms(1)] index_stored_unique [OF assms(1)]
  unfolding index_durable_def stored_def storage_ok_def by blast

lemma SegmentWriter_open_firm:
  assumes firm: "firm a (st_disk s)" and run: "SegmentWriter_open a m s = (r, s')"
  shows "firm a (st_disk s')" and "grows (st_disk s) (st_disk s')" and "r = Inr w \<Longrightarrow> sw_active_segment w = a"
proof -
  have "obeys (touch {SegmentName_file_name a}) (SegmentWriter_open a m)"
    unfolding SegmentWriter_open_def open_active_segment_file_def Let_def
    by (intro touching.bind touching.pure touching.conditional touch_sys touch_sync_dir) simp_all
  from obeysD [OF this run] show "firm a (st_disk s')" by (rule firm_active [OF firm])
  have "obeys grows (SegmentWriter_open a m)"
    unfolding SegmentWriter_open_def open_active_segment_file_def Let_def
    by (intro growing.bind growing.pure growing.conditional grows_write grows_open_create growing.fields)
  from obeysD [OF this run] show "grows (st_disk s) (st_disk s')" .
  show "sw_active_segment w = a" if "r = Inr w"
    using run that by (cases rule: SegmentWriter_open_steps) auto
qed

lemma open_locked_firm:
  assumes json: "json_laws J" and stands: "stands_for N J (st_disk s) v" and firm: "firm b (st_disk s)"
    and durable: "index_durable J (st_disk s)" and run: "open_locked N J m s = (r, s')"
  shows "\<exists>a. firm a (st_disk s') \<and> (\<forall>reg idx w. r = Inr (reg, idx, w) \<longrightarrow> sw_active_segment w = a)"
    and "index_durable J (st_disk s')"
proof -
  let ?d = "st_disk s" and ?d' = "st_disk s'" and ?a = "select_active_append_segment (st_disk s)"
  obtain idx0 where store: "storage_ok N J ?d (v_registry v) idx0" using stands by (auto simp: stands_for_def)
  have crash: "crash_ok ?d" using store by (simp add: storage_ok_def)
  note sto = index_durable_storage [OF json durable store]
  have rep: "storage_ok N J d (v_registry v) idx0" "stored J d (v_registry v) idx0" "firm b d" if "repairs ?d d" for d
  proof -
    show ok: "storage_ok N J d (v_registry v) idx0" by (rule repairs_storage(1) [OF store that])
    show "stored J d (v_registry v) idx0" by (rule stored_repairs [OF sto that ok])
    show "firm b d" by (rule firm_repairs [OF firm that])
  qed
  have "(\<exists>a. firm a ?d' \<and> (\<forall>reg idx w. r = Inr (reg, idx, w) \<longrightarrow> sw_active_segment w = a)) \<and> index_durable J ?d'"
    using json run storage_loads [OF json store] crash
  proof (cases rule: open_locked_steps)
    case (recovery e)
    then show ?thesis using rep [OF recover_effect(1) [OF crash recovery(1)]] by (auto simp: index_durable_def)
  next
    case (writer s1 g q)
    let ?s1 = "on_metrics g s1"
    have reps: "repairs ?d (st_disk ?s1)" using recover_effect(1) [OF crash writer(1)] by simp
    have "disk_ok ?d" using crash by (simp add: crash_ok_def)
    from active_top [OF this] have "firm ?a (st_disk ?s1)"
      using repairsD(1) [OF reps] by (intro firm_top [OF rep(3) [OF reps]]) (auto simp: is_top_def)
    note eff = SegmentWriter_open_firm [OF this writer(2)]
    have "stored J ?d' (v_registry v) idx0"
      by (rule stored_grows [OF rep(2) [OF reps] eff(2) obeysD [OF obeys_open writer(2)]]) simp_all
    then show ?thesis using eff(1,3) writer(3) by (cases q) (auto simp: index_durable_def)
  qed
  then show "\<exists>a. firm a ?d' \<and> (\<forall>reg idx w. r = Inr (reg, idx, w) \<longrightarrow> sw_active_segment w = a)"
    and "index_durable J ?d'" by auto
qed

text \<open>A directory that may be missing.\<close>

definition sturdy :: "'v nojson \<Rightarrow> Disk \<Rightarrow> bool" where
  "sturdy J d \<longleftrightarrow> d_dir d = Missing \<or> (\<exists>a. firm a d) \<and> index_durable J d"

lemma sturdy_lock_file:
  assumes "firm a d" and "index_durable J d" and touch: "touch {WRITE_LOCK_FILE_NAME} d d'"
  shows "firm a d'" and "index_durable J d'"
proof -
  show "firm a d'"
    by (rule firm_touch [OF assms(1) touch])
      (simp_all add: meta_distinct(7,9) [THEN not_sym] meta_not_segment(5) [THEN not_sym])
  have grow: "grows d d'" by (rule grows_same [OF touch]) simp
  obtain reg idx where "stored J d reg idx" using assms(2) by (auto simp: index_durable_def)
  from stored_grows [OF this grow touch] have "stored J d' reg idx" using meta_distinct(7,9) [THEN not_sym] by simp
  then show "index_durable J d'" by (auto simp: index_durable_def)
qed

lemma empty_sturdy: "firm a (d\<lparr>d_dir := Directory, d_files := []\<rparr>)" "index_durable J (d\<lparr>d_dir := Directory, d_files := []\<rparr>)"
proof -
  let ?d = "d\<lparr>d_dir := Directory, d_files := []\<rparr>"
  have none: "disk_get ?d k = None" for k by (simp add: disk_get_def)
  then show "firm a ?d" by (simp add: firm_def is_top_def synced_def seg_def content_at_def file_at_def)
  have "stored J ?d [] []" using none by (simp add: stored_def disk_ok_def registry_stored_def index_stored_def registry_ok_def)
  then show "index_durable J ?d" by (auto simp: index_durable_def)
qed

definition steady :: "'v nojson \<Rightarrow> Disk \<Rightarrow> bool" where
  "steady J d \<longleftrightarrow> (\<exists>a. firm a d) \<and> index_durable J d"

lemma steady_lock [simp]: "steady J (d\<lparr>d_locked := b\<rparr>) = steady J d"
  by (auto simp: steady_def firm_def is_top_def synced_def file_at_def)

lemma create_dir_sturdy:
  assumes "sturdy J (st_disk s)" and run: "create_dir_all_synced s = (r, s')"
  shows "sturdy J (st_disk s')" and "r = Inr () \<Longrightarrow> steady J (st_disk s')"
proof -
  have "sturdy J (st_disk s') \<and> (r = Inr () \<longrightarrow> steady J (st_disk s'))"
  proof (cases "d_dir (st_disk s)")
    case Missing
    have "sbind (syscall (smodify (on_disk (\<lambda>d. d\<lparr>d_dir := Directory, d_files := []\<rparr>)))) (\<lambda>_. sys_sync_dir) s = (r, s')"
      using run Missing by (simp add: create_dir_all_synced_def)
    then show ?thesis
    proof (cases rule: sbind_cases)
      case (1 e)
      from 1(1) show ?thesis
        by (cases rule: syscall_any) (use Missing 1(2) in \<open>auto simp: sturdy_def smodify_def\<close>)
    next
      case (2 u s1)
      from 2(1) obtain fs where s1: "st_disk s1 = (st_disk s)\<lparr>d_faults := fs, d_dir := Directory, d_files := []\<rparr>"
        by (cases rule: syscall_any) (auto simp: smodify_def)
      have "firm 0 (st_disk s1)" "index_durable J (st_disk s1)"
        using empty_sturdy [where d = "(st_disk s)\<lparr>d_faults := fs\<rparr>"] by (simp_all add: s1)
      from sturdy_lock_file [OF this obeysD [OF touch_sync_dir 2(2)]] show ?thesis by (auto simp: sturdy_def steady_def)
    qed
  qed (use run assms(1) in \<open>auto simp: create_dir_all_synced_def sret_def serr_def sturdy_def steady_def\<close>)
  then show "sturdy J (st_disk s')" and "r = Inr () \<Longrightarrow> steady J (st_disk s')" by auto
qed

lemma acquire_lock_steady:
  assumes "steady J (st_disk s)" and run: "acquire_write_lock s = (r, s')"
  shows "steady J (st_disk s')"
  using run
proof (cases rule: acquire_lock_cases)
  case (refused e)
  then show ?thesis using assms(1) sturdy_lock_file unfolding steady_def by blast
next
  case (taken d)
  then have "steady J d" using assms(1) sturdy_lock_file unfolding steady_def by blast
  then show ?thesis by (simp add: taken(4))
qed

lemma start_sturdy:
  assumes rest: "at_rest N J (st_disk s) v" and "sturdy J (st_disk s)"
    and run: "sbind create_dir_all_synced (\<lambda>_. acquire_write_lock) s = (q, s')"
  shows "sturdy J (st_disk s')" and "q = Inr () \<Longrightarrow> steady J (st_disk s')"
proof -
  have "sturdy J (st_disk s') \<and> (q = Inr () \<longrightarrow> steady J (st_disk s'))"
    using run
  proof (cases rule: sbind_cases)
    case (1 e)
    then show ?thesis using create_dir_sturdy(1) [OF assms(2) 1(1)] by simp
  next
    case (2 u t)
    have "steady J (st_disk t)" using create_dir_sturdy(2) [OF assms(2) 2(1)] by simp
    from acquire_lock_steady [OF this 2(2)] show ?thesis by (auto simp: sturdy_def steady_def)
  qed
  then show "sturdy J (st_disk s')" and "q = Inr () \<Longrightarrow> steady J (st_disk s')" by auto
qed

lemma open_sturdy:
  assumes json: "json_laws J" and rest: "at_rest N J d v" and "sturdy J d" and run: "with_max_segment_len N J m d = (r, d')"
  shows "sturdy J d'" and "r = Inr s \<Longrightarrow> firm (active_of s) d' \<and> index_durable J d'"
proof -
  let ?s = "\<lparr>st_disk = d, st_metrics = StorageMetrics_default\<rparr>"
  obtain q s1 where q: "sbind create_dir_all_synced (\<lambda>_. acquire_write_lock) ?s = (q, s1)" by fastforce
  note start = start_effect(3) [OF _ q, of N J v, simplified, OF rest] start_sturdy [OF _ _ q, of N J v, simplified, OF rest assms(3)]
  have "sturdy J d' \<and> (r = Inr s \<longrightarrow> firm (active_of s) d' \<and> index_durable J d')"
  proof (cases "m = 0 \<or> q \<noteq> Inr ()")
    case True
    then show ?thesis using run assms(3) q start(2) by (cases q) (auto simp: with_max_segment_len_def split: if_splits)
  next
    case False
    then have s1: "stands_for N J (st_disk s1) v" using start(1) by simp
    obtain b where b: "firm b (st_disk s1)" "index_durable J (st_disk s1)" using start(3) False by (auto simp: steady_def)
    obtain q' s2 where q': "open_locked N J m s1 = (q', s2)" by fastforce
    note eff = open_locked_firm [OF json s1 b q']
    have "steady J (st_disk s2)" using eff by (auto simp: steady_def)
    then have "steady J (release_lock (st_disk s2))" "steady J (st_disk s2)" by (simp_all add: release_lock_def)
    then show ?thesis
      using run False q q' eff by (cases q') (auto simp: with_max_segment_len_def sturdy_def steady_def)
  qed
  then show "sturdy J d'" and "r = Inr s \<Longrightarrow> firm (active_of s) d' \<and> index_durable J d'" by auto
qed

section \<open>The system\<close>

fun sound :: "'v nojson \<Rightarrow> system \<Rightarrow> bool" where
  "sound J (Up s) \<longleftrightarrow> firm (active_of s) (st_disk s) \<and> index_durable J (st_disk s)"
| "sound J (Down d) \<longleftrightarrow> sturdy J d"

lemma close_sturdy: "steady J (st_disk s) \<Longrightarrow> sturdy J (close_engine s)"
proof -
  assume "steady J (st_disk s)"
  then have "steady J (close_engine s)" by (simp add: close_engine_def release_lock_def)
  then show ?thesis by (simp add: sturdy_def steady_def)
qed

lemma sound_same:
  "sound J (Up s) \<Longrightarrow> st_disk s' = st_disk s \<Longrightarrow> io_state.more s' = io_state.more s \<Longrightarrow> sound J (Up s')"
  using engine_more [of s' s] by simp

lemma command_sound:
  assumes "noraft_laws N" and "json_laws J" and "engine_ok N J s" and "sound J (Up s)"
    and "command_wf N J cmd" and "run_command N J cmd s = (r, s')"
  shows "steady J (st_disk s')" and "r = Inr () \<Longrightarrow> sound J (Up s')"
proof -
  have old: "firm (active_of s) (st_disk s)" "index_durable J (st_disk s)" using assms(4) by simp_all
  note eff = firmlyD [OF command_firm assms(6) old(1)] command_index_durable [OF assms(1,2,5,3) old(2) assms(6)]
  show "steady J (st_disk s')" using eff by (simp add: steady_def)
  show "sound J (Up s')" if "r = Inr ()" using eff that by simp
qed

lemma system_sound:
  assumes "noraft_laws N" and "json_laws J" and "represents N J sys v" and "sound J sys" and "system_step N J sys sys'"
  shows "sound J sys'"
  using assms(5)
proof cases
  case (opened m d s d')
  then have "at_rest N J d v" "sturdy J d" using assms(3,4) by auto
  from open_sturdy(2) [OF assms(2) this opened(3) refl] with_max_segment_len_effect(3) [OF assms(2) this(1) opened(3) refl]
  show ?thesis using opened by auto
next
  case (not_opened m d e d')
  then have "at_rest N J d v" "sturdy J d" using assms(3,4) by auto
  from open_sturdy(1) [OF assms(2) this not_opened(3)] show ?thesis using not_opened by simp
next
  case (contended m s e d')
  then have ok: "engine_ok N J s" and old: "firm (active_of s) (st_disk s)" "index_durable J (st_disk s)" using assms(3,4) by auto
  have "d_dir (st_disk s) = Directory" using engine_okD(4) [OF ok] by (simp add: disk_ok_def)
  note locked = locked_open(2) [OF contended(3) this engine_okD(12) [OF ok]]
  show ?thesis using sturdy_lock_file [OF old locked] contended by simp
next
  case (performed cmd s s')
  then show ?thesis using command_sound(2) [OF assms(1,2) _ _ performed(3,4)] assms(3,4) by simp
next
  case (failed cmd s e s')
  then show ?thesis using command_sound(1) [OF assms(1,2) _ _ failed(3,4)] assms(3,4) close_sturdy by simp
next
  case (rejected cmd s e s')
  then show ?thesis using assms(4) sound_same [of J s s'] by (simp add: as_it_was_def)
next
  case (loaded n s x s')
  then show ?thesis using assms(3,4) Engine_load_same(1,2) [of N J s n] sound_same [of J s s'] by simp
next
  case (loaded_all s y s')
  then show ?thesis using assms(3,4) Engine_load_all_live(2,3) [of N J s] sound_same [of J s s'] by simp
next
  case (closed s)
  then show ?thesis using close_sturdy assms(4) by (auto simp: steady_def)
qed

end
