(* ===== verification/PowerLoss.thy ===== *)
theory PowerLoss
  imports Sturdy Events
begin

text \<open>
  Loss of power: bytes that were not synchronised may be gone from the end of any file. Every
  segment but the last one is synchronised as a whole, the metadata files are, and so is every
  checkpoint record that the index names; this is kept by all operations, whatever fails. Therefore
  a directory still stands for a storage after a loss of power, with the same registry, and what is
  lost is a suffix of the records.
\<close>

section \<open>Cutting a segment\<close>

lemma torn_take: "next_frame bs = Torn \<Longrightarrow> next_frame (take k bs) = Torn"
  by (auto simp: next_frame_def Let_def min_def split: if_splits)

text \<open>Of the records, those remain that lie before the cut.\<close>

lemma take_frames:
  assumes "small_bodies bodies" and "next_frame rest = Torn"
  shows "\<exists>j rest'. take k (frames bodies @ rest) = frames (take j bodies) @ rest' \<and> next_frame rest' = Torn \<and>
    (\<forall>i \<le> length bodies. length (frames (take i bodies)) \<le> k \<longrightarrow> i \<le> j)"
  using assms(1)
proof (induction bodies arbitrary: k)
  case Nil
  show ?case using torn_take [OF assms(2)] by (intro exI [of _ 0]) simp
next
  case (Cons b bodies)
  then have small: "small_bodies bodies" by simp
  show ?case
  proof (cases "8 + length b \<le> k")
    case True
    obtain j rest' where j: "take (k - (8 + length b)) (frames bodies @ rest) = frames (take j bodies) @ rest'"
      "next_frame rest' = Torn"
      "\<forall>i \<le> length bodies. length (frames (take i bodies)) \<le> k - (8 + length b) \<longrightarrow> i \<le> j"
      using Cons.IH [OF small, of "k - (8 + length b)"] by blast
    have "take k (frames (b # bodies) @ rest) = frames (take (Suc j) (b # bodies)) @ rest'"
      using True j(1) by simp
    moreover have "i \<le> Suc j" if "i \<le> length (b # bodies)" "length (frames (take i (b # bodies))) \<le> k" for i
      using that j(3) by (cases i) auto
    ultimately show ?thesis using j(2) by blast
  next
    case False
    then have "take k (frames (b # bodies) @ rest) = take k (frame_of_body b)" by simp
    moreover have "next_frame (take k (frame_of_body b)) = Torn" using next_frame_torn [of b k] Cons.prems False by simp
    moreover have "i = 0" if "length (frames (take i (b # bodies))) \<le> k" for i
      using that False by (cases i) auto
    ultimately show ?thesis by (intro exI [of _ 0] exI [of _ "take k (frame_of_body b)"]) auto
  qed
qed

lemma recoverable_take:
  assumes "recoverable c"
  obtains j where "recoverable (take k c)" and "seg_bodies (take k c) = take j (seg_bodies c)"
    and "\<And>i. i \<le> length (seg_bodies c) \<Longrightarrow> 0 < i \<Longrightarrow>
      SEGMENT_FILE_HEADER_LEN + length (frames (take i (seg_bodies c))) \<le> k \<Longrightarrow> i \<le> j"
proof -
  consider (header) m where "c = take m SEGMENT_FORMAT_MAGIC"
    | (records) rest where "c = SEGMENT_FORMAT_MAGIC @ frames (seg_bodies c) @ rest" "small_bodies (seg_bodies c)" "next_frame rest = Torn"
  proof (cases "\<exists>m < SEGMENT_FILE_HEADER_LEN. c = take m SEGMENT_FORMAT_MAGIC")
    case False
    then obtain bodies rest where c: "small_bodies bodies" "c = SEGMENT_FORMAT_MAGIC @ frames bodies @ rest" "next_frame rest = Torn"
      using assms by (auto simp: recoverable_def)
    then have eq: "seg_bodies c = bodies" by (simp add: seg_bodies_def parse_bodies_frames not_frame_def)
    show thesis by (rule that(2) [of rest]) (unfold eq, fact+)
  qed (use that in blast)
  then show thesis
  proof cases
    case header
    then show thesis using that [of 0] recoverable_header by (simp add: min_def take_take)
  next
    case (records rest)
    show thesis
    proof (cases "k < SEGMENT_FILE_HEADER_LEN")
      case True
      then have "take k c = take k SEGMENT_FORMAT_MAGIC" by (subst records(1)) simp
      then show thesis using that [of 0] recoverable_header True by simp
    next
      case False
      obtain j rest' where j: "take (k - SEGMENT_FILE_HEADER_LEN) (frames (seg_bodies c) @ rest) = frames (take j (seg_bodies c)) @ rest'"
        "next_frame rest' = Torn"
        "\<forall>i \<le> length (seg_bodies c). length (frames (take i (seg_bodies c))) \<le> k - SEGMENT_FILE_HEADER_LEN \<longrightarrow> i \<le> j"
        using take_frames [OF records(2,3)] by blast
      have eq: "take k c = SEGMENT_FORMAT_MAGIC @ frames (take j (seg_bodies c)) @ rest'"
        using False j(1) by (subst records(1)) simp
      have small: "small_bodies (take j (seg_bodies c))" using records(2) by (auto simp: list_all_iff dest: in_set_takeD)
      have "parse_bodies (frames (take j (seg_bodies c)) @ rest') = (take j (seg_bodies c), rest')"
        using j(2) by (intro parse_bodies_frames [OF small]) (simp add: not_frame_def)
      then have "seg_bodies (take k c) = take j (seg_bodies c)" by (subst seg_bodies_def) (simp add: eq)
      moreover have "recoverable (take k c)" unfolding recoverable_def using eq small j(2) by blast
      ultimately show thesis using that [of j] j(3) False by auto
    qed
  qed
qed

section \<open>Loss of power\<close>

text \<open>
  The lock is free, and each file keeps its name and a beginning of its content, with at least the
  bytes that were synchronised. Whether the names of files survive is outside the model.
\<close>

definition survives :: "SFile \<Rightarrow> SFile \<Rightarrow> bool" where
  "survives f f' \<longleftrightarrow> (\<exists>k. f_durable f \<le> k \<and> f' = \<lparr>f_content = take k (f_content f), f_durable = length (take k (f_content f))\<rparr>)"

fun entry_survives :: "dirent \<Rightarrow> dirent \<Rightarrow> bool" where
  "entry_survives (RegularFile f) (RegularFile f') = survives f f'"
| "entry_survives OtherEntry OtherEntry = True"
| "entry_survives _ _ = False"

definition power_loss :: "Disk \<Rightarrow> Disk \<Rightarrow> bool" where
  "power_loss d d' \<longleftrightarrow> d_dir d' = d_dir d \<and> \<not> d_locked d' \<and>
     list_all2 (\<lambda>(k, e) (k', e'). k = k' \<and> entry_survives e e') (d_files d) (d_files d')"

lemma entry_survives_cases:
  assumes "entry_survives e e'"
  obtains f f' where "e = RegularFile f" and "e' = RegularFile f'" and "survives f f'" | "e = OtherEntry" and "e' = OtherEntry"
  using assms by (cases "(e, e')" rule: entry_survives.cases) auto

lemma power_loss_names:
  assumes "power_loss d d'"
  shows "map fst (d_files d') = map fst (d_files d)" and "rel_option entry_survives (disk_get d k) (disk_get d' k)"
proof -
  have all: "list_all2 (\<lambda>(k, e) (k', e'). k = k' \<and> entry_survives e e') (d_files d) (d_files d')"
    using assms by (simp add: power_loss_def)
  then show "map fst (d_files d') = map fst (d_files d)" by (induction rule: list_all2_induct) auto
  show "rel_option entry_survives (disk_get d k) (disk_get d' k)"
    unfolding disk_get_def using all by (induction rule: list_all2_induct) auto
qed

lemma power_loss_file:
  assumes "power_loss d d'"
  shows "rel_option survives (file_at d k) (file_at d' k)" and "disk_get d' k = None \<longleftrightarrow> disk_get d k = None"
    and "disk_get d' k = Some OtherEntry \<longleftrightarrow> disk_get d k = Some OtherEntry"
  using power_loss_names(2) [OF assms, of k]
  by (cases "disk_get d k"; cases "disk_get d' k"; auto simp: file_at_def elim!: entry_survives_cases)+

lemma survives_synced: "survives f f' \<Longrightarrow> length (f_content f) \<le> f_durable f \<Longrightarrow> f_content f' = f_content f"
  by (auto simp: survives_def)

lemma power_loss_synced:
  assumes "power_loss d d'" and "synced d k"
  shows "content_at d' k = content_at d k"
  using power_loss_file(1) [OF assms(1), of k] assms(2) survives_synced
  by (cases "file_at d k"; cases "file_at d' k") (auto simp: content_at_def synced_def)

lemma power_loss_settles: "power_loss d d' \<Longrightarrow> synced d' k"
  using power_loss_file(1) [of d d' k] by (cases "file_at d k"; cases "file_at d' k") (auto simp: synced_def survives_def)

lemma power_loss_seg:
  assumes "power_loss d d'" and "firm a d"
  obtains k where "seg d' = (\<lambda>n. if n = a then map_option (take k) (seg d a) else seg d n)"
    and "\<And>f. file_at d (SegmentName_file_name a) = Some f \<Longrightarrow> f_durable f \<le> k"
proof -
  let ?f = "SegmentName_file_name a"
  have others: "seg d' n = seg d n" if "n \<noteq> a" for n
    using power_loss_synced [OF assms(1)] assms(2) that by (simp add: firm_def seg_def)
  show thesis
  proof (cases "file_at d ?f")
    case None
    then have "file_at d' ?f = None" using power_loss_file(1) [OF assms(1), of ?f] by simp
    then show thesis using that [of 0] None others by (auto simp: fun_eq_iff seg_def content_at_def)
  next
    case (Some f)
    then obtain f' where f': "file_at d' ?f = Some f'" "survives f f'"
      using power_loss_file(1) [OF assms(1), of ?f] by (auto simp: option_rel_Some1)
    then obtain k where "f_durable f \<le> k" "f_content f' = take k (f_content f)" by (auto simp: survives_def)
    then show thesis using that [of k] Some f'(1) others by (auto simp: fun_eq_iff seg_def content_at_def)
  qed
qed

lemma layout_take: "layout off (take j bodies) = take j (layout off bodies)"
proof (induction bodies arbitrary: off j)
  case (Cons b bodies)
  then show ?case by (cases j) auto
qed simp

lemma layout_split_mem: "(start + length (frames xs), b) \<in> set (layout start (xs @ b # ys))"
  by (simp add: layout_append)

text \<open>The segment that was cut: it keeps its first records, and those that were synchronised.\<close>

lemma cut_seg_records:
  assumes crash: "crash_ok d" and loss: "power_loss d d'" and c: "seg d a = Some c" and seg': "seg d' a = Some (take k c)"
    and k: "\<And>f. file_at d (SegmentName_file_name a) = Some f \<Longrightarrow> f_durable f \<le> k"
  obtains j where "seg_records d' a = take j (seg_records d a)" and "recoverable (take k c)"
    and "\<And>p body. (p, body) \<in> set (seg_records d a) \<Longrightarrow> record_durable d p \<Longrightarrow> (p, body) \<in> set (seg_records d' a)"
proof -
  obtain j where j: "recoverable (take k c)" "seg_bodies (take k c) = take j (seg_bodies c)"
    "\<And>i. i \<le> length (seg_bodies c) \<Longrightarrow> 0 < i \<Longrightarrow> SEGMENT_FILE_HEADER_LEN + length (frames (take i (seg_bodies c))) \<le> k \<Longrightarrow> i \<le> j"
    using recoverable_take [OF seg_recoverable [OF crash c]] by metis
  have recs: "seg_records d' a = take j (seg_records d a)"
    by (simp add: seg_records_def c seg' j(2) layout_take take_map)
  have kept: "(p, body) \<in> set (seg_records d' a)" if mem: "(p, body) \<in> set (seg_records d a)" and dur: "record_durable d p" for p body
  proof -
    obtain off where off: "p = RecordPosition a (of_nat off)" "(off, body) \<in> set (layout SEGMENT_FILE_HEADER_LEN (seg_bodies c))"
      using seg_records_mem [OF mem] c by force
    obtain xs ys where split: "seg_bodies c = xs @ body # ys" "off = SEGMENT_FILE_HEADER_LEN + length (frames xs)"
      using layout_mem_split [OF off(2)] by blast
    have "(p, body) \<in> set (dir_records d)"
      using mem c seg_names(2) [of d] crash by (auto simp: dir_records_def crash_ok_def)
    from record_at [OF crash this] obtain c0 where c0: "seg d (rp_segment p) = Some c0"
      "next_frame (drop (unat (rp_offset p)) c0) = Frame body" by metis
    obtain f b where f: "file_at d (SegmentName_file_name (rp_segment p)) = Some f"
      "next_frame (drop (unat (rp_offset p)) (f_content f)) = Frame b" "unat (rp_offset p) + 8 + length b \<le> f_durable f"
      using dur by (auto simp: record_durable_def)
    have "b = body" using c0 f(1,2) by (auto simp: seg_def content_at_def)
    then have "off + 8 + length body \<le> k"
      using f(1,3) k layout_in_seg(3) [OF crash c off(2)] off(1) by fastforce
    then have "SEGMENT_FILE_HEADER_LEN + length (frames (take (Suc (length xs)) (seg_bodies c))) \<le> k"
      using split by simp
    then have "Suc (length xs) \<le> j" using j(3) [of "Suc (length xs)"] split(1) by simp
    then have "take j (seg_bodies c) = xs @ body # take (j - Suc (length xs)) ys"
      by (simp add: split(1) take_Cons' )
    then have "(off, body) \<in> set (layout SEGMENT_FILE_HEADER_LEN (take j (seg_bodies c)))"
      using layout_split_mem [of SEGMENT_FILE_HEADER_LEN xs body] split(2) by simp
    then show ?thesis by (force simp: seg_records_def seg' j(2) off(1))
  qed
  from that [OF recs j(1) kept] show thesis .
qed

lemma power_loss_disk_ok: "power_loss d d' \<Longrightarrow> disk_ok d \<Longrightarrow> disk_ok d'"
  using power_loss_names(1) [of d d'] by (simp add: disk_ok_def power_loss_def)

lemma dir_records_take:
  assumes ok: "disk_ok d" "disk_ok d'" and top: "is_top d a" and others: "\<And>n. n \<noteq> a \<Longrightarrow> seg d' n = seg d n"
    and same: "seg d' a = None \<longleftrightarrow> seg d a = None" and recs: "seg_records d' a = take j (seg_records d a)"
  shows "\<exists>i. dir_records d' = take i (dir_records d)"
proof -
  let ?X = "concat (map (seg_records d) (filter (\<lambda>n. n < a) (seg_names d)))"
  have ex: "seg d' n = None \<longleftrightarrow> seg d n = None" for n using others [of n] same by (cases "n = a") auto
  then have top': "is_top d' a" using top by (simp add: is_top_def)
  have names: "seg_names d' = seg_names d"
    using seg_names(2,3) [OF ok(1)] seg_names(2,3) [OF ok(2)] ex by (intro strict_sorted_equal) auto
  have old: "map (seg_records d') (filter (\<lambda>n. n < a) (seg_names d)) = map (seg_records d) (filter (\<lambda>n. n < a) (seg_names d))"
    using others by (intro map_cong seg_records_cong) auto
  have "dir_records d' = ?X @ take j (seg_records d a)"
    unfolding dir_records_top [OF ok(2) top'] names old recs ..
  then have "dir_records d' = take (length ?X + j) (dir_records d)"
    unfolding dir_records_top [OF ok(1) top] by (simp del: length_concat)
  then show ?thesis ..
qed

lemma power_loss_records:
  assumes crash: "crash_ok d" and firm: "firm a d" and loss: "power_loss d d'"
  shows "crash_ok d'" and "\<exists>i. dir_records d' = take i (dir_records d)"
    and "(p, body) \<in> set (dir_records d) \<Longrightarrow> record_durable d p \<Longrightarrow> (p, body) \<in> set (dir_records d')"
proof -
  have ok: "disk_ok d" "disk_ok d'" using crash power_loss_disk_ok [OF loss] by (auto simp: crash_ok_def)
  have top: "is_top d a" using firm by (simp add: firm_def)
  obtain k where seg: "seg d' = (\<lambda>n. if n = a then map_option (take k) (seg d a) else seg d n)"
    and k: "\<And>f. file_at d (SegmentName_file_name a) = Some f \<Longrightarrow> f_durable f \<le> k"
    using power_loss_seg [OF loss firm] by metis
  obtain j where recs: "seg_records d' a = take j (seg_records d a)" and rec: "\<And>c. seg d a = Some c \<Longrightarrow> recoverable (take k c)"
    and kept: "\<And>p body. (p, body) \<in> set (seg_records d a) \<Longrightarrow> record_durable d p \<Longrightarrow> (p, body) \<in> set (seg_records d' a)"
  proof (cases "seg d a")
    case None
    show thesis by (rule that [of 0]) (simp_all add: seg_records_def seg None)
  next
    case (Some c)
    have "seg d' a = Some (take k c)" using Some by (simp add: seg)
    from cut_seg_records [OF crash loss Some this k] obtain j where "seg_records d' a = take j (seg_records d a)"
      "recoverable (take k c)"
      "\<And>p body. (p, body) \<in> set (seg_records d a) \<Longrightarrow> record_durable d p \<Longrightarrow> (p, body) \<in> set (seg_records d' a)" by metis
    then show thesis using that [of j] Some by simp
  qed
  have "length c' \<le> MAX_FILE_LEN \<and> recoverable c' \<and> (clean c' \<or> (\<forall>m. seg d' m \<noteq> None \<longrightarrow> m \<le> n))"
    if seg': "seg d' n = Some c'" for n c'
  proof (cases "n = a")
    case True
    then obtain c where c: "seg d a = Some c" "c' = take k c" using seg' by (auto simp: seg)
    have "length c \<le> MAX_FILE_LEN" using crash c(1) by (simp add: crash_ok_def)
    then show ?thesis using c rec top True by (auto simp: is_top_def seg)
  next
    case False
    then show ?thesis using crash seg' by (auto simp: crash_ok_def seg split: if_splits)
  qed
  then show "crash_ok d'" using ok(2) by (simp add: crash_ok_def)
  show "\<exists>i. dir_records d' = take i (dir_records d)"
    by (rule dir_records_take [OF ok top _ _ recs]) (simp_all add: seg)
  show "(p, body) \<in> set (dir_records d')" if mem: "(p, body) \<in> set (dir_records d)" and dur: "record_durable d p"
  proof -
    obtain n where n: "seg d n \<noteq> None" "(p, body) \<in> set (seg_records d n)"
      using mem seg_names(2) [OF ok(1)] by (auto simp: dir_records_def)
    have "(p, body) \<in> set (seg_records d' n)"
    proof (cases "n = a")
      case False
      then show ?thesis using n(2) seg_records_cong [of d' n d] by (simp add: seg)
    qed (use n(2) dur kept in simp)
    moreover have "n \<in> set (seg_names d')" using n(1) seg_names(2) [OF ok(2)] by (auto simp: seg)
    ultimately show ?thesis by (auto simp: dir_records_def)
  qed
qed

text \<open>The directory still stands for a storage, with the same registry and index.\<close>

lemma power_loss_storage:
  assumes store: "storage_ok N J d reg idx" and sto: "stored J d reg idx" and firm: "firm a d" and loss: "power_loss d d'"
  shows "storage_ok N J d' reg idx" and "stored J d' reg idx" and "firm a d'"
proof -
  have crash: "crash_ok d" using store by (simp add: storage_ok_def)
  note recs = power_loss_records [OF crash firm loss]
  obtain i where i: "dir_records d' = take i (dir_records d)" using recs(2) by blast
  have meta: "content_at d' NODE_REGISTRY_FILE_NAME = content_at d NODE_REGISTRY_FILE_NAME"
    "content_at d' CHECKPOINT_INDEX_FILE_NAME = content_at d CHECKPOINT_INDEX_FILE_NAME"
    using power_loss_synced [OF loss] firm by (simp_all add: firm_def)
  have "ckpt_at N n (dir_records d') p" if "is_active reg n" "bt_get idx n = Some p" for n p
  proof -
    have "ckpt_at N n (dir_records d) p" "record_durable d p"
      using store sto that by (simp_all add: storage_ok_def index_ok_def stored_def)
    then show ?thesis using recs(3) [of p] by (fastforce simp: ckpt_at_def)
  qed
  moreover have "decodable N d'" using store by (auto simp: storage_ok_def decodable_def i dest: in_set_takeD)
  moreover have "registry_stored J d' reg" "index_stored J d' idx"
    using store by (simp_all add: storage_ok_def registry_stored_def index_stored_def meta power_loss_file(2) [OF loss])
  moreover have "disk_get d' WRITE_LOCK_FILE_NAME \<noteq> Some OtherEntry"
    using store power_loss_file(3) [OF loss] by (simp add: storage_ok_def)
  ultimately show ok: "storage_ok N J d' reg idx" using recs(1) by (simp add: storage_ok_def index_ok_def)
  obtain k where "seg d' = (\<lambda>n. if n = a then map_option (take k) (seg d a) else seg d n)" using power_loss_seg [OF loss firm] by metis
  then have "is_top d' a" using firm by (auto simp: firm_def is_top_def)
  then show "firm a d'" using power_loss_settles [OF loss] by (simp add: firm_def)
  have "record_durable d' p" if "is_active reg n" "bt_get idx n = Some p" for n p
  proof -
    have "ckpt_at N n (dir_records d') p" using ok that by (simp add: storage_ok_def index_ok_def)
    then obtain body where "(p, body) \<in> set (dir_records d')" by (auto simp: ckpt_at_def)
    then show ?thesis by (rule synced_durable [OF recs(1) _ power_loss_settles [OF loss]])
  qed
  then show "stored J d' reg idx" using ok storage_ok_disk [OF ok] by (simp add: stored_def storage_ok_def)
qed

section \<open>The system under loss of power\<close>

fun system_disk :: "system \<Rightarrow> Disk" where
  "system_disk (Up s) = st_disk s"
| "system_disk (Down d) = d"

text \<open>
  Power may be lost at any time: between two steps, or in the middle of an operation, which is then
  one that failed at the system call where it stopped.
\<close>

inductive power_step :: "('le, 'lg) noraft \<Rightarrow> 'v nojson \<Rightarrow> system \<Rightarrow> system \<Rightarrow> bool"
  for N :: "('le, 'lg) noraft" and J :: "'v nojson" where
  ordinary: "system_step N J sys sys' \<Longrightarrow> power_step N J sys sys'"
| blackout: "power_loss (system_disk sys) d' \<Longrightarrow> power_step N J sys (Down d')"

lemma sound_storage:
  assumes "json_laws J" and "represents N J sys v" and "sound J sys" and "d_dir (system_disk sys) = Directory"
  obtains idx a where "storage_ok N J (system_disk sys) (v_registry v) idx" and "stored J (system_disk sys) (v_registry v) idx"
    and "firm a (system_disk sys)" and "v = view_of N (system_disk sys) (v_registry v)"
proof -
  have stands: "stands_for N J (system_disk sys) v"
    using assms(2,4) engine_stands by (cases sys) (auto simp: at_rest_def)
  then obtain idx where store: "storage_ok N J (system_disk sys) (v_registry v) idx" "v = view_of N (system_disk sys) (v_registry v)"
    by (auto simp: stands_for_def)
  have "index_durable J (system_disk sys)" "\<exists>a. firm a (system_disk sys)"
    using assms(3,4) by (cases sys; auto simp: sturdy_def)+
  then show thesis using that store index_durable_storage [OF assms(1) _ store(1)] by blast
qed

lemma blackout_represents:
  assumes "json_laws J" and "represents N J sys v" and "sound J sys" and loss: "power_loss (system_disk sys) d'"
  shows "\<exists>v'. represents N J (Down d') v' \<and> sound J (Down d')"
proof (cases "d_dir (system_disk sys) = Directory")
  case True
  obtain idx a where "storage_ok N J (system_disk sys) (v_registry v) idx" "stored J (system_disk sys) (v_registry v) idx"
    "firm a (system_disk sys)" using sound_storage [OF assms(1-3) True] by metis
  note after = power_loss_storage [OF this loss]
  have "represents N J (Down d') (view_of N d' (v_registry v))"
    using stands_forI [OF after(1)] loss by (simp add: at_rest_def power_loss_def)
  moreover have "sound J (Down d')" using after(2,3) by (auto simp: sturdy_def index_durable_def)
  ultimately show ?thesis by blast
next
  case False
  have dir: "d_dir d = Directory" if "stands_for N J d w" for d w
    using that storage_ok_disk unfolding stands_for_def disk_ok_def by blast
  have "d_dir (system_disk sys) = Missing"
    using assms(2) False dir engine_stands [of N J] by (cases sys) (auto simp: at_rest_def)
  then have "represents N J (Down d') empty_view" "sound J (Down d')"
    using loss by (auto simp: at_rest_def power_loss_def sturdy_def)
  then show ?thesis by blast
qed

text \<open>From a directory that does not exist yet.\<close>

lemma power_reachable:
  assumes "noraft_laws N" and "json_laws J" and "(power_step N J)\<^sup>*\<^sup>* (Down d) sys" and "d_dir d = Missing" and "\<not> d_locked d"
  shows "\<exists>v. represents N J sys v \<and> sound J sys"
  using assms(3)
proof (induction rule: rtranclp_induct)
  case base
  show ?case using assms(4,5) by (intro exI [of _ empty_view]) (simp add: at_rest_def sturdy_def)
next
  case (step sys sys')
  then obtain v where v: "represents N J sys v" "sound J sys" by blast
  from step(2) show ?case
  proof cases
    case ordinary
    then show ?thesis using simulation [OF assms(1,2) v(1)] system_sound [OF assms(1,2) v] by blast
  next
    case (blackout d')
    then show ?thesis using blackout_represents [OF assms(2) v] by blast
  qed
qed

section \<open>When nothing is lost\<close>

definition all_synced :: "Disk \<Rightarrow> bool" where
  "all_synced d \<longleftrightarrow> (\<forall>n. synced d (SegmentName_file_name n))"

lemma all_synced_firm: "firm a d \<Longrightarrow> synced d (SegmentName_file_name a) \<Longrightarrow> all_synced d"
  unfolding all_synced_def firm_def by metis

lemma power_loss_nothing:
  assumes "json_laws J" and ok: "engine_ok N J s" and firm: "firm (active_of s) (st_disk s)"
    and durable: "index_durable J (st_disk s)" and all: "all_synced (st_disk s)" and loss: "power_loss (st_disk s) d'"
  shows "load_node N J d' k = (fst (Engine_load N k s), d')"
proof -
  obtain idx where store: "storage_ok N J (st_disk s) (st_registry s) idx" using engine_ok_index [OF ok] by metis
  have disk: "disk_ok (st_disk s)" "disk_ok d'" using storage_ok_disk [OF store] power_loss_disk_ok [OF loss] by auto
  have seg: "seg d' = seg (st_disk s)"
    using power_loss_synced [OF loss] all by (simp add: all_synced_def seg_def fun_eq_iff)
  have "storage_ok N J d' (st_registry s) idx"
    by (rule power_loss_storage(1) [OF store index_durable_storage [OF assms(1) durable store] firm loss])
  then have "stands_for N J d' (engine_view N s)"
    by (rule stands_for_view) (simp add: engine_view_def view_same_segments [OF disk seg])
  from load_node_view [OF assms(1) this] show ?thesis by (simp add: Engine_load_view [OF ok])
qed

text \<open>Records that were saved and then synchronised.\<close>

lemma saves_pending:
  assumes "sfold (\<lambda>(n, r) _. save_record N n r op) nrs () s = (Inr (), s')" and "nrs \<noteq> []"
  shows "unsynced (st_metrics s') \<noteq> (0, 0)"
  using assms
proof (induction nrs arbitrary: s)
  case (Cons nr nrs)
  obtain n r where nr: "nr = (n, r)" by (cases nr)
  obtain s1 where s1: "save_record N n r op s = (Inr (), s1)" "sfold (\<lambda>(n, r) _. save_record N n r op) nrs () s1 = (Inr (), s')"
    using Cons.prems(1) by (auto simp: nr sbind_eq_Inr)
  show ?case
  proof (cases "nrs = []")
    case True
    obtain p t where app: "SegmentWriter_append N n r t = (Inr p, s1)"
      using s1(1) by (auto simp: save_record_def sbind_eq_Inr sret_def)
    then show ?thesis using append_pending(1) [OF app] True s1(2) by (simp add: sret_def)
  next
    case False
    then show ?thesis using Cons.IH [OF s1(2)] by simp
  qed
qed simp

lemma saves_sound:
  assumes run: "sfold (\<lambda>(n, r) _. save_record N n r op) nrs () s = (Inr (), s')" and sound: "sound J (Up s)"
  shows "sound J (Up s')"
proof -
  have one: "obeys grows (save_record N n r op)" "obeys (touch segment_files) (save_record N n r op)" "firmly (save_record N n r op)" for n r
    unfolding save_record_def Engine_ensure_node_exists_def
    by (intro growing.bind growing.pure growing.conditional grows_writer touching.bind touching.pure touching.conditional
        touch_writer firm_intros)+
  have grow: "obeys grows (sfold (\<lambda>(n, r) _. save_record N n r op) nrs ())"
    by (rule growing.loop) (simp add: split_def one)
  have touch: "obeys (touch segment_files) (sfold (\<lambda>(n, r) _. save_record N n r op) nrs ())"
    by (rule touching.loop) (simp add: split_def one)
  have firm: "firmly (sfold (\<lambda>(n, r) _. save_record N n r op) nrs ())"
    by (rule firmly_loop) (simp add: split_def one)
  obtain reg idx where sto: "stored J (st_disk s) reg idx" using sound by (auto simp: index_durable_def)
  have "stored J (st_disk s') reg idx"
    by (rule stored_grows [OF sto obeysD [OF grow run] obeysD [OF touch run]]) simp_all
  then show ?thesis using firmlyD(2) [OF firm run _ refl] sound by (auto simp: index_durable_def)
qed

lemma sync_settles_all:
  assumes json: "json_laws J" and ok: "engine_ok N J s" and sound: "sound J (Up s)" and pending: "unsynced (st_metrics s) \<noteq> (0, 0)"
    and run: "Engine_sync s = (Inr (), s')"
  shows "engine_ok N J s'" and "engine_view N s' = engine_view N s" and "sound J (Up s')" and "all_synced (st_disk s')"
proof -
  show ok': "engine_ok N J s'" "engine_view N s' = engine_view N s" using Engine_sync_effect(2) [OF ok run refl] by auto
  let ?s = "on_metrics sync_requested s"
  have run1: "SegmentWriter_sync ?s = (Inr (), s')" using run by (simp add: Engine_sync_def count_metric_def)
  have firm1: "firm (active_of ?s) (st_disk ?s)" using sound by (simp add: on_metrics_def)
  have firm: "firm (active_of s') (st_disk s')" by (rule firmlyD(2) [OF sync_firm run1 firm1 refl])
  have "io_state.more s' = io_state.more ?s" by (rule SegmentWriter_sync_ok(3) [OF run1])
  then have "active_of s' = active_of ?s" using writer_more(1) by metis
  moreover have "unsynced (st_metrics ?s) \<noteq> (0, 0)" using pending by (simp add: unsynced_other)
  ultimately show "all_synced (st_disk s')"
    using all_synced_firm [OF firm] pending_synced [OF run1] by simp
  obtain reg idx where "stored J (st_disk s) reg idx" using sound by (auto simp: index_durable_def)
  then have "shrunk J (st_disk s')" by (rule Engine_sync_shrunk [OF run])
  moreover obtain idx' where "storage_ok N J (st_disk s') (st_registry s') idx'" using engine_ok_index [OF ok'(1)] by metis
  ultimately have "stored J (st_disk s') (st_registry s') idx'" by (rule shrunk_durable [OF json])
  then show "sound J (Up s')" using firm by (auto simp: index_durable_def)
qed

section \<open>Checkpoints are never lost\<close>

abbreviation settles :: "Disk \<Rightarrow> Disk \<Rightarrow> bool" where
  "settles d d' \<equiv> all_synced d \<longrightarrow> all_synced d'"

interpretation settling: file_preorder settles
proof
  show "settles d d" for d by simp
  show "settles d f" if "settles d e" "settles e f" for d e f using that by blast
  show "settles d (d\<lparr>d_faults := fs\<rparr>)" for d fs by (simp add: all_synced_def synced_def)
qed

lemma obeys_mono: "obeys R m \<Longrightarrow> (\<And>d d'. R d d' \<Longrightarrow> R' d d') \<Longrightarrow> obeys R' m"
  by (simp add: obeys_def)

lemma settles_intros:
  "obeys settles (NodeRegistry_save J reg)" "obeys settles (CheckpointIndex_save J idx)" "obeys settles collect_garbage"
proof -
  have meta: "obeys settles (replace_file path tmp doc :: ('x io_state_scheme, unit) io)"
    if "path \<notin> segment_files" "tmp \<notin> segment_files" "path \<noteq> tmp" for path tmp doc
    unfolding obeys_def
  proof
    fix s :: "'x io_state_scheme"
    obtain r s' where run: "replace_file path tmp doc s = (r, s')" by (rule prod.exhaust)
    have "touch {path, tmp} (st_disk s) (st_disk s')" using replace_file_effect [OF that(3) run] by simp
    then have "synced (st_disk s') (SegmentName_file_name n) = synced (st_disk s) (SegmentName_file_name n)" for n
      by (rule synced_touch) (use that(1,2) in auto)
    then show "settles (st_disk s) (st_disk (snd (replace_file path tmp doc s)))" using run by (simp add: all_synced_def)
  qed
  show "obeys settles (NodeRegistry_save J reg)" "obeys settles (CheckpointIndex_save J idx)"
    unfolding NodeRegistry_save_def CheckpointIndex_save_def by (rule meta; simp)+
  have "settles d d'" if "shrinks d d'" for d d'
    using that by (auto simp: shrinks_def all_synced_def synced_def file_at_def split: option.splits dirent.splits) (metis option.distinct(1))
  then show "obeys settles collect_garbage" by (rule obeys_mono [OF shrinks_gc(2)])
qed

lemma write_checkpoint_settles:
  assumes run: "write_checkpoint N J n c s = (Inr idx', s')" and firm: "firm (active_of s) (st_disk s)"
  shows "all_synced (st_disk s')"
proof -
  obtain p t s1 u where t: "SegmentWriter_append N n (Checkpoint c) s = (Inr p, t)" and s1: "SegmentWriter_sync t = (Inr (), s1)"
    and u: "CheckpointIndex_save J (set_checkpoint_position n p (st_index s1)) s1 = (Inr (), u)" and s': "s' = u"
    using run by (auto simp: write_checkpoint_def sbind_eq_Inr sret_def sget_def)
  have "firm (active_of t) (st_disk t)" by (rule firmlyD(2) [OF append_firm t firm refl])
  then have "firm (active_of s1) (st_disk s1)" by (rule firmlyD(2) [OF sync_firm s1 _ refl])
  moreover have "active_of s1 = active_of t" using SegmentWriter_sync_ok(3) [OF s1] writer_more(1) by metis
  ultimately have "all_synced (st_disk s1)" using all_synced_firm pending_synced [OF s1 append_pending(1) [OF t]] by simp
  then show ?thesis using obeysD [OF settles_intros(2) u] s' by simp
qed

lemma checkpoint_settles:
  assumes "run_command N J cmd s = (Inr (), s')" and "firm (active_of s) (st_disk s)"
    and "(\<exists>n meta. cmd = CmdCreateNode n meta) \<or> (\<exists>n c. cmd = CmdSaveSnapshot n c)"
  shows "all_synced (st_disk s')"
  using assms(3)
proof (elim disjE exE)
  fix n meta assume "cmd = CmdCreateNode n meta"
  then have run: "create_node N J n meta s = (Inr (), s')" using assms(1) by simp
  obtain idx' reg' s1 s2 where s1: "write_checkpoint N J n (initial_checkpoint N) s = (Inr idx', s1)"
    and s2: "NodeRegistry_save J reg' s1 = (Inr (), s2)" and s': "st_disk s' = st_disk s2"
    using run by (auto simp: create_node_split sbind_eq_Inr slift_def sget_def set_registry_def set_index_def
        count_metric_def smodify_def refresh_metrics)
  show ?thesis using write_checkpoint_settles [OF s1 assms(2)] obeysD [OF settles_intros(1) s2] s' by simp
next
  fix n c assume "cmd = CmdSaveSnapshot n c"
  then have run: "save_snapshot N J n c s = (Inr (), s')" using assms(1) by simp
  obtain s0 idx' s1 s2 where s0: "Engine_ensure_node_exists n OpSaveSnapshot s = (Inr (), s0)"
    and s1: "write_checkpoint N J n c s0 = (Inr idx', s1)"
    and s2: "collect_garbage (on_metrics (checkpoint_index_changed (of_nat (length idx'))) (s1\<lparr>st_index := idx'\<rparr>)) = (Inr (), s2)"
    and s': "st_disk s' = st_disk s2"
    using run by (auto simp: save_snapshot_split sbind_eq_Inr slift_def set_index_def count_metric_def smodify_def refresh_metrics)
  have "s0 = s" using s0 by (auto simp: Engine_ensure_node_exists_def sbind_eq_Inr sget_def sret_def serr_def count_metric_def split: if_splits)
  then show ?thesis using write_checkpoint_settles [OF s1] assms(2) obeysD [OF settles_intros(3) s2] s' by simp
qed

text \<open>The loss in which only the synchronised bytes survive.\<close>

definition synced_part :: "dirent \<Rightarrow> dirent" where
  "synced_part e = (case e of OtherEntry \<Rightarrow> OtherEntry
     | RegularFile f \<Rightarrow> let c = take (f_durable f) (f_content f) in RegularFile \<lparr>f_content = c, f_durable = length c\<rparr>)"

definition blackout_disk :: "Disk \<Rightarrow> Disk" where
  "blackout_disk d = d\<lparr>d_locked := False, d_files := map (\<lambda>(k, e). (k, synced_part e)) (d_files d)\<rparr>"

lemma power_loss_blackout: "power_loss d (blackout_disk d)"
proof -
  have "entry_survives e (synced_part e)" for e
    by (cases e) (auto simp: synced_part_def survives_def Let_def)
  then show ?thesis
    by (auto simp: power_loss_def blackout_disk_def list_all2_map2 list_all2_same split_def)
qed

end
