(* ===== verification/Progress.thy ===== *)
theory Progress
  imports Liveness
begin

text \<open>
  Every command that is allowed succeeds when no system call fails, no entry of the directory is
  anything but a regular file, and the record and the metadata texts fit.
\<close>

section \<open>Easy states\<close>

definition easy :: "'x io_state_scheme \<Rightarrow> bool" where
  "easy s \<longleftrightarrow> d_faults (st_disk s) = [] \<and> (\<forall>k. disk_get (st_disk s) k \<noteq> Some OtherEntry)"

lemma easy_metrics [simp]: "easy (on_metrics g s) = easy s"
  by (simp add: easy_def)

lemma easy_disk: "st_disk t = st_disk s \<Longrightarrow> easy t = easy s"
  by (simp add: easy_def)

lemma easy_touch: "easy s \<Longrightarrow> touch X (st_disk s) (st_disk s') \<Longrightarrow> d_faults (st_disk s') = [] \<Longrightarrow> easy s'"
  by (auto simp: easy_def touch_def)

lemma easy_append:
  assumes "writer_ok s" and "roomy s" and "easy s" and "encode_record_frame N n r = Inr frame"
  obtains p s' where "SegmentWriter_append N n r s = (Inr p, s')" and "easy s'"
proof -
  obtain p s' where run: "SegmentWriter_append N n r s = (Inr p, s')" "d_faults (st_disk s') = []"
    using append_succeeds [OF assms(1,2,4)] .
  then show thesis using that easy_touch [OF assms(3) obeysD [OF touch_writer(4) run(1)] run(2)] by blast
qed

lemma easy_sync:
  assumes "easy s"
  obtains s' where "SegmentWriter_sync s = (Inr (), s')" and "easy s'"
proof -
  have "d_faults (st_disk s) = []" using assms by (simp add: easy_def)
  then obtain s' where run: "SegmentWriter_sync s = (Inr (), s')" "d_faults (st_disk s') = []"
    by (rule writer_sync_succeeds)
  then show thesis using that easy_touch [OF assms obeysD [OF touch_writer(2) run(1)] run(2)] by blast
qed

lemma easy_replace:
  assumes "easy s" and "length text \<le> MAX_FILE_LEN" and "path \<noteq> tmp"
  obtains s' where "replace_file path tmp text s = (Inr (), s')" and "easy s'" and "io_state.more s' = io_state.more s"
proof -
  have easy: "d_faults (st_disk s) = []" "disk_get (st_disk s) k \<noteq> Some OtherEntry" for k using assms(1) by (simp_all add: easy_def)
  obtain s' where run: "replace_file path tmp text s = (Inr (), s')" "d_faults (st_disk s') = []"
    by (rule replace_file_succeeds [OF easy(1) easy(2) easy(2) assms(2,3)])
  note eff = replace_file_effect [OF assms(3) run(1)]
  show thesis using that run(1) easy_touch [OF assms(1) _ run(2)] eff by blast
qed

lemma easy_save:
  fixes s :: engine
  assumes "easy s"
  shows "length (format_checkpoint_index J idx) \<le> MAX_FILE_LEN \<Longrightarrow>
      \<exists>s'. CheckpointIndex_save J idx s = (Inr (), s') \<and> easy s' \<and> io_state.more s' = io_state.more s"
    and "length (format_node_registry J reg) \<le> MAX_FILE_LEN \<Longrightarrow>
      \<exists>s'. NodeRegistry_save J reg s = (Inr (), s') \<and> easy s' \<and> io_state.more s' = io_state.more s"
  unfolding CheckpointIndex_save_def NodeRegistry_save_def
  using easy_replace [OF assms _ meta_distinct(2)] easy_replace [OF assms _ meta_distinct(1)] by metis+

section \<open>Garbage collection\<close>

lemma easy_gc_step:
  assumes "easy s"
  shows "\<exists>x s'. gc_step a b sp acc s = (Inr x, s') \<and> easy s'"
proof -
  have calm: "d_faults (st_disk s) = []" using assms by (simp add: easy_def)
  obtain q s1 where q: "sys_remove_file (sp_path sp) s = (q, s1)" by fastforce
  have kind: "q = Inr () \<or> (\<exists>e. q = Inl e \<and> kind_of e = NotFound)" and "d_faults (st_disk s1) = []"
    using q calm assms
    by (auto simp: sys_remove_file_def calmly_syscall smodify_def serr_def not_found_def easy_def split: option.splits dirent.splits)
  then have "easy s1" using easy_touch [OF assms obeysD [OF touch_sys(7) q]] by blast
  then show ?thesis using kind q assms by (auto simp: gc_step_def)
qed

lemma easy_gc_loop:
  assumes "easy s"
  shows "\<exists>x s'. sfold (gc_step a b) sps acc s = (Inr x, s') \<and> easy s'"
  using assms
proof (induction sps arbitrary: acc s)
  case (Cons sp sps)
  obtain x s1 where "gc_step a b sp acc s = (Inr x, s1)" "easy s1" using easy_gc_step [OF Cons.prems] by metis
  then show ?case using Cons.IH by simp
qed (simp add: sret_def)

lemma easy_gc:
  assumes "easy s"
  obtains s' where "collect_garbage s = (Inr (), s')" and "easy s'"
proof (cases "gc_barrier (st_index s) (active_node_ids (st_registry s))")
  case None
  then show thesis using that [of "on_metrics gc_ran s"] assms
    by (simp add: collect_garbage_def count_metric_def sret_def smodify_def on_metrics_def easy_def)
next
  case (Some b)
  let ?s = "on_metrics gc_ran s"
  have fields: "st_index ?s = st_index s" "st_registry ?s = st_registry s" by (simp_all add: on_metrics_def)
  obtain x s1 where run: "sfold (gc_step (sw_active_segment (st_writer ?s)) b) (discover_segment_paths (st_disk ?s)) 0 ?s = (Inr x, s1)"
    and s1: "easy s1"
    using easy_gc_loop [of ?s] assms by (metis easy_metrics)
  have "sys_sync_dir (on_metrics g s1) = (Inr (), on_metrics g s1)" for g
    using s1 by (intro calmly_sync_dir) (simp add: easy_def)
  then show thesis
    using that [of "if x \<noteq> 0 then on_metrics (gc_deleted_segments x) s1 else s1"] Some run s1
    by (simp add: collect_garbage_def count_metric_def smodify_def sret_def fields)
qed

section \<open>Commands\<close>

lemma write_checkpoint_succeeds:
  assumes laws: "noraft_laws N" "record_wf N (Checkpoint c)" and ok: "engine_ok N J s" and "roomy s" and easy: "easy s"
    and enc: "encode_record_frame N n (Checkpoint c) = Inr frame"
    and fits: "\<And>p. length (format_checkpoint_index J (set_checkpoint_position n p (st_index s))) \<le> MAX_FILE_LEN"
  obtains idx' s' where "write_checkpoint N J n c s = (Inr idx', s')" and "easy s'" and "st_registry s' = st_registry s"
proof -
  obtain p s1 where s1: "SegmentWriter_append N n (Checkpoint c) s = (Inr p, s1)" "easy s1"
    using easy_append [OF engine_okD(1) [OF ok] assms(4) easy enc] .
  have ok1: "engine_ok N J s1" "st_registry s1 = st_registry s" "st_index s1 = st_index s"
    using engine_append [OF laws ok s1(1)] by (auto simp: grown_def)
  obtain s2 where s2: "SegmentWriter_sync s1 = (Inr (), s2)" "easy s2" using easy_sync [OF s1(2)] .
  have ok2: "st_registry s2 = st_registry s" "st_index s2 = st_index s"
    using engine_sync(3) [OF ok1(1) s2(1)] ok1(2,3) by simp_all
  obtain s3 where s3: "CheckpointIndex_save J (set_checkpoint_position n p (st_index s)) s2 = (Inr (), s3)" "easy s3"
    "io_state.more s3 = io_state.more s2"
    using easy_save(1) [OF s2(2) fits] by metis
  have "write_checkpoint N J n c s = (Inr (set_checkpoint_position n p (st_index s)), s3)"
    by (simp add: write_checkpoint_def sbind_assoc sret_sbind s1(1) s2(1) ok2 s3(1)) (simp add: sret_def)
  then show thesis using that s3(2) engine_more [OF s3(3)] ok2(1) by simp
qed

text \<open>The records can be encoded and the metadata texts can be written.\<close>

primrec command_fits :: "('le, 'lg) noraft \<Rightarrow> 'v nojson \<Rightarrow> engine \<Rightarrow> 'le command \<Rightarrow> bool" where
  "command_fits N J s (CmdCreateNode n meta) \<longleftrightarrow>
     isl (encode_record_frame N n (Checkpoint (initial_checkpoint N))) = False \<and>
     (\<forall>p. length (format_checkpoint_index J (set_checkpoint_position n p (st_index s))) \<le> MAX_FILE_LEN) \<and>
     length (format_node_registry J (bt_insert n \<lparr>re_metadata = meta, re_removed = False\<rparr> (st_registry s))) \<le> MAX_FILE_LEN"
| "command_fits N J s (CmdRemoveNode n) \<longleftrightarrow>
     (\<forall>reg. Registry_remove_node n (st_registry s) = Inr reg \<longrightarrow> length (format_node_registry J reg) \<le> MAX_FILE_LEN) \<and>
     length (format_checkpoint_index J (Index_remove_node n (st_index s))) \<le> MAX_FILE_LEN"
| "command_fits N J s (CmdSaveCurrentTerm n t) \<longleftrightarrow> isl (encode_record_frame N n (CurrentTerm t)) = False"
| "command_fits N J s (CmdSaveVotedFor n v) \<longleftrightarrow> isl (encode_record_frame N n (VotedFor v)) = False"
| "command_fits N J s (CmdAppendEntries n a) \<longleftrightarrow> isl (encode_record_frame N n (Append a)) = False"
| "command_fits N J s (CmdSaveSnapshot n c) \<longleftrightarrow>
     SnapshotCheckpoint_validate N c = Inr () \<and> isl (encode_record_frame N n (Checkpoint c)) = False \<and>
     (\<forall>p. length (format_checkpoint_index J (set_checkpoint_position n p (st_index s))) \<le> MAX_FILE_LEN)"
| "command_fits N J s CmdSync \<longleftrightarrow> True"

lemma save_snapshot_succeeds:
  assumes "noraft_laws N" and "record_wf N (Checkpoint c)" and "engine_ok N J s" and "roomy s" and "easy s"
    and active: "is_active (st_registry s) n" and fits: "command_fits N J s (CmdSaveSnapshot n c)"
  shows "\<exists>s'. save_snapshot N J n c s = (Inr (), s')"
proof -
  obtain frame where enc: "encode_record_frame N n (Checkpoint c) = Inr frame"
    using fits by (cases "encode_record_frame N n (Checkpoint c)") auto
  have small: "length (format_checkpoint_index J (set_checkpoint_position n p (st_index s))) \<le> MAX_FILE_LEN" for p
    using fits by simp
  obtain idx' s1 where s1: "write_checkpoint N J n c s = (Inr idx', s1)" "easy s1"
    using write_checkpoint_succeeds [OF assms(1-5) enc small] .
  let ?s2 = "on_metrics (checkpoint_index_changed (of_nat (length idx'))) (s1\<lparr>st_index := idx'\<rparr>)"
  have "easy ?s2" using s1(2) by (simp add: easy_def)
  then obtain s3 where "collect_garbage ?s2 = (Inr (), s3)" by (rule easy_gc)
  then have "save_snapshot N J n c s = (Inr (), on_metrics snapshot_checkpoint_saved s3)"
    using fits by (simp add: save_snapshot_split ensure_active [OF active] s1(1) set_index_def refresh_metrics count_metric_def smodify_def)
  then show ?thesis ..
qed

lemma create_node_succeeds:
  assumes "noraft_laws N" and "engine_ok N J s" and "roomy s" and "easy s"
    and free: "bt_get (st_registry s) n = None" and fits: "command_fits N J s (CmdCreateNode n meta)"
  shows "\<exists>s'. create_node N J n meta s = (Inr (), s')"
proof -
  let ?reg = "bt_insert n \<lparr>re_metadata = meta, re_removed = False\<rparr> (st_registry s)"
  obtain frame where enc: "encode_record_frame N n (Checkpoint (initial_checkpoint N)) = Inr frame"
    using fits by (cases "encode_record_frame N n (Checkpoint (initial_checkpoint N))") auto
  have small: "length (format_checkpoint_index J (set_checkpoint_position n p (st_index s))) \<le> MAX_FILE_LEN" for p
    using fits by simp
  obtain idx' s1 where s1: "write_checkpoint N J n (initial_checkpoint N) s = (Inr idx', s1)" "easy s1"
    using write_checkpoint_succeeds [OF assms(1) initial_checkpoint_wf [OF assms(1)] assms(2-4) enc small] .
  obtain s2 where "NodeRegistry_save J ?reg s1 = (Inr (), s2)" using easy_save(2) [OF s1(2), of J ?reg] fits by auto
  then have "\<exists>s'. create_node N J n meta s = (Inr (), s')"
    by (simp add: create_node_split Registry_create_node_def free s1(1) set_index_def set_registry_def refresh_metrics
        count_metric_def smodify_def)
  then show ?thesis .
qed

lemma remove_node_succeeds:
  assumes "engine_ok N J s" and "easy s" and active: "is_active (st_registry s) n" and fits: "command_fits N J s (CmdRemoveNode n)"
  shows "\<exists>s'. remove_node J n s = (Inr (), s')"
proof -
  obtain reg where reg: "Registry_remove_node n (st_registry s) = Inr reg"
    using active by (auto simp: is_active_def Registry_remove_node_def split: option.splits)
  obtain s1 where s1: "NodeRegistry_save J reg s = (Inr (), s1)" "easy s1" "io_state.more s1 = io_state.more s"
    using easy_save(2) [OF assms(2), of J reg] fits reg by auto
  let ?idx = "Index_remove_node n (st_index s)" and ?s2 = "s1\<lparr>st_registry := reg\<rparr>"
  have easy2: "easy ?s2" and idx: "st_index ?s2 = st_index s" using s1(2) engine_more [OF s1(3)] by (simp_all add: easy_def)
  obtain s3 where s3: "CheckpointIndex_save J ?idx ?s2 = (Inr (), s3)" "easy s3"
    using easy_save(1) [OF easy2, of J ?idx] fits by auto
  have "easy (s3\<lparr>st_index := ?idx\<rparr>)" using s3(2) by (simp add: easy_def)
  then obtain s4 where "collect_garbage (s3\<lparr>st_index := ?idx\<rparr>) = (Inr (), s4)" by (rule easy_gc)
  then show ?thesis
    using engine_more [OF s1(3)]
    by (simp add: remove_node_def ensure_active [OF active] reg s1(1) s3(1) set_index_def set_registry_def refresh_metrics
        count_metric_def smodify_def Let_def)
qed

lemma command_succeeds:
  assumes "noraft_laws N" and "command_wf N J cmd" and ok: "engine_ok N J s" and room: "roomy s" and easy: "easy s"
    and allowed: "command_allowed (st_registry s) cmd" and fits: "command_fits N J s cmd"
  shows "\<exists>s'. run_command N J cmd s = (Inr (), s')"
proof -
  have saving: "\<exists>s'. save_record N n r op s = (Inr (), s')"
    if active: "is_active (st_registry s) n" and enc: "isl (encode_record_frame N n r) = False" for n r op
  proof -
    obtain frame where "encode_record_frame N n r = Inr frame" using enc by (cases "encode_record_frame N n r") auto
    from save_record_succeeds [OF ok active room this, of op] show ?thesis by metis
  qed
  show ?thesis
  proof (cases cmd)
    case (CmdCreateNode n meta)
    then show ?thesis using create_node_succeeds [OF assms(1) ok room easy] allowed fits by simp
  next
    case (CmdRemoveNode n)
    then show ?thesis using remove_node_succeeds [OF ok easy] allowed fits by simp
  next
    case (CmdSaveSnapshot n c)
    then show ?thesis using save_snapshot_succeeds [OF assms(1) _ ok room easy] assms(2) allowed fits by simp
  next
    case CmdSync
    have "d_faults (st_disk s) = []" using easy by (simp add: easy_def)
    then show ?thesis using CmdSync sync_succeeds by (metis run_command.simps(7))
  qed (use saving allowed fits in \<open>simp_all add: save_current_term_def save_voted_for_def append_entries_def\<close>)
qed

end
