(* ===== verification/Examples.thy ===== *)
theory Examples
  imports Components PowerLoss Progress
begin

text \<open>
  Concrete runs for instances of the theorems on engines and on the system: a directory that does
  not exist yet and the engine that opening it returns, the small engine of \<^verbatim>\<open>Liveness\<close> with a system
  call that fails, and its directory after it was closed.
\<close>

definition fresh_disk :: Disk where
  "fresh_disk = \<lparr>d_dir = Missing, d_files = [], d_locked = False, d_faults = []\<rparr>"

lemma fresh_sel [simp]: "d_dir fresh_disk = Missing" "d_faults fresh_disk = []" "\<not> d_locked fresh_disk"
  by (simp_all add: fresh_disk_def)

lemma fresh_at_rest: "at_rest list_noraft list_nojson fresh_disk empty_view"
  by (simp add: at_rest_def)

lemma fresh_plain: "plain fresh_disk"
  by (simp add: plain_def disk_get_def fresh_disk_def)

lemma fresh_open:
  obtains s where "with_max_segment_len list_noraft list_nojson 1000 fresh_disk = (Inr s, st_disk s)"
proof -
  have "(1000 :: u64) \<noteq> 0" by simp
  from with_max_segment_len_succeeds [OF list_json_laws fresh_at_rest fresh_sel(3,2) fresh_plain this]
  show thesis using that by blast
qed

text \<open>A failure at the next system call, of which three bytes still reach the file.\<close>

definition faulty_engine :: engine where
  "faulty_engine = demo_engine\<lparr>st_disk := demo_disk\<lparr>d_faults := [Some 3]\<rparr>\<rparr>"

lemma faulty_sel [simp]: "st_registry faulty_engine = demo_registry"
  by (simp add: faulty_engine_def)

lemma faulty_engine_ok: "engine_ok list_noraft list_nojson faulty_engine"
proof -
  have "touch {WRITE_LOCK_FILE_NAME} (st_disk demo_engine) (demo_disk\<lparr>d_faults := [Some 3]\<rparr>)"
    by (simp add: touch_def)
  from engine_ok_lock_file(1) [OF demo_engine_ok this] show ?thesis by (simp only: faulty_engine_def)
qed

lemma demo_closed_rest: "at_rest list_noraft list_nojson (close_engine demo_engine) (engine_view list_noraft demo_engine)"
  using stands_for_lock [OF engine_stands [OF demo_engine_ok]] by (simp add: at_rest_def close_engine_def release_lock_def)

lemma demo_closed: "d_faults (close_engine demo_engine) = []" "\<not> d_locked (close_engine demo_engine)" "plain (close_engine demo_engine)"
  using demo_roomy by (simp_all add: close_engine_def release_lock_def roomy_def plain_def disk_get_def)

lemma demo_live: "live list_noraft demo_disk n = []"
  by (simp add: live_def history_def demo_records)

lemma demo_load: "fst (Engine_load list_noraft 1 demo_engine) = Inr (NodeState_default list_noraft)"
  using Engine_load_live(1) [OF demo_engine_ok, of 1] by (simp add: demo_live replay_of_def)

lemma demo_save:
  obtains s' where "save_record list_noraft 1 (CurrentTerm t) op demo_engine = (Inr (), s')" and "d_faults (st_disk s') = []"
proof -
  obtain frame where enc: "encode_record_frame list_noraft 1 (CurrentTerm t) = Inr frame" using demo_encodes by blast
  have "is_active (st_registry demo_engine) 1" by simp
  then show thesis using save_record_succeeds [OF demo_engine_ok _ demo_roomy enc, of op] that by metis
qed

lemma bt_get_demo: "bt_get demo_registry 2 = Some \<lparr>re_metadata = NodeMetadata_default, re_removed = True\<rparr>"
  by (simp add: demo_registry_def)

lemma plain_term [simp]: "plain_record N (CurrentTerm t)"
  by (simp add: plain_record_def)

lemma demo_sound: "sound list_nojson (Up demo_engine)"
proof -
  have meta: "synced demo_disk NODE_REGISTRY_FILE_NAME" "synced demo_disk CHECKPOINT_INDEX_FILE_NAME"
    using meta_distinct(3,7,9) [THEN not_sym]
    by (auto simp: synced_def file_at_def disk_get_def demo_disk_def demo_files_def)
  have "synced demo_disk (SegmentName_file_name n)" if "n \<noteq> 0" for n
    using demo_seg [of n] that by (auto simp: synced_def seg_def content_at_def)
  then have "firm 0 demo_disk" using meta by (simp add: firm_def is_top_def demo_seg)
  moreover have "stored list_nojson demo_disk demo_registry []"
    using demo_storage_ok demo_ok by (simp add: stored_def storage_ok_def)
  ultimately show ?thesis by (auto simp: index_durable_def)
qed

section \<open>Commands on the small engine\<close>

lemma show_nat_length: "n < 10 ^ k \<Longrightarrow> 0 < k \<Longrightarrow> length (show_nat n) \<le> k"
proof (induction k arbitrary: n)
  case (Suc k)
  then show ?case
  proof (cases "n < 10")
    case False
    then have "0 < k" using Suc.prems by (cases k) auto
    moreover have "n div 10 < 10 ^ k" using Suc.prems(1) by auto
    ultimately have "length (show_nat (n div 10)) \<le> k" using Suc.IH by blast
    then show ?thesis using False by (subst show_nat.simps) simp
  qed (subst show_nat.simps, simp)
qed simp

lemma show_word_length: "length (show_nat (unat (w :: u64))) \<le> 20"
proof (rule show_nat_length)
  have "(2 :: nat) ^ 64 < 10 ^ 20" by simp
  then show "unat w < 10 ^ 20" using u64_bound [of w] by linarith
qed simp

lemma demo_index_text: "length (format_checkpoint_index list_nojson [(n, p)]) \<le> MAX_FILE_LEN"
proof -
  have "length (SegmentName_file_name (rp_segment p)) \<le> 40"
    using show_word_length [of "rp_segment p"] by (simp add: SegmentName_file_name_def SEGMENT_FILE_SUFFIX_def)
  then show ?thesis
    using show_word_length [of n]
    by (cases p) (simp add: format_checkpoint_index_def list_nojson_def checkpoint_index_doc_def checkpoint_node_doc_def
      node_key_def show_text_def show_unary_def show_bits_def MAX_FILE_LEN_def del: upt.simps)
qed

lemma demo_easy: "easy demo_engine"
  using demo_regular by (simp add: easy_def)

lemma demo_run:
  assumes "command_wf list_noraft list_nojson cmd" and "command_allowed demo_registry cmd"
    and "command_fits list_noraft list_nojson demo_engine cmd"
  obtains s' where "run_command list_noraft list_nojson cmd demo_engine = (Inr (), s')"
  using command_succeeds [OF list_noraft_laws assms(1) demo_engine_ok demo_roomy demo_easy] assms(2,3) that by auto

lemma demo_registry_text:
  "length (format_node_registry list_nojson (bt_insert 3 \<lparr>re_metadata = NodeMetadata_default, re_removed = False\<rparr> demo_registry)) \<le> MAX_FILE_LEN"
  "Registry_remove_node 1 demo_registry = Inr reg \<Longrightarrow> length (format_node_registry list_nojson reg) \<le> MAX_FILE_LEN"
  by (auto simp: format_node_registry_def list_nojson_def registry_doc_def registry_entry_doc_def demo_registry_def
      Registry_remove_node_def node_key_def show_nat.simps show_text_def show_unary_def show_bits_def NodeMetadata_default_def
      NODE_REGISTRY_VERSION_def MAX_FILE_LEN_def simp del: upt.simps)

lemma demo_encodes_checkpoint:
  "isl (encode_record_frame list_noraft n (Checkpoint (initial_checkpoint list_noraft))) = False"
  using demo_checkpoint_encodes [of n] by auto

lemma demo_initial_valid: "SnapshotCheckpoint_validate list_noraft (initial_checkpoint list_noraft) = Inr ()"
  by (simp add: initial_checkpoint_def SnapshotCheckpoint_validate_def LogAppend_validate_def rep_mk_entries)

lemma demo_snapshot:
  obtains s' where "save_snapshot list_noraft list_nojson 1 (initial_checkpoint list_noraft) demo_engine = (Inr (), s')"
  using demo_run [of "CmdSaveSnapshot 1 (initial_checkpoint list_noraft)"] initial_checkpoint_wf [OF list_noraft_laws]
    demo_encodes_checkpoint demo_initial_valid demo_index_text by (auto simp: set_checkpoint_position_def)

lemma demo_create:
  obtains s' where "create_node list_noraft list_nojson 3 NodeMetadata_default demo_engine = (Inr (), s')"
proof -
  have "raw_ok list_nojson (nm_metadata NodeMetadata_default)"
    using demo_registry_ok by (auto simp: registry_ok_def demo_registry_def entry_ok_def)
  then show thesis
    using that demo_run [of "CmdCreateNode 3 NodeMetadata_default"] demo_encodes_checkpoint demo_registry_text(1) demo_index_text
    by (auto simp: set_checkpoint_position_def)
qed

lemma demo_remove:
  obtains s' where "remove_node list_nojson 1 demo_engine = (Inr (), s')"
proof -
  have "length (format_checkpoint_index list_nojson (Index_remove_node 1 [])) \<le> MAX_FILE_LEN"
    by (simp add: Index_remove_node_def bt_remove_def format_checkpoint_index_def list_nojson_def checkpoint_index_doc_def
      show_text_def show_unary_def show_bits_def MAX_FILE_LEN_def del: upt.simps)
  then show thesis
    using that demo_run [of "CmdRemoveNode 1"] demo_registry_text(2) by auto
qed

text \<open>The checkpoint of the corner case can be written.\<close>

lemma sample_checkpoint_wf: "record_wf list_noraft (Checkpoint (sample_checkpoint p))"
  by (simp add: checkpoint_wf_def append_wf_def entries_wf_def config_wf_def sample_checkpoint_def ClusterConfig_new_def
      rep_mk_entries)

lemma demo_sample_snapshot:
  obtains s' where "save_snapshot list_noraft list_nojson 1 (sample_checkpoint p) demo_engine = (Inr (), s')"
proof -
  have "isl (encode_record_frame list_noraft 1 (Checkpoint (sample_checkpoint p))) = False"
    by (simp add: sample_checkpoint_def encode_record_frame_def encode_record_body_def encode_node_id_def
      encode_snapshot_checkpoint_def SnapshotCheckpoint_validate_def LogAppend_validate_def encode_optional_node_id_def
      encode_snapshot_def encode_log_position_def encode_log_index_def encode_cluster_config_def encode_node_id_set_def
      encode_count_def encode_log_append_def encode_log_entries_def ClusterConfig_new_def
      encode_term_def put_u64_def put_u8_def put_u32_def put_bytes_def put_slice_def check_append_len_def Encoder_new_def
      Encoder_finish_def checked_add_def u32_try_from_def MAX_RECORD_BODY_LEN_def MAX_COUNT_ITEMS_def rep_mk_entries)
  then show thesis
    using that demo_run [of "CmdSaveSnapshot 1 (sample_checkpoint p)"] sample_checkpoint_wf sample_checkpoint_valid demo_index_text
    by (auto simp: set_checkpoint_position_def)
qed

text \<open>A history of calls.\<close>

lemma demo_calls:
  obtains s' x where "calls (system_event list_noraft list_nojson) (Up demo_engine)
      [Performed (CmdSaveCurrentTerm 1 5), Rejected (CmdRemoveNode 2) node_removed_error, Loaded 1 x, Closed] s'"
proof -
  let ?c = "CmdRemoveNode 2"
  obtain s1 where s1: "save_record list_noraft 1 (CurrentTerm 5) OpSaveCurrentTerm demo_engine = (Inr (), s1)" using demo_save .
  then have first: "system_event list_noraft list_nojson (Up demo_engine) (Performed (CmdSaveCurrentTerm 1 5)) (Up s1)"
    by (intro system_event.performed) (simp_all add: save_current_term_def)
  have wf: "command_wf list_noraft list_nojson (CmdSaveCurrentTerm 1 5)" by simp
  have "represents list_noraft list_nojson (Up demo_engine) (engine_view list_noraft demo_engine)" by (simp add: demo_engine_ok)
  from command_event(1) [OF list_noraft_laws this wf, of "Inr ()" s1] s1
  have "st_registry s1 = demo_registry" by (auto simp: save_current_term_def view_append_def engine_view_def view_of_def)
  then have refused: "\<not> command_allowed (st_registry s1) ?c" "command_error (st_registry s1) ?c = node_removed_error"
    using bt_get_demo by (simp_all add: is_active_def access_error_def is_removed_def)
  obtain r s2 where s2: "run_command list_noraft list_nojson ?c s1 = (r, s2)" by fastforce
  have "r = Inl node_removed_error" using command_refused [OF refused(1), of list_noraft list_nojson] s2 refused(2) by simp
  then have second: "system_event list_noraft list_nojson (Up s1) (Rejected ?c node_removed_error) (Up s2)"
    using s2 command_disallowed(2) [OF refused(1) s2] by (intro system_event.rejected) simp_all
  obtain x s3 where "Engine_load list_noraft 1 s2 = (x, s3)" by fastforce
  then have third: "system_event list_noraft list_nojson (Up s2) (Loaded 1 x) (Up s3)" by (rule system_event.loaded)
  show thesis
    by (rule that, rule calls.more, rule first, rule calls.more, rule second, rule calls.more, rule third,
      rule calls.more, rule system_event.closed, rule calls.none)
qed

end
