(* ===== verification/Fuzz.thy ===== *)
theory Fuzz
  imports ReadOnly Firm Crc32c
begin

text \<open>
  The fuzz target \<^verbatim>\<open>fuzz/fuzz_targets/fuzz_segment.rs\<close>: its own checksum, the segment files that it
  builds, and what it does with them in a temporary directory. The files are what the library's writer
  would have written, so the target reaches the decoders behind the checksum. Each run leaves no
  directory behind, whatever the input, unless a system call fails.
\<close>

section \<open>Segments\<close>

fun fuzz_crc_bits :: "nat \<Rightarrow> u32 \<Rightarrow> u32" where
  "fuzz_crc_bits 0 crc = crc"
| "fuzz_crc_bits (Suc n) crc =
     fuzz_crc_bits n (if crc AND 1 = 0 then drop_bit 1 crc else drop_bit 1 crc XOR 0x82F63B78)"

definition fuzz_crc32c :: "bytes \<Rightarrow> u32" where
  "fuzz_crc32c data = NOT (fold (\<lambda>byte crc. fuzz_crc_bits 8 (crc XOR ucast byte)) data (NOT 0))"

definition segment_file_with_record :: "bytes \<Rightarrow> bytes option" where
  "segment_file_with_record body =
     map_option (\<lambda>body_len :: u32.
       [0x53, 0x4B, 0x52, 0x31] @ to_le_bytes 4 body_len @ to_le_bytes 4 (fuzz_crc32c body) @ body) (u32_try_from (length body))"

lemma fuzz_crc_eq: "fuzz_crc32c data = crc32c data"
proof -
  have "fuzz_crc_bits n crc = crc_bits n crc" for n crc
    by (induction n arbitrary: crc) (simp_all add: crc_bit_def POLYNOMIAL_def)
  then have "(\<lambda>byte crc. fuzz_crc_bits 8 (crc XOR ucast byte)) = bitwise_byte"
    by (simp add: bitwise_byte_def fun_eq_iff)
  moreover have "NOT 0 = (0xFFFFFFFF :: u32)" by simp
  ultimately show ?thesis by (simp only: fuzz_crc32c_def crc32c_fold)
qed

text \<open>A segment of the fuzz target is the header and one frame, which every reader accepts.\<close>

lemma fuzz_segment_frame:
  assumes "segment_file_with_record body = Some segment"
  shows "segment = SEGMENT_FORMAT_MAGIC @ frame_of_body body"
    and "length body \<le> 2 ^ 30 \<Longrightarrow> clean segment \<and> seg_bodies segment = [body]"
proof -
  show eq: "segment = SEGMENT_FORMAT_MAGIC @ frame_of_body body"
    using assms by (auto simp: segment_file_with_record_def fuzz_crc_eq frame_of_body_def SEGMENT_FORMAT_MAGIC_def u32_try_from_def
        split: if_splits)
  show "clean segment \<and> seg_bodies segment = [body]" if "length body \<le> 2 ^ 30"
    using clean_append [OF clean_MAGIC(1) that] by (simp add: eq)
qed

section \<open>The temporary directory\<close>

text \<open>
  The directory is the one of the path that \<^verbatim>\<open>TempDir::new\<close> chooses. \<^verbatim>\<open>remove_dir_all\<close> may fail after it
  removed some entries. The computations have the directory alone as their state.
\<close>

definition sys_remove_dir_all :: "('x io_state_scheme, unit) io" where
  "sys_remove_dir_all =
     sbind next_fault (\<lambda>x. sbind (sget (\<lambda>s. d_dir (st_disk s))) (\<lambda>status. case status of
       Missing \<Rightarrow> serr not_found
     | NotDirectory \<Rightarrow> serr os_error
     | Directory \<Rightarrow> (case x of
         Some k \<Rightarrow> sbind (smodify (on_disk (\<lambda>d. d\<lparr>d_files := drop k (d_files d)\<rparr>))) (\<lambda>_. serr os_error)
       | None \<Rightarrow> smodify (on_disk (\<lambda>d. d\<lparr>d_dir := Missing, d_files := []\<rparr>)))))"

definition sys_create_dir :: "('x io_state_scheme, unit) io" where
  "sys_create_dir = syscall (sbind (sget (\<lambda>s. d_dir (st_disk s))) (\<lambda>status.
     if status = Missing then smodify (on_disk (\<lambda>d. d\<lparr>d_dir := Directory, d_files := []\<rparr>))
     else serr (IoError AlreadyExists ''File exists'')))"

definition fs_write :: "string \<Rightarrow> bytes \<Rightarrow> ('x io_state_scheme, unit) io" where
  "fs_write path bs = sbind (sys_create_truncate path) (\<lambda>_. sys_write_all path bs)"

definition run_on :: "(io_state, 'a) io \<Rightarrow> Disk \<Rightarrow> 'a io_result \<times> Disk" where
  "run_on m d = map_prod id st_disk (m \<lparr>st_disk = d, st_metrics = StorageMetrics_default\<rparr>)"

text \<open>\<^verbatim>\<open>TempDir::new\<close>, an error for \<^verbatim>\<open>None\<close>, and \<^verbatim>\<open>drop\<close>, which ignores errors.\<close>

definition TempDir_new :: "('x io_state_scheme, unit) io" where
  "TempDir_new s =
     (case sys_remove_dir_all s of
        (Inr _, s) \<Rightarrow> sys_create_dir s
      | (Inl e, s) \<Rightarrow> if kind_of e = NotFound then sys_create_dir s else (Inl e, s))"

definition TempDir_drop :: "Disk \<Rightarrow> Disk" where
  "TempDir_drop d = snd (run_on sys_remove_dir_all d)"

section \<open>The target\<close>

definition SEGMENT_FILE_NAME :: string where
  "SEGMENT_FILE_NAME = ''append-0.segment''"

definition NODE_REGISTRY :: bytes where
  \<open>NODE_REGISTRY = text_bytes ''{"version":1,"nodes":{"1":{"startup":true,"metadata":{},"removed":false}}}''\<close>

definition exercise_segment :: "('le, 'lg) noraft \<Rightarrow> 'v nojson \<Rightarrow> bytes \<Rightarrow> Disk \<Rightarrow> Disk" where
  "exercise_segment N J segment d =
     (case run_on TempDir_new d of
        (Inl _, d) \<Rightarrow> d
      | (Inr _, d) \<Rightarrow> TempDir_drop
          (case run_on (fs_write NODE_REGISTRY_FILE_NAME NODE_REGISTRY) d of
             (Inl _, d) \<Rightarrow> d
           | (Inr _, d) \<Rightarrow>
               (case run_on (fs_write SEGMENT_FILE_NAME segment) d of
                  (Inl _, d) \<Rightarrow> d
                | (Inr _, d) \<Rightarrow>
                    (case StorageEngine_new N J d of
                       (Inl _, d) \<Rightarrow> d
                     | (Inr engine, _) \<Rightarrow> close_engine (snd (Engine_load_all N engine))))))"

definition fuzz_target :: "('le, 'lg) noraft \<Rightarrow> 'v nojson \<Rightarrow> bytes \<Rightarrow> Disk \<Rightarrow> Disk" where
  "fuzz_target N J data d =
     (let d = exercise_segment N J data d;
          body = to_le_bytes 8 (1 :: u64) @ data;
          d = (case segment_file_with_record body of Some segment \<Rightarrow> exercise_segment N J segment d | None \<Rightarrow> d)
      in case segment_file_with_record data of Some segment \<Rightarrow> exercise_segment N J segment d | None \<Rightarrow> d)"

section \<open>Nothing is left behind\<close>

text \<open>A directory stays one, and no failure of a system call appears.\<close>

definition tame :: "Disk \<Rightarrow> Disk \<Rightarrow> bool" where
  "tame d d' \<longleftrightarrow> (d_dir d = Directory \<longrightarrow> d_dir d' = Directory) \<and> (d_faults d = [] \<longrightarrow> d_faults d' = [])"

interpretation tame: file_preorder tame
  by unfold_locales (auto simp: tame_def)

lemma tame_put: "tame d (disk_put name e d)"
  by (simp add: tame_def)

lemma tame_content: "tame d (set_content name bs d)" "tame d (append_content name bs d)" "tame d (mark_durable name d)"
proof -
  show content: "tame d (set_content name bs d)" for bs
    by (auto simp: set_content_def tame.refl tame_put split: option.split)
  show "tame d (append_content name bs d)" "tame d (mark_durable name d)"
    by (auto simp: append_content_def mark_durable_def tame.refl tame_put content split: option.split)
qed

interpretation tidy: replay_preorder tame True
  by unfold_locales (auto simp: tame.faults tame_content)

lemma tame_sys:
  "obeys tame (sys_create_truncate name)" "obeys tame (sys_open_create name)" "obeys tame (sys_write_all name bs)"
  unfolding sys_create_truncate_def sys_open_create_def sys_write_all_def Let_def
  by (auto intro!: tame.bind tame.pure tame.update tame.conditional tame.call tame.next_fault tame_put tame_content
      split: option.split dirent.split)

lemma tame_fs_write: "obeys tame (fs_write path bs)"
  unfolding fs_write_def by (intro tame.bind tame_sys)

lemma tame_open: "obeys tame (SegmentWriter_open a max_len)" "obeys tame acquire_write_lock" "obeys tame create_dir_all_synced"
proof -
  show "obeys tame (SegmentWriter_open a max_len)"
    unfolding SegmentWriter_open_def open_active_segment_file_def Let_def
    by (intro tame.bind tame.pure tame.conditional tame_sys tame.fields)
  show "obeys tame acquire_write_lock"
    unfolding acquire_write_lock_def sys_try_lock_def
    by (intro tame.bind tame.pure tame.conditional tame_sys tame.call tame.update) (simp add: tame_def)
  show "obeys tame create_dir_all_synced"
    unfolding create_dir_all_synced_def
    by (auto intro!: tame.bind tame.pure tame.call tame.update tame.fields simp: tame_def split: dir_status.split)
qed

lemma tame_open_locked: "obeys tame (open_locked N J m)"
  unfolding open_locked_def by (intro tame.bind tame.pure tidy.recovery tame_open TrueI)

lemma tame_release: "tame d d' \<Longrightarrow> tame d (release_lock d')"
  by (simp add: tame_def release_lock_def)

lemma tame_new:
  assumes "StorageEngine_new N J d = (r, d')"
  shows "tame d d'" and "r = Inr s \<Longrightarrow> st_disk s = d'"
proof -
  let ?s = "\<lparr>st_disk = d, st_metrics = StorageMetrics_default\<rparr> :: io_state"
  have start: "obeys tame (sbind create_dir_all_synced (\<lambda>_. acquire_write_lock))"
    by (intro tame.bind tame_open)
  obtain r1 s1 where 1: "sbind create_dir_all_synced (\<lambda>_. acquire_write_lock) ?s = (r1, s1)" by fastforce
  obtain r2 s2 where 2: "open_locked N J DEFAULT_MAX_SEGMENT_LEN s1 = (r2, s2)" by fastforce
  have first: "tame d (st_disk s1)" using obeysD [OF start 1] by simp
  note second = tame.trans [OF first obeysD [OF tame_open_locked 2]]
  note run = assms [unfolded StorageEngine_new_def with_max_segment_len_def Let_def 1]
  show "tame d d'"
    using run 2 first second by (auto simp: tame_release split: if_splits sum.splits intro: tame.refl)
  show "st_disk s = d'" if "r = Inr s"
    using run 2 that by (auto split: if_splits sum.splits)
qed

lemma tame_load_all: "obeys tame (Engine_load_all N)"
  unfolding Engine_load_all_def by (intro tame.bind tame.pure tame.conditional tidy.replay)

lemma tame_run_on: "obeys tame m \<Longrightarrow> run_on m d = (r, d') \<Longrightarrow> tame d d'"
  by (auto simp: run_on_def map_prod_def obeys_def split: prod.splits
      dest: spec [of _ "\<lparr>st_disk = d, st_metrics = StorageMetrics_default\<rparr>"])

lemma TempDir_drop_Missing: "d_dir d = Directory \<Longrightarrow> d_faults d = [] \<Longrightarrow> d_dir (TempDir_drop d) = Missing \<and> d_faults (TempDir_drop d) = []"
  by (simp add: TempDir_drop_def run_on_def sys_remove_dir_all_def next_fault_def sbind_def sget_def smodify_def on_disk_def)

lemma TempDir_new_Directory:
  assumes "d_dir d \<noteq> NotDirectory" and "d_faults d = []" and "run_on TempDir_new d = (r, d')"
  shows "r = Inr ()" and "d_dir d' = Directory" and "d_faults d' = []"
  using assms
  by (cases "d_dir d"; auto simp: TempDir_new_def run_on_def sys_remove_dir_all_def sys_create_dir_def syscall_def next_fault_def
      sbind_def sget_def smodify_def serr_def on_disk_def not_found_def)+

lemma exercise_segment_cleans:
  assumes "d_dir d \<noteq> NotDirectory" and "d_faults d = []"
  shows "d_dir (exercise_segment N J segment d) = Missing \<and> d_faults (exercise_segment N J segment d) = []"
proof -
  obtain r d1 where 1: "run_on TempDir_new d = (r, d1)" by fastforce
  note new = TempDir_new_Directory [OF assms 1]
  obtain r2 d2 where 2: "run_on (fs_write NODE_REGISTRY_FILE_NAME NODE_REGISTRY) d1 = (r2, d2)" by fastforce
  obtain r3 d3 where 3: "run_on (fs_write SEGMENT_FILE_NAME segment) d2 = (r3, d3)" by fastforce
  obtain r4 d4 where 4: "StorageEngine_new N J d3 = (r4, d4)" by fastforce
  note tame2 = tame_run_on [OF tame_fs_write 2]
  note tame3 = tame.trans [OF tame2 tame_run_on [OF tame_fs_write 3]]
  note tame4 = tame.trans [OF tame3 tame_new(1) [OF 4]]
  have closed: "tame d1 (close_engine (snd (Engine_load_all N engine)))" if "r4 = Inr engine" for engine
  proof -
    have "tame (st_disk engine) (st_disk (snd (Engine_load_all N engine)))"
      using tame_load_all [of N] by (simp add: obeys_def)
    then show ?thesis
      unfolding close_engine_def using tame.trans [OF tame4] tame_new(2) [OF 4 that] by (auto intro: tame_release)
  qed
  have "tame d1 e \<Longrightarrow> d_dir (TempDir_drop e) = Missing \<and> d_faults (TempDir_drop e) = []" for e
    using new(2,3) by (intro TempDir_drop_Missing) (simp_all add: tame_def)
  then show ?thesis
    unfolding exercise_segment_def using 1 2 3 4 new(1) tame2 tame3 tame4 closed by (auto split: sum.split)
qed

lemma fuzz_target_cleans:
  assumes "d_dir d \<noteq> NotDirectory" and "d_faults d = []"
  shows "d_dir (fuzz_target N J data d) = Missing" and "d_faults (fuzz_target N J data d) = []"
proof -
  have "d_dir (exercise_segment N J segment e) = Missing" "d_faults (exercise_segment N J segment e) = []"
    if "e = d \<or> d_dir e = Missing \<and> d_faults e = []" for segment e
    using exercise_segment_cleans [of e N J segment] assms that by auto
  then show "d_dir (fuzz_target N J data d) = Missing" "d_faults (fuzz_target N J data d) = []"
    by (simp_all add: fuzz_target_def Let_def split: option.split)
qed

end
