(* ===== verification/Spec2Isabelle.thy ===== *)
theory Spec2Isabelle
  imports Bytes Crc32c MetricsJson Examples Fuzz
begin

text \<open>
  A verification of \<^verbatim>\<open>sukari\<close>, a storage engine for the state of Raft nodes: many nodes share one
  directory with append-only segment files, a registry of nodes and an index of checkpoints.

  \<^bold>\<open>The program.\<close> \<^verbatim>\<open>StorageEngine\<close> (\<^verbatim>\<open>src/src/storage.rs\<close>) owns a directory under a lock file. A node is
  created, its term, vote, log entries and snapshots are appended as records to the active segment
  (\<^verbatim>\<open>src/src/segment.rs\<close>, frames by \<^verbatim>\<open>src/src/codec.rs\<close> with the CRC of \<^verbatim>\<open>src/src/crc32c.rs\<close>), and it may be
  removed for good. \<^verbatim>\<open>nodes.json\<close> (\<^verbatim>\<open>src/src/registry.rs\<close>) lists the nodes, \<^verbatim>\<open>checkpoints.json\<close> the position
  of the newest checkpoint record of each; both are replaced atomically. Opening repairs a torn tail
  and replays nothing; loading replays the records of a node from its checkpoint. Garbage collection
  deletes the segments before the oldest checkpoint that an active node needs. Read-only functions do
  the same reading without lock and without repair. Counters of all this are in \<^verbatim>\<open>src/src/metrics.rs\<close>.

  \<^bold>\<open>The model, by theory.\<close> Definitions keep the names of the code, prefixed by their type where it
  is needed.
  \<^item> \<^verbatim>\<open>Prelude\<close>: words, I/O errors, the error monad, computations with a state that survives errors
    (\<^verbatim>\<open>sbind\<close> and its companions), \<^verbatim>\<open>BTreeMap\<close> and \<^verbatim>\<open>BTreeSet\<close> as sorted lists.
  \<^item> \<^verbatim>\<open>Bytes\<close>: \<^verbatim>\<open>bytes.rs\<close>, its shared buffers as cells of a store; a handle always reads the bytes it was
    made from, so the other theories have byte lists.
  \<^item> \<^verbatim>\<open>Crc32c\<close>: \<^verbatim>\<open>crc32c.rs\<close> with its tables. \<^verbatim>\<open>Metrics\<close>, \<^verbatim>\<open>MetricsJson\<close>: \<^verbatim>\<open>metrics.rs\<close>, its counters and its JSON text.
  \<^item> \<^verbatim>\<open>Noraft\<close>, \<^verbatim>\<open>Nojson\<close>: the two crates that the code depends on, as records of operations with named
    laws (\<^verbatim>\<open>noraft_laws\<close>, \<^verbatim>\<open>json_laws\<close>), which state their documented behaviour, and one implementation
    each that satisfies the laws. \<^verbatim>\<open>Nojson\<close> also has \<^verbatim>\<open>read_text_file\<close> and \<^verbatim>\<open>replace_file\<close>.
  \<^item> \<^verbatim>\<open>NodeState\<close>: records, their validation and their application (\<^verbatim>\<open>storage.rs\<close>, from \<^verbatim>\<open>CommandPayload\<close> to
    \<^verbatim>\<open>NodeRecord\<close>). \<^verbatim>\<open>Codec\<close>: all of \<^verbatim>\<open>codec.rs\<close>.
  \<^item> \<^verbatim>\<open>Disk\<close>: the directory and the system calls, see below. \<^verbatim>\<open>Segment\<close>: \<^verbatim>\<open>segment.rs\<close>.
    \<^verbatim>\<open>Registry\<close>: \<^verbatim>\<open>registry.rs\<close>. \<^verbatim>\<open>CheckpointIndex\<close>, \<^verbatim>\<open>Replay\<close>, \<^verbatim>\<open>Engine\<close>: the remaining parts of
    \<^verbatim>\<open>storage.rs\<close>. The record \<^verbatim>\<open>engine\<close> is the directory, the counters, the writer, the registry and the
    index; an operation is a function from it to a result and the state that was reached, also in
    case of an error.
  \<^item> \<^verbatim>\<open>System\<close>: the commands of an engine as a datatype, and the step relation \<^verbatim>\<open>system_step\<close> of a
    directory over its life: opening (also while an engine is open), commands that succeed, are
    rejected or fail, loads, and the end of the engine at any time.

  \<^bold>\<open>The lemmas, by theory.\<close>
  \<^item> \<^verbatim>\<open>Codec_Laws\<close> (locale \<^verbatim>\<open>codec\<close>), \<^verbatim>\<open>Frames\<close>: encoders and decoders invert each other, errors have the right
    kind, the two frame readers agree, torn frames are recognised.
  \<^item> \<^verbatim>\<open>Segment_Laws\<close>, \<^verbatim>\<open>Segment_View\<close>: a segment file is a header, complete records and a tail.
    \<^verbatim>\<open>Meta_Laws\<close> (locale \<^verbatim>\<open>node_map\<close>): the two metadata files load back. \<^verbatim>\<open>Replay_Laws\<close>, \<^verbatim>\<open>Replay_Spec\<close>: every
    replay function equals a fold over the records of the directory, whatever the hints.
  \<^item> \<^verbatim>\<open>Effects\<close> (locale \<^verbatim>\<open>disk_preorder\<close>), \<^verbatim>\<open>Histories\<close>: which files an operation touches, whatever fails, and
    what this does to the records since the last checkpoint of a node (\<^verbatim>\<open>live\<close>).
  \<^item> \<^verbatim>\<open>Storage_Laws\<close>, \<^verbatim>\<open>Engine_Laws\<close>, \<^verbatim>\<open>Engine_Refine\<close>: the invariants \<^verbatim>\<open>storage_ok\<close> of a directory at rest and
    \<^verbatim>\<open>engine_ok\<close> of an open engine; the abstract storage \<^verbatim>\<open>storage_view\<close> (registry and live records); each
    operation is the abstract one when it succeeds, and leaves the old or the new abstract storage
    when it fails (\<^verbatim>\<open>outcome\<close>).
  \<^item> \<^verbatim>\<open>Recovery\<close>, \<^verbatim>\<open>Opening\<close>: the same for opening. \<^verbatim>\<open>System\<close>, \<^verbatim>\<open>Views\<close> (locale \<^verbatim>\<open>node_store\<close>): the effect of each
    command, and what loading returns in terms of the abstract storage. \<^verbatim>\<open>Events\<close>: the system and the
    abstract storage as relations labelled with calls and results (\<^verbatim>\<open>system_event\<close>, \<^verbatim>\<open>view_event\<close>), the
    simulation, and the histories of calls (\<^verbatim>\<open>calls\<close>), one for each execution of \<^verbatim>\<open>system_step\<close>.
  \<^item> \<^verbatim>\<open>Durability\<close>: what \<^verbatim>\<open>sync\<close> makes durable, and that the first \<^verbatim>\<open>sync\<close> of an engine does nothing.
    \<^verbatim>\<open>Firm\<close> (locale \<^verbatim>\<open>file_preorder\<close>), \<^verbatim>\<open>DurableIndex\<close>, \<^verbatim>\<open>Sturdy\<close>: at any time all segments but the last, the
    metadata files and the checkpoints that the index names are on stable storage. \<^verbatim>\<open>PowerLoss\<close>: the step
    relation \<^verbatim>\<open>power_step\<close>, which adds the loss of unsynchronised bytes at the ends of files, and what
    it leaves.
  \<^item> \<^verbatim>\<open>Liveness\<close>, \<^verbatim>\<open>Progress\<close>: operations succeed when no system call fails. \<^verbatim>\<open>ReadOnly\<close> (locale
    \<^verbatim>\<open>replay_preorder\<close>): what replay does to any directory, nothing when it only reads. \<^verbatim>\<open>Components\<close>,
    \<^verbatim>\<open>Examples\<close>: the properties of single components, and concrete runs for the instances. \<^verbatim>\<open>Fuzz\<close>: the
    fuzz target \<^verbatim>\<open>fuzz/fuzz_targets/fuzz_segment.rs\<close>, which leaves no directory behind.
  \<^item> This theory: the properties of the storage as a whole.

  \<^bold>\<open>The operating system.\<close> A directory maps names to regular files or other entries. A file has its
  content and the length of the prefix that was synchronised. Every call that changes the directory, takes the lock or
  synchronises consumes an element of the schedule \<^verbatim>\<open>d_faults\<close>, so a theorem for every state covers every
  pattern of failures; a failing write leaves any prefix of its bytes. Queries and reads do not fail
  on their own; handles stay attached to their names; nobody else changes the directory while an
  engine holds the lock. No file reaches \<open>2\<^sup>6\<^sup>3\<close> bytes, the limit of signed file offsets. A process may
  end at any time: the lock is then free and the files are as they are. When the power is lost, each file
  keeps a beginning of its content with at least the bytes that were synchronised; names, renames and
  truncations take effect at once. The text of an error stands
  for the error; only its kind is compared by the code. As the documentation asks, an engine is not
  used after an error that may have changed it, see the steps \<^verbatim>\<open>rejected\<close> and \<^verbatim>\<open>failed\<close> of \<^verbatim>\<open>system_step\<close>.

  \<^bold>\<open>Bounds.\<close> The loops over segment files and CRC chunks recurse on the remaining bytes, so no fuel is
  used: they are total, and \<^verbatim>\<open>Components\<close> bounds the number of records of a file. Lengths of byte
  strings are natural numbers where the code has \<^verbatim>\<open>usize\<close>; all that is stored or compared as \<^verbatim>\<open>u32\<close> or
  \<^verbatim>\<open>u64\<close> is a word, with the checked conversions of the code.

  \<^bold>\<open>Not modelled.\<close> The accessors \<^verbatim>\<open>dir\<close>, \<^verbatim>\<open>metrics\<close>,
  \<^verbatim>\<open>entries\<close>, \<^verbatim>\<open>command_payloads\<close> and \<^verbatim>\<open>active_segment\<close> (selectors of the records), \<^verbatim>\<open>usize_to_u64\<close> (the embedding of
  lengths into words), the unit tests, the derived order and hash of byte strings, and \<^verbatim>\<open>lib.rs\<close> and \<^verbatim>\<open>docs.rs\<close>
  (declarations and documentation).
  Paths above the directory, permissions, and the durability of directory entries are outside the model. Metadata of nodes has no
  spaces around its JSON value (\<^verbatim>\<open>raw_ok\<close>): whether a text with them is read back as it was is up to \<^verbatim>\<open>nojson\<close>.
  A read-only reader sees one state of the directory: a writer that runs between its system calls is not modelled.
\<close>

section \<open>The storage as a whole\<close>

text \<open>
  C1. Consistency over any life of a directory. Whatever engines were opened on a directory that did
  not exist at first, whatever commands they ran, whatever system calls failed, with whatever part of
  a write left behind, and whenever they stopped: an open engine has the registry of an abstract
  storage that some sequence of allowed commands produces from the empty one, it loads every node as
  that storage says, and \<^verbatim>\<open>load_all\<close> returns exactly the states of the active nodes.
\<close>

theorem reachable_loads:
  fixes N :: "('le, 'lg) noraft" and J :: "'v nojson"
  assumes "noraft_laws N" and "json_laws J" and "(system_step N J)\<^sup>*\<^sup>* (Down d) (Up s)"
    and "d_dir d = Missing" and "\<not> d_locked d"
  shows "\<exists>v. (view_step N J)\<^sup>*\<^sup>* empty_view v \<and> st_registry s = v_registry v \<and>
    (\<forall>n. fst (Engine_load N n s) = view_load N v n) \<and> view_loads N v (fst (Engine_load_all N s))"
proof -
  obtain v where v: "represents N J (Up s) v" "(view_step N J)\<^sup>*\<^sup>* empty_view v"
    using reachable_represents [OF assms] by blast
  then have ok: "engine_ok N J s" "engine_view N s = v" by auto
  have reg: "st_registry s = v_registry v" using ok(2) by (auto simp: engine_view_def)
  have "view_loads N v (fst (Engine_load_all N s))" using Engine_load_all_view [OF ok(1)] ok(2) by simp
  then show ?thesis using v(2) reg Engine_load_view [OF ok(1)] ok(2) by blast
qed

theorem reachable_loads_witness:
  "\<exists>s v. system_step list_noraft list_nojson (Down fresh_disk) (Up s) \<and>
     (view_step list_noraft list_nojson)\<^sup>*\<^sup>* empty_view v \<and> st_registry s = v_registry v \<and>
     fst (Engine_load list_noraft 7 s) = view_load list_noraft v 7"
proof -
  obtain s where "with_max_segment_len list_noraft list_nojson 1000 fresh_disk = (Inr s, st_disk s)" using fresh_open .
  then have step: "system_step list_noraft list_nojson (Down fresh_disk) (Up s)" by (rule system_step.opened)
  from reachable_loads [OF list_noraft_laws list_json_laws r_into_rtranclp [of "system_step list_noraft list_nojson", OF step] fresh_sel(1,3)]
  show ?thesis using step by blast
qed

text \<open>
  C4. Refinement: the calls that a system answers, with their arguments and results, over any number
  of engines, failures and crashes, are answered in the same way by the abstract storage, which is the
  registry with the records since the last checkpoint of each active node. In it, a command that
  succeeds was allowed and has exactly its own effect; one that is not allowed fails with its own
  error and has no effect; one that fails otherwise has no effect or, if the engine ends, its whole
  effect; \<^verbatim>\<open>load\<close> and \<^verbatim>\<open>load_all\<close> return what the storage says; all other calls have no effect. At the
  end the system stands for the state of the abstract storage.
\<close>

theorem system_refines_view:
  fixes N :: "('le, 'lg) noraft" and J :: "'v nojson"
  assumes "noraft_laws N" and "json_laws J" and "represents N J sys v" and "calls (system_event N J) sys evs sys'"
  shows "\<exists>v'. represents N J sys' v' \<and> calls (view_event N J) v evs v'"
  by (rule calls_simulation [where R = "represents N J", OF assms(4,3)]) (rule system_event_view [OF assms(1,2)])

theorem system_refines_view_witness:
  "\<exists>s' x. calls (system_event list_noraft list_nojson) (Up demo_engine)
       [Performed (CmdSaveCurrentTerm 1 5), Rejected (CmdRemoveNode 2) node_removed_error, Loaded 1 x, Closed] s' \<and>
     represents list_noraft list_nojson s' (view_append 1 (CurrentTerm 5) (engine_view list_noraft demo_engine)) \<and>
     x = Inr ((NodeState_default list_noraft)\<lparr>ns_current_term := 5\<rparr>)"
proof -
  let ?v = "engine_view list_noraft demo_engine"
  obtain s' x where calls: "calls (system_event list_noraft list_nojson) (Up demo_engine)
      [Performed (CmdSaveCurrentTerm 1 5), Rejected (CmdRemoveNode 2) node_removed_error, Loaded 1 x, Closed] s'"
    by (rule demo_calls)
  have "represents list_noraft list_nojson (Up demo_engine) ?v" by (simp add: demo_engine_ok)
  from system_refines_view [OF list_noraft_laws list_json_laws this calls]
  have "represents list_noraft list_nojson s' (view_append 1 (CurrentTerm 5) ?v)"
    "x = view_load list_noraft (view_append 1 (CurrentTerm 5) ?v) 1" by auto
  moreover have "view_load list_noraft ?v 1 = Inr (NodeState_default list_noraft)"
    using Engine_load_view [OF demo_engine_ok, of 1] by (simp add: demo_load)
  then have "view_load list_noraft (view_append 1 (CurrentTerm 5) ?v) 1 = Inr ((NodeState_default list_noraft)\<lparr>ns_current_term := 5\<rparr>)"
    by (simp add: view_load_append apply_current_term_def)
  ultimately show ?thesis using calls by auto
qed

text \<open>
  C2. Every command is atomic over failures and crashes: when it returns, with success or with an
  error from any system call, a reader of the directory and an engine that is opened on it see the
  storage before the command or the storage after it, the same for all nodes; after success, they see
  the latter.
\<close>

theorem command_atomic:
  fixes N :: "('le, 'lg) noraft"
  assumes "noraft_laws N" and "json_laws J" and "command_wf N J cmd" and "engine_ok N J s"
    and "run_command N J cmd s = (r, s')"
  shows "\<exists>v. (v = engine_view N s \<or> command_allowed (st_registry s) cmd \<and> v = view_command N cmd (engine_view N s)) \<and>
    (r = Inr () \<longrightarrow> v = view_command N cmd (engine_view N s)) \<and>
    (\<forall>k. load_node N J (close_engine s') k = (view_load N v k, close_engine s')) \<and>
    (\<forall>m t d'. with_max_segment_len N J m (close_engine s') = (Inr t, d') \<longrightarrow> engine_view N t = v)"
proof -
  note eff = run_command_effect [OF assms(1,3-5)]
  have seen: "(\<forall>k. load_node N J (close_engine s') k = (view_load N v k, close_engine s')) \<and>
      (\<forall>m t d'. with_max_segment_len N J m (close_engine s') = (Inr t, d') \<longrightarrow> engine_view N t = v)"
    if "stands_for N J (st_disk s') v" for v
  proof -
    have closed: "stands_for N J (close_engine s') v"
      using stands_for_lock [OF that] by (simp add: close_engine_def release_lock_def)
    then have rest: "at_rest N J (close_engine s') v" by (simp add: at_rest_def)
    show ?thesis
      using load_node_view [OF assms(2) closed] with_max_segment_len_effect(3) [OF assms(2) rest _ refl] by blast
  qed
  show ?thesis
  proof (cases "r = Inr ()")
    case True
    then show ?thesis using eff(2) seen engine_stands by metis
  next
    case False
    then show ?thesis using eff(1) seen by blast
  qed
qed

theorem command_atomic_witness:
  "\<exists>r s' v. run_command list_noraft list_nojson (CmdSaveCurrentTerm 1 9) faulty_engine = (r, s') \<and>
     (v = engine_view list_noraft faulty_engine \<or>
      v = view_command list_noraft (CmdSaveCurrentTerm 1 9) (engine_view list_noraft faulty_engine)) \<and>
     load_node list_noraft list_nojson (close_engine s') 1 = (view_load list_noraft v 1, close_engine s')"
proof -
  obtain r s' where run: "run_command list_noraft list_nojson (CmdSaveCurrentTerm 1 9) faulty_engine = (r, s')"
    by (rule prod.exhaust)
  have "command_wf list_noraft list_nojson (CmdSaveCurrentTerm 1 9)" by simp
  from command_atomic [OF list_noraft_laws list_json_laws this faulty_engine_ok run] show ?thesis using run by blast
qed

section \<open>Opening and reading\<close>

text \<open>
  C10. Opening recovers: whatever engine was closed or crashed before, and whether opening succeeds or
  fails, the directory stands for the same abstract storage afterwards; an engine that was opened
  shows this storage, holds the lock, which nobody held before, and uses the segment length it was
  asked for; a failed attempt does not keep the lock.
\<close>

theorem open_recovers:
  assumes "json_laws J" and "at_rest N J d v" and "with_max_segment_len N J m d = (r, d')"
  shows "at_rest N J d' v \<and>
    (case r of Inl e \<Rightarrow> d_locked d' = d_locked d
     | Inr s \<Rightarrow> \<not> d_locked d \<and> d_locked d' \<and> st_disk s = d' \<and> engine_ok N J s \<and> engine_view N s = v \<and>
         sw_max_segment_len (st_writer s) = m)"
proof (cases r)
  case (Inl e)
  then show ?thesis using with_max_segment_len_effect(1,2) [OF assms] by simp
next
  case (Inr s)
  note eff = with_max_segment_len_effect(1,3) [OF assms]
  then have "d_locked (st_disk s)" using Inr engine_okD(12) by blast
  then show ?thesis using eff Inr by simp
qed

theorem open_recovers_witness:
  "\<exists>r d'. with_max_segment_len list_noraft list_nojson 1000 (close_engine demo_engine) = (r, d') \<and>
     at_rest list_noraft list_nojson d' (engine_view list_noraft demo_engine)"
proof -
  obtain r d' where run: "with_max_segment_len list_noraft list_nojson 1000 (close_engine demo_engine) = (r, d')"
    by (rule prod.exhaust)
  from open_recovers [OF list_json_laws demo_closed_rest run] show ?thesis using run by blast
qed

text \<open>
  C17. Opening works: when nobody holds the lock, no system call fails and no entry of the directory
  that looks like a segment is something else, an engine is returned, also on a directory that an
  engine left behind at any failure.
\<close>

theorem open_succeeds:
  assumes "json_laws J" and "at_rest N J d v" and "\<not> d_locked d" and "d_faults d = []" and "plain d" and "m \<noteq> 0"
  shows "\<exists>s. with_max_segment_len N J m d = (Inr s, st_disk s) \<and> engine_view N s = v"
proof -
  obtain s where s: "with_max_segment_len N J m d = (Inr s, st_disk s)" using with_max_segment_len_succeeds [OF assms] .
  from with_max_segment_len_effect(3) [OF assms(1,2) this refl] s show ?thesis by blast
qed

theorem open_succeeds_witness:
  "\<exists>s. with_max_segment_len list_noraft list_nojson 1000 (close_engine demo_engine) = (Inr s, st_disk s) \<and>
     engine_view list_noraft s = engine_view list_noraft demo_engine"
  by (rule open_succeeds [OF list_json_laws demo_closed_rest demo_closed(2,1,3)]) simp

text \<open>
  C15. One engine for a directory: while an engine is open, another attempt to open the directory
  fails, with \<^verbatim>\<open>WouldBlock\<close> unless a system call fails earlier, and it changes nothing that the
  engine relies on.
\<close>

theorem second_engine_refused:
  assumes "engine_ok N J s" and "with_max_segment_len N J m (st_disk s) = (r, d')"
  shows "(\<exists>e. r = Inl e) \<and> engine_ok N J (s\<lparr>st_disk := d'\<rparr>) \<and> engine_view N (s\<lparr>st_disk := d'\<rparr>) = engine_view N s \<and>
    (m \<noteq> 0 \<longrightarrow> d_faults (st_disk s) = [] \<longrightarrow>
       r = Inl (IoError WouldBlock ''storage directory is already open for writing''))"
proof -
  note inv = engine_okD [OF assms(1)]
  have "d_dir (st_disk s) = Directory" using inv(4) by (simp add: disk_ok_def)
  note locked = locked_open [OF assms(2) this inv(12)]
  show ?thesis using locked(1,3) inv(11) engine_ok_lock_file [OF assms(1) locked(2)] by blast
qed

theorem second_engine_refused_witness:
  "\<exists>d'. with_max_segment_len list_noraft list_nojson 1000 (st_disk demo_engine) =
     (Inl (IoError WouldBlock ''storage directory is already open for writing''), d')"
proof -
  obtain r d' where run: "with_max_segment_len list_noraft list_nojson 1000 (st_disk demo_engine) = (r, d')"
    by (rule prod.exhaust)
  have "(1000 :: u64) \<noteq> 0" "d_faults (st_disk demo_engine) = []" by simp_all
  with second_engine_refused [OF demo_engine_ok run] run show ?thesis by blast
qed

text \<open>
  C11. The engine and the read-only functions agree: \<^verbatim>\<open>load\<close> of an open engine, which uses its own index
  and may cut a torn tail, returns what the read-only \<^verbatim>\<open>load\<close> returns for the same directory, or for
  the directory after the engine was closed, for every node, errors included; and it changes no file.
\<close>

theorem engine_and_read_only_agree:
  fixes N :: "('le, 'lg) noraft"
  assumes "json_laws J" and "engine_ok N J s"
  shows "load_node N J (st_disk s) n = (fst (Engine_load N n s), st_disk s) \<and>
    fst (load_node N J (close_engine s) n) = fst (Engine_load N n s) \<and> st_disk (snd (Engine_load N n s)) = st_disk s"
proof -
  have stands: "stands_for N J (st_disk s) (engine_view N s)" "stands_for N J (close_engine s) (engine_view N s)"
    using engine_stands [OF assms(2)] stands_for_lock by (auto simp: close_engine_def release_lock_def)
  show ?thesis
    by (simp add: load_node_view [OF assms(1) stands(1)] load_node_view [OF assms(1) stands(2)] Engine_load_view [OF assms(2)]
        Engine_load_same(1) [OF assms(2)])
qed

theorem engine_and_read_only_agree_witness:
  "load_node list_noraft list_nojson (st_disk demo_engine) 1 = (Inr (NodeState_default list_noraft), st_disk demo_engine)"
  using engine_and_read_only_agree [OF list_json_laws demo_engine_ok, of 1] by (simp add: demo_load)

text \<open>
  C12. \<^verbatim>\<open>load_all\<close>, which reads every segment once, returns a map exactly when loading each active node
  on its own succeeds, and the map has exactly these states; the engine and the read-only function
  return the same map.
\<close>

theorem load_all_agrees_with_load:
  fixes N :: "('le, 'lg) noraft"
  assumes "json_laws J" and "engine_ok N J s"
  shows "(fst (Engine_load_all N s) = Inr m \<longleftrightarrow> bt_wf m \<and> (\<forall>n. if is_active (st_registry s) n
      then (\<exists>x. fst (Engine_load N n s) = Inr x \<and> bt_get m n = Some x) else bt_get m n = None)) \<and>
    (fst (load_all N J (st_disk s)) = Inr m \<longleftrightarrow> fst (Engine_load_all N s) = Inr m)"
proof -
  let ?v = "engine_view N s"
  obtain idx where idx: "storage_ok N J (st_disk s) (st_registry s) idx" using assms(2) by (auto simp: engine_ok_def)
  note live = Engine_load_all_live(1) [OF assms(2)] load_all_live(1) [OF assms(1) idx]
  have views: "view_loads N ?v (fst (Engine_load_all N s))" "view_loads N ?v (fst (load_all N J (st_disk s)))"
    using live engine_okD(7) [OF assms(2)] by (auto intro: loads_all_view)
  show ?thesis
    using views [unfolded view_loads_def] by (simp add: Engine_load_view [OF assms(2)])
qed

theorem load_all_agrees_with_load_witness:
  "fst (Engine_load_all list_noraft demo_engine) = Inr [(1, NodeState_default list_noraft)] \<and>
   fst (load_all list_noraft list_nojson (st_disk demo_engine)) = Inr [(1, NodeState_default list_noraft)]"
proof -
  have "is_active demo_registry n \<longleftrightarrow> n = 1" for n by (auto simp: demo_registry_def is_active_def)
  then have "\<forall>n. if is_active (st_registry demo_engine) n
      then (\<exists>x. fst (Engine_load list_noraft n demo_engine) = Inr x \<and> bt_get [(1, NodeState_default list_noraft)] n = Some x)
      else bt_get [(1, NodeState_default list_noraft)] n = None"
    by (simp add: demo_load)
  then show ?thesis
    using load_all_agrees_with_load [OF list_json_laws demo_engine_ok, of "[(1, NodeState_default list_noraft)]"] by simp
qed

section \<open>Writing\<close>

text \<open>
  C5. What was saved is loaded: after any sequence of successful saves of terms, votes and log
  appends, interleaved over nodes, loading a node gives its state from before with its own records
  applied in order, or the error that applying them gives; other nodes are as they were.
\<close>

theorem saved_records_loaded:
  fixes N :: "('le, 'lg) noraft" and J :: "'v nojson"
  assumes "noraft_laws N" and "engine_ok N J s" and "\<forall>(n, r) \<in> set nrs. plain_record N r"
    and "sfold (\<lambda>(n, r) _. save_record N n r op) nrs () s = (Inr (), s')"
  shows "fst (Engine_load N k s') =
    rbind (fst (Engine_load N k s)) (\<lambda>st. fold_result (apply_record_to_state N) st (map snd (filter (\<lambda>(n, r). n = k) nrs)))"
  using engine_store.load_saved_all [OF assms(4) _ assms(3), where ?J = J] assms(1,2) by blast

theorem saved_records_loaded_witness:
  "\<exists>s'. save_record list_noraft 1 (CurrentTerm 5) OpSaveCurrentTerm demo_engine = (Inr (), s') \<and>
     fst (Engine_load list_noraft 1 s') = Inr ((NodeState_default list_noraft)\<lparr>ns_current_term := 5\<rparr>)"
proof -
  obtain s' where run: "save_record list_noraft 1 (CurrentTerm 5) OpSaveCurrentTerm demo_engine = (Inr (), s')" using demo_save .
  have "sfold (\<lambda>(n, r) _. save_record list_noraft n r OpSaveCurrentTerm) [(1, CurrentTerm 5)] () demo_engine = (Inr (), s')"
    by (simp add: run) (simp add: sret_def)
  then show ?thesis
    using saved_records_loaded [OF list_noraft_laws demo_engine_ok, of "[(1, CurrentTerm 5)]" OpSaveCurrentTerm s' 1] run
    by (simp add: demo_load apply_current_term_def)
qed

text \<open>
  C7. A snapshot replaces the node: after a successful \<^verbatim>\<open>save_snapshot\<close>, which also deletes old
  segments, loading the node gives the term, the vote, the snapshot, the log and the payloads of the
  checkpoint, whatever the node was before, and every other node is loaded as before. The position of
  the snapshot is the zero position or has a non-zero index; \<^verbatim>\<open>snapshot_not_loadable\<close> below is about the
  others.
\<close>

theorem snapshot_loaded:
  assumes "noraft_laws N" and "record_wf N (Checkpoint c)" and "engine_ok N J s"
    and "replayable_position (sn_last_included (sc_snapshot c))" and "save_snapshot N J n c s = (Inr (), s')"
  shows "fst (Engine_load N k s') = (if k = n then Inr (checkpoint_state N c) else fst (Engine_load N k s))"
  using save_snapshot_load [OF assms(1-3,5)] assms(4) by simp

theorem snapshot_loaded_witness:
  "\<exists>s'. save_snapshot list_noraft list_nojson 1 (initial_checkpoint list_noraft) demo_engine = (Inr (), s') \<and>
     fst (Engine_load list_noraft 1 s') = Inr (checkpoint_state list_noraft (initial_checkpoint list_noraft))"
proof -
  obtain s' where run: "save_snapshot list_noraft list_nojson 1 (initial_checkpoint list_noraft) demo_engine = (Inr (), s')"
    using demo_snapshot .
  have "replayable_position (sn_last_included (sc_snapshot (initial_checkpoint list_noraft)))"
    by (simp add: replayable_position_def initial_checkpoint_def)
  from snapshot_loaded [OF list_noraft_laws initial_checkpoint_wf [OF list_noraft_laws] demo_engine_ok this run, of 1] show ?thesis
    using run by auto
qed

text \<open>
  A checkpoint with snapshot index zero and a non-zero term is accepted: \<^verbatim>\<open>save_snapshot\<close> succeeds with it,
  but from then on the node does not load.
\<close>

theorem snapshot_not_loadable:
  assumes "noraft_laws N" and "record_wf N (Checkpoint c)" and "engine_ok N J s"
    and "\<not> replayable_position (sn_last_included (sc_snapshot c))" and "save_snapshot N J n c s = (Inr (), s')"
  shows "fst (Engine_load N n s') = Inl (invalid_data ''snapshot position conflicts with local log'')"
  using save_snapshot_load [OF assms(1-3,5), of n] assms(4) by simp

theorem snapshot_not_loadable_witness:
  "\<exists>c s'. save_snapshot list_noraft list_nojson 1 c demo_engine = (Inr (), s') \<and>
     fst (Engine_load list_noraft 1 s') = Inl (invalid_data ''snapshot position conflicts with local log'')"
proof -
  let ?c = "sample_checkpoint \<lparr>pos_term = 5, pos_index = 0\<rparr>"
  obtain s' where run: "save_snapshot list_noraft list_nojson 1 ?c demo_engine = (Inr (), s')" using demo_sample_snapshot .
  have "\<not> replayable_position (sn_last_included (sc_snapshot ?c))"
    by (simp add: replayable_position_def sample_checkpoint_def LogPosition_ZERO_def)
  from snapshot_not_loadable [OF list_noraft_laws sample_checkpoint_wf demo_engine_ok this run] show ?thesis using run by blast
qed

text \<open>
  C13. Creating and removing nodes: a created node is listed with its metadata and loads as the
  initial checkpoint; a removed one is refused from then on; in both cases every other node is loaded
  as before.
\<close>

theorem node_lifecycle:
  fixes N :: "('le, 'lg) noraft"
  assumes "noraft_laws N" and "command_wf N J cmd" and "engine_ok N J s" and "run_command N J cmd s = (Inr (), s')"
  shows "(\<forall>n meta. cmd = CmdCreateNode n meta \<longrightarrow> node_metadata s' n = Some meta \<and>
      (\<forall>k. fst (Engine_load N k s') = (if k = n then into_state N (initial_checkpoint N) else fst (Engine_load N k s)))) \<and>
    (\<forall>n. cmd = CmdRemoveNode n \<longrightarrow> node_metadata s' n = None \<and>
      (\<forall>k. fst (Engine_load N k s') = (if k = n then Inl node_removed_error else fst (Engine_load N k s))))"
proof -
  have eff: "command_allowed (st_registry s) cmd" "engine_ok N J s'" "engine_view N s' = view_command N cmd (engine_view N s)"
    using run_command_effect(2) [OF assms refl] by auto
  have reg: "st_registry s' = v_registry (view_command N cmd (engine_view N s))" using eff(3) by (metis engine_view_sel(1))
  note loads = Engine_load_view [OF assms(3)] Engine_load_view [OF eff(2)] eff(3)
  have created: "st_registry s' = bt_insert n \<lparr>re_metadata = meta, re_removed = False\<rparr> (st_registry s)" if "cmd = CmdCreateNode n meta" for n meta
    using that reg by (simp add: view_create_def)
  have "node_metadata s' n = Some meta \<and>
      (\<forall>k. fst (Engine_load N k s') = (if k = n then into_state N (initial_checkpoint N) else fst (Engine_load N k s)))"
    if "cmd = CmdCreateNode n meta" for n meta
    using that created [OF that] by (simp add: loads view_load_create node_metadata_def Registry_metadata_def bt_get_insert)
  moreover have "node_metadata s' n = None \<and>
      (\<forall>k. fst (Engine_load N k s') = (if k = n then Inl node_removed_error else fst (Engine_load N k s)))"
    if cmd: "cmd = CmdRemoveNode n" for n
  proof -
    have active: "is_active (v_registry (engine_view N s)) n" using eff(1) cmd by simp
    show ?thesis
      using cmd reg view_load_remove [OF active, of N] active
      by (auto simp: loads node_metadata_def Registry_metadata_def view_remove_def bt_get_insert is_active_def split: option.splits)
  qed
  ultimately show ?thesis by blast
qed

theorem node_lifecycle_witness:
  "\<exists>s'. remove_node list_nojson 1 demo_engine = (Inr (), s') \<and> fst (Engine_load list_noraft 1 s') = Inl node_removed_error"
proof -
  obtain s' where run: "remove_node list_nojson 1 demo_engine = (Inr (), s')" using demo_remove .
  have "command_wf list_noraft list_nojson (CmdRemoveNode 1)" by simp
  from node_lifecycle [OF list_noraft_laws this demo_engine_ok, of s'] run show ?thesis by simp
qed

text \<open>
  C18. Commands work: when no system call fails, every entry of the directory is a regular file, the
  record can be encoded and the texts of the metadata files fit, each allowed command succeeds, also
  those that rotate segments, replace metadata and collect garbage.
\<close>

theorem allowed_commands_succeed:
  assumes "noraft_laws N" and "command_wf N J cmd" and "engine_ok N J s" and "roomy s" and "easy s"
    and "command_allowed (st_registry s) cmd" and "command_fits N J s cmd"
  shows "\<exists>s'. run_command N J cmd s = (Inr (), s') \<and> engine_view N s' = view_command N cmd (engine_view N s)"
  using command_succeeds [OF assms] run_command_effect(2) [OF assms(1-3) _ refl] by blast

theorem allowed_commands_succeed_witness:
  "\<exists>s'. run_command list_noraft list_nojson (CmdSaveSnapshot 1 (initial_checkpoint list_noraft)) demo_engine = (Inr (), s')"
proof -
  have "command_wf list_noraft list_nojson (CmdSaveSnapshot 1 (initial_checkpoint list_noraft))"
    using initial_checkpoint_wf [OF list_noraft_laws] by simp
  from allowed_commands_succeed [OF list_noraft_laws this demo_engine_ok demo_roomy demo_easy]
  show ?thesis
    using demo_encodes_checkpoint demo_initial_valid demo_index_text by (auto simp: set_checkpoint_position_def)
qed

text \<open>
  C16. What is refused is refused with the documented error and without effect: creating a known ID
  and any operation on an unknown or removed node change neither the directory nor the engine,
  counters of rejected operations apart.
\<close>

theorem refused_commands:
  assumes "\<not> command_allowed (st_registry s) cmd"
  shows "fst (run_command N J cmd s) = Inl (command_error (st_registry s) cmd) \<and> as_it_was s (snd (run_command N J cmd s))"
  using command_refused [OF assms] command_disallowed(2) [OF assms prod.collapse [symmetric]] by blast

theorem refused_commands_witness:
  "fst (run_command list_noraft list_nojson (CmdSaveCurrentTerm 2 7) demo_engine) = Inl node_removed_error \<and>
   fst (run_command list_noraft list_nojson (CmdCreateNode 2 NodeMetadata_default) demo_engine) = Inl node_already_exists_error"
  using refused_commands [of demo_engine "CmdSaveCurrentTerm 2 7" list_noraft list_nojson]
    refused_commands [of demo_engine "CmdCreateNode 2 NodeMetadata_default" list_noraft list_nojson]
  by (simp add: access_error_def bt_get_demo)

text \<open>
  C14. IDs of removed nodes stay reserved: whatever happens after a node was removed, also across
  crashes and reopening, no engine on the directory lets the ID be created again or be used.
\<close>

theorem removed_ids_stay_reserved:
  assumes "noraft_laws N" and "json_laws J" and "represents N J sys v" and "is_removed (v_registry v) n"
    and "(system_step N J)\<^sup>*\<^sup>* sys (Up s)"
  shows "fst (create_node N J n meta s) = Inl node_already_exists_error \<and> fst (Engine_load N n s) = Inl node_removed_error \<and>
    fst (save_record N n r op s) = Inl node_removed_error"
proof -
  obtain v' where v': "represents N J (Up s) v'" "is_removed (v_registry v') n"
    using system_removed [OF assms(1,2,5,3,4)] by blast
  then have "is_removed (st_registry s) n" by auto
  then obtain e where "\<not> is_active (st_registry s) n" "bt_get (st_registry s) n = Some e" "access_error (st_registry s) n = node_removed_error"
    by (auto simp: is_removed_def is_active_def access_error_def split: option.splits)
  then show ?thesis using create_rejects [of s n e N J meta] by (simp add: rejects_inactive)
qed

theorem removed_ids_stay_reserved_witness:
  "fst (create_node list_noraft list_nojson 2 NodeMetadata_default demo_engine) = Inl node_already_exists_error"
proof -
  have "represents list_noraft list_nojson (Up demo_engine) (engine_view list_noraft demo_engine)" by (simp add: demo_engine_ok)
  from removed_ids_stay_reserved [OF list_noraft_laws list_json_laws this _ rtranclp.rtrancl_refl, of 2] show ?thesis by simp
qed

text \<open>
  C19. Loaded states are well-formed: whatever node an engine or the read-only function loads, the
  command payloads of the returned state are a map with ascending keys whose keys are exactly the
  indexes of the command entries of its log.
\<close>

theorem loaded_states_well_formed:
  fixes N :: "('le, 'lg) noraft"
  assumes "noraft_laws N" and "json_laws J" and "engine_ok N J s"
    and "fst (Engine_load N n s) = Inr st \<or> fst (load_node N J (st_disk s) n) = Inr st"
  shows "state_inv N st"
proof -
  have load: "view_load N (engine_view N s) n = Inr st"
    using assms(4) Engine_load_view [OF assms(3)] load_node_view [OF assms(2) engine_stands [OF assms(3)]] by auto
  then have "is_active (st_registry s) n" by (simp add: view_load_def split: if_splits)
  then have "replay_of N (live N (st_disk s) n) = Inr st" using load by (simp add: view_load_def)
  then show ?thesis by (rule live_state_inv [OF assms(1) engine_okD(5) [OF assms(3)]])
qed

theorem loaded_states_well_formed_witness: "state_inv list_noraft (NodeState_default list_noraft)"
  by (rule loaded_states_well_formed [OF list_noraft_laws list_json_laws demo_engine_ok, of 1]) (simp add: demo_load)

section \<open>Garbage collection and durability\<close>

text \<open>
  C9. Garbage collection is safe and exact: a segment may go if it is not active and lies strictly
  before the segment of the indexed checkpoint of every active node, which all must have one. Whether
  the collection succeeds or fails at any system call, it deletes only such segments, as whole files,
  changes no other file, and every node is loaded as before; when it succeeds, no such segment is left.
\<close>

theorem collect_garbage_safe:
  fixes N :: "('le, 'lg) noraft"
  assumes "json_laws J" and "engine_ok N J s" and "collect_garbage s = (r, s')"
  shows "let may_go = (\<lambda>n. n \<noteq> sw_active_segment (st_writer s) \<and>
      (\<forall>k. is_active (st_registry s) k \<longrightarrow> (\<exists>p. bt_get (st_index s) k = Some p \<and> n < rp_segment p))) in
    (\<forall>n. seg (st_disk s') n = seg (st_disk s) n \<or> seg (st_disk s') n = None \<and> may_go n) \<and>
    (\<forall>k. k \<notin> segment_files \<longrightarrow> disk_get (st_disk s') k = disk_get (st_disk s) k) \<and>
    (\<forall>k. fst (load_node N J (st_disk s') k) = fst (Engine_load N k s)) \<and>
    (r = Inr () \<longrightarrow> (\<forall>n. may_go n \<longrightarrow> seg (st_disk s') n = None))"
proof -
  note gc = collect_garbage_any [OF assms(3) engine_okD(4) [OF assms(2)]]
  note may_go = deletable_iff [OF engine_okD(7) [OF assms(2)]]
  have "fst (load_node N J (st_disk s') k) = fst (Engine_load N k s)" for k
    using load_node_view [OF assms(1) gc_effect(1) [OF assms(2,3)]] Engine_load_view [OF assms(2)] by simp
  moreover have "disk_get (st_disk s') k = disk_get (st_disk s) k" if "k \<notin> segment_files" for k
    using gc(1) that by (simp add: removes_def touch_def)
  ultimately show ?thesis unfolding Let_def may_go [symmetric] using gc(1,3) by (auto simp: removes_def)
qed

theorem collect_garbage_safe_witness:
  "\<exists>r s'. collect_garbage demo_engine = (r, s') \<and>
     fst (load_node list_noraft list_nojson (st_disk s') 1) = Inr (NodeState_default list_noraft)"
proof -
  obtain r s' where run: "collect_garbage demo_engine = (r, s')" by (rule prod.exhaust)
  from collect_garbage_safe [OF list_json_laws demo_engine_ok run] show ?thesis using run demo_load by metis
qed

text \<open>
  What \<^verbatim>\<open>sync\<close> makes durable in a session: after a successful \<^verbatim>\<open>sync\<close>, every segment file is on stable storage
  with its whole content, unless it still has the content that it had at an earlier moment of the
  engine's life, for instance when it was opened, or holds only its header: nothing that the engine
  wrote since is lost when the machine stops.
\<close>

theorem synced_segments_are_durable:
  fixes N :: "('le, 'lg) noraft"
  assumes "noraft_laws N" and "json_laws J" and "engine_ok N J s" and "session N J s t" and "Engine_sync t = (Inr (), t')"
    and "file_at (st_disk t') (SegmentName_file_name n) = Some f"
  shows "f_durable f = length (f_content f) \<or> seg (st_disk s) n = Some (f_content f) \<or> f_content f = SEGMENT_FORMAT_MAGIC"
proof -
  have "tracked (seg (st_disk s)) t" using session_tracked [OF assms(1-4) tracked_start] by blast
  then have "tracked (seg (st_disk s)) (on_metrics sync_requested t)" by (rule tracked_same [rotated -1]) (simp_all add: on_metrics_def)
  moreover have "SegmentWriter_sync (on_metrics sync_requested t) = (Inr (), t')"
    using assms(5) by (simp add: Engine_sync_def count_metric_def smodify_def)
  ultimately show ?thesis using SegmentWriter_sync_settles(1) assms(6) unfolding settled_def by blast
qed

theorem synced_segments_are_durable_witness:
  "\<exists>t t'. save_record list_noraft 1 (CurrentTerm 5) OpSaveCurrentTerm demo_engine = (Inr (), t) \<and> Engine_sync t = (Inr (), t') \<and>
     (\<forall>f. file_at (st_disk t') (SegmentName_file_name 0) = Some f \<longrightarrow>
        f_durable f = length (f_content f) \<or> f_content f = SEGMENT_FORMAT_MAGIC)"
proof -
  obtain t where t: "save_record list_noraft 1 (CurrentTerm 5) OpSaveCurrentTerm demo_engine = (Inr (), t)"
    "d_faults (st_disk t) = []" using demo_save .
  obtain t' where sync: "Engine_sync t = (Inr (), t')" using sync_succeeds [OF t(2)] .
  have "command_wf list_noraft list_nojson (CmdSaveCurrentTerm 1 5)"
    "run_command list_noraft list_nojson (CmdSaveCurrentTerm 1 5) demo_engine = (Inr (), t)"
    using t(1) by (simp_all add: save_current_term_def)
  then have step: "system_step list_noraft list_nojson (Up demo_engine) (Up t)" by (rule system_step.performed)
  have "session list_noraft list_nojson demo_engine t" by (rule r_into_rtranclp) (rule step)
  from synced_segments_are_durable [OF list_noraft_laws list_json_laws demo_engine_ok this sync, of 0]
  show ?thesis using t(1) sync by (auto simp: demo_seg)
qed

section \<open>Loss of power\<close>

text \<open>
  C3. Loss of power costs at most the newest records: whatever engines did on a directory before,
  with whatever failures, crashes and earlier losses of power, and whenever the power is lost, also in
  the middle of an operation. If every file may lose bytes at its end that were not synchronised, the
  directory still stands for a storage and the registry is the same; what remains is a beginning of
  the one sequence of records of all nodes, every record that was on stable storage is in it, and the
  read-only \<^verbatim>\<open>load\<close> replays exactly the remaining records of each active node from its last checkpoint
  among them.
\<close>

theorem power_loss_keeps_prefix:
  fixes N :: "('le, 'lg) noraft" and J :: "'v nojson"
  assumes "noraft_laws N" and "json_laws J" and "(power_step N J)\<^sup>*\<^sup>* (Down d0) sys" and "d_dir d0 = Missing" and "\<not> d_locked d0"
    and "d_dir (system_disk sys) = Directory" and "power_loss (system_disk sys) d'"
  shows "\<exists>reg i. let d = system_disk sys; kept = take i (dir_records d) in
    NodeRegistry_load J d = Inr reg \<and> NodeRegistry_load J d' = Inr reg \<and> at_rest N J d' (view_of N d' reg) \<and>
    (\<forall>(p, body) \<in> set (dir_records d). record_durable d p \<longrightarrow> (p, body) \<in> set kept) \<and>
    (\<forall>n. load_node N J d' n =
      (if is_active reg n then replay_of N (since_checkpoint (history N n kept)) else Inl (access_error reg n), d'))"
proof -
  obtain v where v: "represents N J sys v" "sound J sys" using power_reachable [OF assms(1-5)] by blast
  obtain idx a where store: "storage_ok N J (system_disk sys) (v_registry v) idx" "stored J (system_disk sys) (v_registry v) idx"
    "firm a (system_disk sys)" using sound_storage [OF assms(2) v assms(6)] by metis
  have crash: "crash_ok (system_disk sys)" using store(1) by (simp add: storage_ok_def)
  note recs = power_loss_records [OF crash store(3) assms(7)]
  note after = power_loss_storage [OF store assms(7)]
  obtain i where i: "dir_records d' = take i (dir_records (system_disk sys))" using recs(2) by blast
  have stands: "stands_for N J d' (view_of N d' (v_registry v))" by (rule stands_forI [OF after(1)])
  have load: "load_node N J d' n = (if is_active (v_registry v) n
      then replay_of N (since_checkpoint (history N n (take i (dir_records (system_disk sys))))) else Inl (access_error (v_registry v) n), d')" for n
    by (simp add: load_node_view [OF assms(2) stands]) (simp add: view_load_def view_of_def live_def i)
  have reg: "NodeRegistry_load J (system_disk sys) = Inr (v_registry v)" "NodeRegistry_load J d' = Inr (v_registry v)"
    using store(1) after(1) by (simp_all add: NodeRegistry_load_stored [OF assms(2)] storage_ok_def)
  show ?thesis
    unfolding Let_def
    using reg load stands recs(3) by (intro exI [of _ "v_registry v"] exI [of _ i]) (auto simp: at_rest_def i)
qed

theorem power_loss_keeps_prefix_witness:
  "\<exists>s reg. with_max_segment_len list_noraft list_nojson 1000 fresh_disk = (Inr s, st_disk s) \<and>
     NodeRegistry_load list_nojson (blackout_disk (st_disk s)) = Inr reg"
proof -
  obtain s where run: "with_max_segment_len list_noraft list_nojson 1000 fresh_disk = (Inr s, st_disk s)" using fresh_open .
  then have "power_step list_noraft list_nojson (Down fresh_disk) (Up s)"
    by (intro power_step.ordinary system_step.opened)
  then have reach: "(power_step list_noraft list_nojson)\<^sup>*\<^sup>* (Down fresh_disk) (Up s)" by (rule r_into_rtranclp)
  have "engine_ok list_noraft list_nojson s"
    using with_max_segment_len_effect(3) [OF list_json_laws fresh_at_rest run refl] by simp
  then have "d_dir (system_disk (Up s)) = Directory" using engine_okD(4) by (auto simp: disk_ok_def)
  from power_loss_keeps_prefix [OF list_noraft_laws list_json_laws reach fresh_sel(1,3) this power_loss_blackout] run
  show ?thesis by (simp add: Let_def) blast
qed

text \<open>
  C6. Saved and synchronised is safe: after any non-empty sequence of successful saves and a
  successful \<^verbatim>\<open>sync\<close>, whatever loss of power follows, loading a node gives its state from before the
  saves with its own records applied in order. The hypothesis \<open>sound\<close> on the engine holds in every
  state that the system reaches.
\<close>

theorem synced_records_survive:
  fixes N :: "('le, 'lg) noraft" and J :: "'v nojson"
  assumes "noraft_laws N" and "json_laws J" and "engine_ok N J s" and "sound J (Up s)"
    and "\<forall>(n, r) \<in> set nrs. plain_record N r" and "nrs \<noteq> []"
    and "sfold (\<lambda>(n, r) _. save_record N n r op) nrs () s = (Inr (), s1)" and "Engine_sync s1 = (Inr (), s2)"
    and "power_loss (st_disk s2) d'"
  shows "load_node N J d' k =
    (rbind (fst (Engine_load N k s)) (\<lambda>st. fold_result (apply_record_to_state N) st (map snd (filter (\<lambda>(n, r). n = k) nrs))), d')"
proof -
  have saved: "engine_ok N J s1" "fst (Engine_load N k s1) =
      rbind (fst (Engine_load N k s)) (\<lambda>st. fold_result (apply_record_to_state N) st (map snd (filter (\<lambda>(n, r). n = k) nrs)))"
    using engine_store.load_saved_all [OF assms(7) _ assms(5), where ?J = J] assms(1,3) by blast+
  note settled = sync_settles_all [OF assms(2) saved(1) saves_sound [OF assms(7,4)] saves_pending [OF assms(7,6)] assms(8)]
  have "load_node N J d' k = (fst (Engine_load N k s2), d')"
    using settled(3) by (intro power_loss_nothing [OF assms(2) settled(1) _ _ settled(4) assms(9)]) simp_all
  then show ?thesis using settled(2) saved(2) by (simp add: Engine_load_view [OF settled(1)] Engine_load_view [OF saved(1)])
qed

theorem synced_records_survive_witness:
  "\<exists>t t'. save_record list_noraft 1 (CurrentTerm 5) OpSaveCurrentTerm demo_engine = (Inr (), t) \<and> Engine_sync t = (Inr (), t') \<and>
     fst (load_node list_noraft list_nojson (blackout_disk (st_disk t')) 1) =
       Inr ((NodeState_default list_noraft)\<lparr>ns_current_term := 5\<rparr>)"
proof -
  obtain t where t: "save_record list_noraft 1 (CurrentTerm 5) OpSaveCurrentTerm demo_engine = (Inr (), t)"
    "d_faults (st_disk t) = []" using demo_save .
  obtain t' where sync: "Engine_sync t = (Inr (), t')" using sync_succeeds [OF t(2)] .
  have "sfold (\<lambda>(n, r) _. save_record list_noraft n r OpSaveCurrentTerm) [(1, CurrentTerm 5)] () demo_engine = (Inr (), t)"
    by (simp add: t(1)) (simp add: sret_def)
  from synced_records_survive [OF list_noraft_laws list_json_laws demo_engine_ok demo_sound _ _ this sync power_loss_blackout, of 1]
  show ?thesis using t(1) sync by (simp add: demo_load apply_current_term_def)
qed

text \<open>
  C8. Creation and snapshots are durable when they return: after a successful \<^verbatim>\<open>create_node\<close> or
  \<^verbatim>\<open>save_snapshot\<close>, whatever loss of power follows, every node, also one with records that nobody
  synchronised, is loaded as the engine would have loaded it.
\<close>

theorem checkpoints_survive:
  fixes N :: "('le, 'lg) noraft" and J :: "'v nojson"
  assumes "noraft_laws N" and "json_laws J" and "engine_ok N J s" and "sound J (Up s)" and "command_wf N J cmd"
    and "(\<exists>n meta. cmd = CmdCreateNode n meta) \<or> (\<exists>n c. cmd = CmdSaveSnapshot n c)"
    and "run_command N J cmd s = (Inr (), s')" and "power_loss (st_disk s') d'"
  shows "load_node N J d' k = (fst (Engine_load N k s'), d')"
proof -
  have ok: "engine_ok N J s'" using run_command_effect(2) [OF assms(1,5,3,7) refl] by simp
  have "represents N J (Up s) (engine_view N s)" using assms(3) by simp
  from system_sound [OF assms(1,2) this assms(4) system_step.performed [OF assms(5,7)]] have "sound J (Up s')" .
  moreover have "all_synced (st_disk s')" using checkpoint_settles [OF assms(7) _ assms(6)] assms(4) by simp
  ultimately show ?thesis using power_loss_nothing [OF assms(2) ok _ _ _ assms(8)] by simp
qed

theorem checkpoints_survive_witness:
  "\<exists>s'. save_snapshot list_noraft list_nojson 1 (initial_checkpoint list_noraft) demo_engine = (Inr (), s') \<and>
     fst (load_node list_noraft list_nojson (blackout_disk (st_disk s')) 1) = fst (Engine_load list_noraft 1 s')"
proof -
  let ?cmd = "CmdSaveSnapshot 1 (initial_checkpoint list_noraft)"
  obtain s' where run: "save_snapshot list_noraft list_nojson 1 (initial_checkpoint list_noraft) demo_engine = (Inr (), s')"
    using demo_snapshot .
  have "command_wf list_noraft list_nojson ?cmd" using initial_checkpoint_wf [OF list_noraft_laws] by simp
  from checkpoints_survive [OF list_noraft_laws list_json_laws demo_engine_ok demo_sound this _ _ power_loss_blackout, of s' 1]
  show ?thesis using run by auto
qed

end
